(* ===== verification/Prelude.thy ===== *)
theory Prelude
  imports Main "HOL-Library.Word"
begin

text \<open>
  Shared vocabulary of the development: the names of the machine types, the collections of
  facts the component proofs use, the little-endian byte layout that the packet code writes with
  memcpy, the vector operations resize and memcpy, decimal printing (std::to_string) and
  the ordered-set operations of std::set.
\<close>

named_theorems packet_simps
  \<open>what the accessors of a packet read from the bytes the constructors wrote\<close>

named_theorems relay_simps
  \<open>one equation per branch of the servers' message dispatch\<close>

named_theorems bounds
  \<open>lengths and numeric bounds of buffers and samples\<close>

type_synonym byte = "8 word"
type_synonym u8 = "8 word"
type_synonym u16 = "16 word"
type_synonym u32 = "32 word"
type_synonym i16 = "16 word"

text \<open>A reading of std::chrono::system_clock, in nanoseconds.\<close>
type_synonym timepoint = int

abbreviation one_second :: int where
  "one_second \<equiv> 1000000000"

subsection \<open>Little-endian integers\<close>

definition le16 :: "u16 \<Rightarrow> byte list" where
  "le16 w = [ucast w, ucast (drop_bit 8 w)]"

definition le32 :: "u32 \<Rightarrow> byte list" where
  "le32 w = [ucast w, ucast (drop_bit 8 w), ucast (drop_bit 16 w), ucast (drop_bit 24 w)]"

definition rd16 :: "byte list \<Rightarrow> nat \<Rightarrow> u16" where
  "rd16 bs i = or (ucast (bs ! i)) (push_bit 8 (ucast (bs ! (i + 1))))"

definition rd32 :: "byte list \<Rightarrow> nat \<Rightarrow> u32" where
  "rd32 bs i = or (or (ucast (bs ! i)) (push_bit 8 (ucast (bs ! (i + 1)))))
     (or (push_bit 16 (ucast (bs ! (i + 2)))) (push_bit 24 (ucast (bs ! (i + 3)))))"

lemma length_le16 [simp]: "length (le16 w) = 2"
  by (simp add: le16_def)

lemma length_le32 [simp]: "length (le32 w) = 4"
  by (simp add: le32_def)

lemma le16_bits:
  "or (ucast (ucast w :: byte)) (push_bit 8 (ucast (ucast (drop_bit 8 w) :: byte))) = (w :: u16)"
  by (rule bit_word_eqI) (auto simp: bit_simps)

lemma le32_bits:
  "or (or (ucast (ucast w :: byte)) (push_bit 8 (ucast (ucast (drop_bit 8 w) :: byte))))
      (or (push_bit 16 (ucast (ucast (drop_bit 16 w) :: byte)))
          (push_bit 24 (ucast (ucast (drop_bit 24 w) :: byte)))) = (w :: u32)"
proof (rule bit_word_eqI)
  fix n
  assume "n < LENGTH(32)"
  then show "bit (or (or (ucast (ucast w :: byte)) (push_bit 8 (ucast (ucast (drop_bit 8 w) :: byte))))
      (or (push_bit 16 (ucast (ucast (drop_bit 16 w) :: byte)))
          (push_bit 24 (ucast (ucast (drop_bit 24 w) :: byte)))) :: u32) n \<longleftrightarrow> bit w n"
    by (cases "n < 16"; cases "n < 24") (auto simp: bit_simps)
qed

lemma rd16_le16:
  assumes "length xs = i"
  shows "rd16 (xs @ le16 w @ ys) i = w"
  using assms le16_bits [of w] by (simp add: rd16_def le16_def nth_append)

lemma rd32_le32:
  assumes "length xs = i"
  shows "rd32 (xs @ le32 w @ ys) i = w"
  using assms le32_bits [of w] by (simp add: rd32_def le32_def nth_append)

text \<open>A read depends on the bytes it covers only.\<close>

lemma rd16_take: "i + 2 \<le> n \<Longrightarrow> rd16 (take n bs) i = rd16 bs i"
  by (simp add: rd16_def)

lemma rd32_take: "i + 4 \<le> n \<Longrightarrow> rd32 (take n bs) i = rd32 bs i"
  by (simp add: rd32_def)

lemma rd16_append: "i + 2 \<le> length xs \<Longrightarrow> rd16 (xs @ ys) i = rd16 xs i"
  by (simp add: rd16_def nth_append)

lemma rd32_append: "i + 4 \<le> length xs \<Longrightarrow> rd32 (xs @ ys) i = rd32 xs i"
  by (simp add: rd32_def nth_append)

subsection \<open>Vectors: resize and memcpy\<close>

text \<open>
  std::vector::resize cuts the vector or pads it with value-initialised elements; memcpy of
  the elements src to position off overwrites them in place.
\<close>

definition resize :: "nat \<Rightarrow> 'a::zero list \<Rightarrow> 'a list" where
  "resize n xs = take n xs @ replicate (n - length xs) 0"

definition write_at :: "nat \<Rightarrow> 'a list \<Rightarrow> 'a list \<Rightarrow> 'a list" where
  "write_at off src dst = take off dst @ src @ drop (off + length src) dst"

lemma length_resize [simp, bounds]: "length (resize n xs) = n"
  by (simp add: resize_def)

lemma take_resize: "m \<le> n \<Longrightarrow> m \<le> length xs \<Longrightarrow> take m (resize n xs) = take m xs"
  by (simp add: resize_def min_def)

lemma length_write_at [simp]:
  "off + length src \<le> length dst \<Longrightarrow> length (write_at off src dst) = length dst"
  by (simp add: write_at_def)

lemma write_at_0: "write_at 0 src dst = src @ drop (length src) dst"
  by (simp add: write_at_def)

lemma write_at_append:
  "length xs = off \<Longrightarrow> write_at off src (xs @ ys) = xs @ src @ drop (length src) ys"
  by (simp add: write_at_def)

subsection \<open>Decimal printing\<close>

fun nat_to_string :: "nat \<Rightarrow> string" where
  "nat_to_string n =
     (if n < 10 then [char_of (48 + n)]
      else nat_to_string (n div 10) @ [char_of (48 + n mod 10)])"

declare nat_to_string.simps [simp del]

definition int_to_string :: "int \<Rightarrow> string" where
  "int_to_string i = (if i < 0 then ''-'' @ nat_to_string (nat (- i)) else nat_to_string (nat i))"

fun digits_value :: "nat \<Rightarrow> string \<Rightarrow> nat" where
  "digits_value acc [] = acc"
| "digits_value acc (c # cs) = digits_value (10 * acc + (of_char c - 48)) cs"

lemma digits_value_append: "digits_value acc (xs @ ys) = digits_value (digits_value acc xs) ys"
  by (induction xs arbitrary: acc) simp_all

lemma of_char_digit: "n < 10 \<Longrightarrow> of_char (char_of (48 + n)) = (48 + n :: nat)"
  by simp

lemma digits_value_nat_to_string: "digits_value 0 (nat_to_string n) = n"
proof (induction n rule: nat_to_string.induct)
  case (1 n)
  then show ?case
    by (cases "n < 10")
      (simp_all add: nat_to_string.simps [of n] digits_value_append)
qed

text \<open>White space of the C locale.\<close>

definition is_space :: "char \<Rightarrow> bool" where
  "is_space c \<longleftrightarrow> c \<in> {CHR '' '', CHR 0x09, CHR 0x0A, CHR 0x0B, CHR 0x0C, CHR 0x0D}"

lemma nat_to_string_nonempty [simp]: "nat_to_string n \<noteq> []"
  by (subst nat_to_string.simps) simp

lemma length_nat_to_string_2: "n < 100 \<Longrightarrow> length (nat_to_string n) \<le> 2"
proof -
  assume "n < 100"
  then have "n div 10 < 10" by arith
  then show ?thesis
    by (simp add: nat_to_string.simps [of n] nat_to_string.simps [of "n div 10"])
qed

subsection \<open>Ordered sets of objects\<close>

text \<open>
  A std::set of shared pointers iterates in the order of the addresses. It is a list that is
  kept ascending and without repetition; insertion of an element that is there does nothing.
\<close>

fun set_insert :: "('a \<Rightarrow> nat) \<Rightarrow> 'a \<Rightarrow> 'a list \<Rightarrow> 'a list" where
  "set_insert k x [] = [x]"
| "set_insert k x (y # ys) =
     (if k x < k y then x # y # ys else if k x = k y then y # ys else y # set_insert k x ys)"

definition set_erase :: "('a \<Rightarrow> nat) \<Rightarrow> 'a \<Rightarrow> 'a list \<Rightarrow> 'a list" where
  "set_erase k x ys = filter (\<lambda>y. k y \<noteq> k x) ys"

abbreviation ascending :: "('a \<Rightarrow> nat) \<Rightarrow> 'a list \<Rightarrow> bool" where
  "ascending k xs \<equiv> sorted_wrt (\<lambda>x y. k x < k y) xs"

lemma set_insert_split:
  "k x \<notin> k ` set ys \<Longrightarrow> \<exists>as bs. ys = as @ bs \<and> set_insert k x ys = as @ x # bs"
proof (induction ys)
  case Nil
  then show ?case by simp
next
  case (Cons y ys)
  show ?case
  proof (cases "k x < k y")
    case True
    then have "y # ys = [] @ y # ys \<and> set_insert k x (y # ys) = [] @ x # y # ys"
      by simp
    then show ?thesis by blast
  next
    case False
    from Cons obtain as bs where "ys = as @ bs" "set_insert k x ys = as @ x # bs"
      by auto
    with False Cons.prems have "y # ys = (y # as) @ bs \<and> set_insert k x (y # ys) = (y # as) @ x # bs"
      by auto
    then show ?thesis by blast
  qed
qed

lemma set_set_insert: "k x \<notin> k ` set ys \<Longrightarrow> set (set_insert k x ys) = insert x (set ys)"
  by (induction ys) auto

lemma set_insert_subset: "set (set_insert k x ys) \<subseteq> insert x (set ys)"
  by (induction ys) auto

lemma ascending_set_insert: "ascending k ys \<Longrightarrow> ascending k (set_insert k x ys)"
proof (induction ys)
  case (Cons y ys)
  then show ?case
    using set_insert_subset [of k x ys] by fastforce
qed simp

lemma ascending_set_erase: "ascending k ys \<Longrightarrow> ascending k (set_erase k x ys)"
  by (simp add: set_erase_def sorted_wrt_filter)

lemma set_set_erase: "set (set_erase k x ys) = {y \<in> set ys. k y \<noteq> k x}"
  by (simp add: set_erase_def)

lemma ascending_distinct: "ascending k ys \<Longrightarrow> distinct (map k ys)"
  by (induction ys) (auto simp: less_imp_neq)

lemma distinct_map_transfer:
  assumes "distinct (map f xs)"
    and "\<And>x y. x \<in> set xs \<Longrightarrow> y \<in> set xs \<Longrightarrow> g x = g y \<Longrightarrow> f x = f y"
  shows "distinct (map g xs)"
proof -
  have "distinct xs" and "inj_on f (set xs)"
    using assms(1) by (simp_all add: distinct_map)
  moreover from this(2) have "inj_on g (set xs)"
    by (intro inj_onI) (blast dest: inj_onD intro: assms(2))
  ultimately show ?thesis
    by (simp add: distinct_map)
qed

lemma ascending_inj:
  "ascending k ys \<Longrightarrow> x \<in> set ys \<Longrightarrow> y \<in> set ys \<Longrightarrow> k x = k y \<Longrightarrow> x = y"
  by (induction ys) auto

lemma concat_map_if: "concat (map (\<lambda>x. if P x then [] else [f x]) xs) = map f (filter (\<lambda>x. \<not> P x) xs)"
  by (induction xs) simp_all

lemma length_set_insert_le: "length (set_insert k x ys) \<le> Suc (length ys)"
  by (induction ys) auto

lemma length_set_erase_le: "length (set_erase k x ys) \<le> length ys"
  by (simp add: set_erase_def)

end
