(* ===== verification/Return_Type.thy ===== *)
theory Return_Type
  imports Prelude
begin

text \<open>
  The result value that every fallible operation of the program returns (include/ReturnType.hpp):
  a flag and a message. It converts to bool by its flag and is built from an int (0 is
  success, anything else is failure with the number printed) or from a message (failure).
\<close>

record ReturnType =
  ok :: bool
  errorMessage :: string

definition ReturnType_int :: "int \<Rightarrow> ReturnType" where
  "ReturnType_int v =
     \<lparr>ok = (if v = 0 then True else False),
      errorMessage = (if v = 0 then '''' else int_to_string v)\<rparr>"

definition ReturnType_str :: "string \<Rightarrow> ReturnType" where
  "ReturnType_str e = \<lparr>ok = False, errorMessage = e\<rparr>"

text \<open>The conversion to int that C++ applies to a bool argument of the int constructor.\<close>

definition ReturnType_bool :: "bool \<Rightarrow> ReturnType" where
  "ReturnType_bool b = ReturnType_int (if b then 1 else 0)"

lemma ok_ReturnType_int [simp]: "ok (ReturnType_int v) \<longleftrightarrow> v = 0"
  by (simp add: ReturnType_int_def)

lemma ok_ReturnType_str [simp]: "\<not> ok (ReturnType_str e)"
  by (simp add: ReturnType_str_def)

lemma errorMessage_ReturnType_str [simp]: "errorMessage (ReturnType_str e) = e"
  by (simp add: ReturnType_str_def)

lemma ok_ReturnType_bool [simp]: "ok (ReturnType_bool b) \<longleftrightarrow> \<not> b"
  by (simp add: ReturnType_bool_def)

lemma ReturnType_neq [simp]:
  "ReturnType_int 0 \<noteq> ReturnType_str e" "ReturnType_str e \<noteq> ReturnType_int 0"
  by (simp_all add: ReturnType_int_def ReturnType_str_def)

lemma ReturnType_str_inject [simp]: "ReturnType_str a = ReturnType_str b \<longleftrightarrow> a = b"
  by (simp add: ReturnType_str_def)

end
