(* ===== verification/Net_Packet.thy ===== *)
theory Net_Packet
  imports Return_Type
begin

text \<open>
  The packet format (include/NetPacket.hpp) and the routine makePacket that turns a received
  datagram into a packet. The routine is written three times in the program: in the server
  (server/RawUdpServer.cpp), in the UDP client (client_essential/net_engine/RawUdpClient.cpp) and in the
  JNI bridge (client_android/.../Entry.cpp); the three are modelled apart and shown to implement one
  interface, the locale datagram_parser.

  A packet is its byte vector wholePacket. Two values a constructor reads are not computed by the
  code of the repository and are arguments: ver, the four bytes that memcpy reads from the
  git tag the build generates, as a little-endian word, and up, the reading of the process
  up-time clock in milliseconds.
\<close>

subsection \<open>The payload types\<close>

datatype PayloadType =
    Undefined
  | HeartBeatRequest
  | HeartBeatResponse
  | LoginRequest
  | LoginResponse
  | UserInfo
  | TextMessage
  | AudioMessage
  | AudioMessage_CN
  | LogoutRequest
  | LogoutResponse

instantiation PayloadType :: enum
begin

definition enum_PayloadType :: "PayloadType list" where
  "enum_PayloadType =
     [Undefined, HeartBeatRequest, HeartBeatResponse, LoginRequest, LoginResponse, UserInfo,
      TextMessage, AudioMessage, AudioMessage_CN, LogoutRequest, LogoutResponse]"

definition enum_all_PayloadType :: "(PayloadType \<Rightarrow> bool) \<Rightarrow> bool" where
  "enum_all_PayloadType P = list_all P enum_class.enum"

definition enum_ex_PayloadType :: "(PayloadType \<Rightarrow> bool) \<Rightarrow> bool" where
  "enum_ex_PayloadType P = list_ex P enum_class.enum"

instance
proof
  show univ: "(UNIV :: PayloadType set) = set enum_class.enum"
  proof (rule set_eqI)
    fix t :: PayloadType
    show "t \<in> UNIV \<longleftrightarrow> t \<in> set enum_class.enum"
      by (cases t) (simp_all add: enum_PayloadType_def)
  qed
  show "distinct (enum_class.enum :: PayloadType list)"
    by (simp add: enum_PayloadType_def)
  fix P :: "PayloadType \<Rightarrow> bool"
  show "enum_class.enum_all P \<longleftrightarrow> Ball UNIV P"
    by (simp add: enum_all_PayloadType_def univ list_all_iff)
  show "enum_class.enum_ex P \<longleftrightarrow> Bex UNIV P"
    by (simp add: enum_ex_PayloadType_def univ list_ex_iff)
qed

end

text \<open>
  The enumeration has the underlying type unsigned short: an enumerator is its number, and a
  received packet may carry a number that is no enumerator (the default branch of a switch).
\<close>

fun pt_code :: "PayloadType \<Rightarrow> u16" where
  "pt_code Undefined = 0"
| "pt_code HeartBeatRequest = 1"
| "pt_code HeartBeatResponse = 2"
| "pt_code LoginRequest = 3"
| "pt_code LoginResponse = 4"
| "pt_code UserInfo = 5"
| "pt_code TextMessage = 6"
| "pt_code AudioMessage = 7"
| "pt_code AudioMessage_CN = 8"
| "pt_code LogoutRequest = 9"
| "pt_code LogoutResponse = 10"

definition pt_of_code :: "u16 \<Rightarrow> PayloadType option" where
  "pt_of_code c = find (\<lambda>t. pt_code t = c) enum_class.enum"

lemma pt_code_inject [simp]: "pt_code s = pt_code t \<longleftrightarrow> s = t"
  by (cases s; cases t) simp_all

lemma pt_of_code_pt_code [simp]: "pt_of_code (pt_code t) = Some t"
  by (cases t) (simp_all add: pt_of_code_def enum_PayloadType_def)

lemma pt_of_code_Some: "pt_of_code c = Some t \<longleftrightarrow> pt_code t = c"
  by (auto simp: pt_of_code_def find_Some_iff dest: nth_mem)
    (metis pt_of_code_def pt_of_code_pt_code find_Some_iff)

definition getDescription :: "u16 \<Rightarrow> string" where
  "getDescription c =
     (case pt_of_code c of
        Some HeartBeatRequest \<Rightarrow> ''HeartBeatRequest''
      | Some HeartBeatResponse \<Rightarrow> ''HeartBeatResponse''
      | Some LoginRequest \<Rightarrow> ''LoginRequest''
      | Some LoginResponse \<Rightarrow> ''LoginResponse''
      | Some UserInfo \<Rightarrow> ''UserInfo''
      | Some TextMessage \<Rightarrow> ''TextMessage''
      | Some AudioMessage \<Rightarrow> ''AudioMessage''
      | Some AudioMessage_CN \<Rightarrow> ''AudioMessage_Comfortable_Noise''
      | Some LogoutRequest \<Rightarrow> ''LogoutRequest''
      | Some LogoutResponse \<Rightarrow> ''LogoutResponse''
      | _ \<Rightarrow> ''Undefined'')"

subsection \<open>The packet and its constructors\<close>

record NetPacket =
  wholePacket :: "byte list"

definition FixHeaderLength :: nat where
  "FixHeaderLength = 4 + 4 + 4 + 2 + 4 + 2"

definition headMarker :: "byte list" where
  "headMarker = [0x65, 0x76, 0x63, 0x20]"

datatype packet_error = PayloadSizeTooLarge

definition NetPacket_init :: "u32 \<Rightarrow> u16 \<Rightarrow> u16 \<Rightarrow> u32 \<Rightarrow> u32 \<Rightarrow> NetPacket" where
  "NetPacket_init ver payloadType payloadSize upTime serialNumber =
     (let w = resize (FixHeaderLength + unat payloadSize) [];
          w = write_at 0 headMarker w;
          w = write_at (4 * 1) (le32 ver) w;
          w = write_at (4 * 2) (le32 upTime) w;
          w = write_at (4 * 3) (le16 payloadType) w;
          w = write_at (4 * 3 + 2) (le32 serialNumber) w;
          w = write_at (4 * 3 + 2 + 4) (le16 payloadSize) w
      in \<lparr>wholePacket = w\<rparr>)"


definition NetPacket_new :: "u32 \<Rightarrow> u32 \<Rightarrow> u16 \<Rightarrow> u32 \<Rightarrow> NetPacket" where
  "NetPacket_new ver up payloadType serialNumber =
     NetPacket_init ver payloadType 0 up serialNumber"

text \<open>The two constructors with a payload differ in the element type of the vector only.\<close>

definition NetPacket_of_int8 ::
    "u32 \<Rightarrow> u32 \<Rightarrow> u16 \<Rightarrow> u32 \<Rightarrow> byte list \<Rightarrow> packet_error + NetPacket" where
  "NetPacket_of_int8 ver up payloadType serialNumber payload =
     (let payloadSize = length payload in
      if payloadSize > unat (- 1 :: u16) then Inl PayloadSizeTooLarge
      else
        let p = NetPacket_init ver payloadType (of_nat payloadSize) up serialNumber in
        Inr (p\<lparr>wholePacket := write_at FixHeaderLength
          (take (unat (of_nat payloadSize :: u16)) payload) (wholePacket p)\<rparr>))"

definition NetPacket_of_chars ::
    "u32 \<Rightarrow> u32 \<Rightarrow> u16 \<Rightarrow> u32 \<Rightarrow> byte list \<Rightarrow> packet_error + NetPacket" where
  "NetPacket_of_chars ver up payloadType serialNumber payload =
     (let payloadSize = length payload in
      if payloadSize > unat (- 1 :: u16) then Inl PayloadSizeTooLarge
      else
        let p = NetPacket_init ver payloadType (of_nat payloadSize) up serialNumber in
        Inr (p\<lparr>wholePacket := write_at FixHeaderLength
          (take (unat (of_nat payloadSize :: u16)) payload) (wholePacket p)\<rparr>))"

subsection \<open>Accessors\<close>

definition checkHeader :: "NetPacket \<Rightarrow> bool \<times> NetPacket" where
  "checkHeader p =
     (let payloadSize = rd16 (wholePacket p) (4 * 3 + 2 + 4)
      in (True, p\<lparr>wholePacket := resize (FixHeaderLength + unat payloadSize) (wholePacket p)\<rparr>))"

definition payloadType :: "NetPacket \<Rightarrow> u16" where
  "payloadType p = rd16 (wholePacket p) (4 * 3)"

definition serialNumber :: "NetPacket \<Rightarrow> u32" where
  "serialNumber p = rd32 (wholePacket p) (4 * 3 + 2)"

definition timestamp :: "NetPacket \<Rightarrow> u32" where
  "timestamp p = rd32 (wholePacket p) (4 * 2)"

definition header :: "NetPacket \<Rightarrow> byte list" where
  "header p = wholePacket p"

definition wholePackLength :: "NetPacket \<Rightarrow> nat" where
  "wholePackLength p = length (wholePacket p)"

definition payload :: "NetPacket \<Rightarrow> byte list" where
  "payload p = drop FixHeaderLength (wholePacket p)"

definition payloadLength :: "NetPacket \<Rightarrow> nat" where
  "payloadLength p = length (wholePacket p) - FixHeaderLength"

definition isMediaType :: "NetPacket \<Rightarrow> bool" where
  "isMediaType p \<longleftrightarrow>
     payloadType p = pt_code AudioMessage_CN \<or>
     payloadType p = pt_code AudioMessage \<or>
     payloadType p = pt_code TextMessage"

lemma isMediaType_iff:
  "isMediaType p \<longleftrightarrow>
     pt_of_code (payloadType p) = Some AudioMessage_CN \<or>
     pt_of_code (payloadType p) = Some AudioMessage \<or>
     pt_of_code (payloadType p) = Some TextMessage"
  by (auto simp: isMediaType_def pt_of_code_Some simp del: pt_code.simps)

text \<open>
  The time stamp is printed as a double of seconds with six decimals; a count of milliseconds
  below 2^32 has three exact decimals, so the text is the quotient, the three digits and 000.
\<close>

definition seconds_string :: "u32 \<Rightarrow> string" where
  "seconds_string t =
     (let ms = nat_to_string (unat t mod 1000)
      in nat_to_string (unat t div 1000) @ ''.'' @ replicate (3 - length ms) (CHR ''0'') @ ms @ ''000'')"

definition NetPacket_info :: "NetPacket \<Rightarrow> string" where
  "NetPacket_info p =
     ''[version='' @ map (\<lambda>i. char_of (unat (wholePacket p ! (4 + i)))) [0, 1, 2, 3] @ ''] '' @
     ''[type='' @ getDescription (payloadType p) @ ''] '' @
     ''[serialNumber='' @ nat_to_string (unat (serialNumber p)) @ ''] '' @
     ''[wholePackLength(byte)='' @ nat_to_string (wholePackLength p) @ ''] '' @
     ''[timestamp(s)='' @ seconds_string (timestamp p) @ ''] ''"

subsection \<open>What the constructors build\<close>

lemma FixHeaderLength_20: "FixHeaderLength = 20"
  by (simp add: FixHeaderLength_def)

lemma length_headMarker [simp]: "length headMarker = 4"
  by (simp add: headMarker_def)

text \<open>The layout of the class comment, field after field.\<close>

definition layout :: "u32 \<Rightarrow> u16 \<Rightarrow> u16 \<Rightarrow> u32 \<Rightarrow> u32 \<Rightarrow> byte list \<Rightarrow> byte list" where
  "layout ver t sz up sn pl =
     headMarker @ le32 ver @ le32 up @ le16 t @ le32 sn @ le16 sz @ pl"

lemma write_next:
  "i = length xs \<Longrightarrow> m = length b + k \<Longrightarrow>
   write_at i b (xs @ replicate m 0) = (xs @ b) @ replicate k 0"
  by (simp add: write_at_def replicate_add)

lemma NetPacket_init_layout:
  "wholePacket (NetPacket_init ver t sz up sn) = layout ver t sz up sn (replicate (unat sz) 0)"
proof -
  have "write_at 0 headMarker (replicate (20 + unat sz) 0) = headMarker @ replicate (16 + unat sz) 0"
    using write_next [of 0 "[]" "20 + unat sz" headMarker "16 + unat sz"] by simp
  then show ?thesis
    by (simp add: NetPacket_init_def layout_def FixHeaderLength_20 resize_def Let_def
        write_next [where k = "12 + unat sz"] write_next [where k = "8 + unat sz"] write_next [where k = "6 + unat sz"]
        write_next [where k = "2 + unat sz"] write_at_append [where off = 18] del: append_assoc)
qed

lemma NetPacket_new_layout:
  "wholePacket (NetPacket_new ver up t sn) = layout ver t 0 up sn []"
  by (simp add: NetPacket_new_def NetPacket_init_layout)

lemma layout_header:
  "layout ver t sz up sn pl = layout ver t sz up sn [] @ pl"
  by (simp add: layout_def)

lemma length_layout [simp]: "length (layout ver t sz up sn pl) = 20 + length pl"
  by (simp add: layout_def)

lemma drop_layout [simp]: "drop 20 (layout ver t sz up sn pl) = pl"
  by (simp add: layout_def)

lemma rd16_take_header: "rd16 (take 20 bs) 18 = rd16 bs 18"
  by (rule rd16_take) simp

lemma layout_reads:
  "rd16 (layout ver t sz up sn pl) 12 = t"
  "rd32 (layout ver t sz up sn pl) 14 = sn"
  "rd32 (layout ver t sz up sn pl) 8 = up"
  "rd16 (layout ver t sz up sn pl) 18 = sz"
  unfolding layout_def
  using rd16_le16 [of "headMarker @ le32 ver @ le32 up" 12 t "le32 sn @ le16 sz @ pl"]
    rd32_le32 [of "headMarker @ le32 ver @ le32 up @ le16 t" 14 sn "le16 sz @ pl"]
    rd32_le32 [of "headMarker @ le32 ver" 8 up "le16 t @ le32 sn @ le16 sz @ pl"]
    rd16_le16 [of "headMarker @ le32 ver @ le32 up @ le16 t @ le32 sn" 18 sz pl]
  by simp_all

text \<open>The bytes of a packet with payload, for a payload that fits its 16-bit length field.\<close>

abbreviation packet_bytes :: "u32 \<Rightarrow> u32 \<Rightarrow> u16 \<Rightarrow> u32 \<Rightarrow> byte list \<Rightarrow> byte list" where
  "packet_bytes ver up t sn pl \<equiv> layout ver t (of_nat (length pl)) up sn pl"

lemma unat_of_nat_u16: "n \<le> 65535 \<Longrightarrow> unat (of_nat n :: u16) = n"
  by (simp add: unat_of_nat)

lemma unat_minus_one_u16 [simp]: "unat (- 1 :: u16) = 65535"
  by (simp add: unsigned_minus_1_eq_mask mask_eq_exp_minus_1)

lemma NetPacket_of_chars_eq:
  "NetPacket_of_chars ver up t sn pl =
     (if 65535 < length pl then Inl PayloadSizeTooLarge
      else Inr \<lparr>wholePacket = packet_bytes ver up t sn pl\<rparr>)"
  by (simp add: NetPacket_of_chars_def NetPacket_init_layout unat_of_nat_u16 Let_def
      layout_header [of _ _ _ _ _ "replicate _ _"] layout_header [of _ _ _ _ _ pl]
      write_at_append FixHeaderLength_20)

lemma NetPacket_of_int8_eq: "NetPacket_of_int8 = NetPacket_of_chars"
  by (simp add: fun_eq_iff NetPacket_of_int8_def NetPacket_of_chars_def)

lemma accessors_layout [packet_simps]:
  "payloadType \<lparr>wholePacket = layout ver t sz up sn pl\<rparr> = t"
  "serialNumber \<lparr>wholePacket = layout ver t sz up sn pl\<rparr> = sn"
  "timestamp \<lparr>wholePacket = layout ver t sz up sn pl\<rparr> = up"
  "payload \<lparr>wholePacket = layout ver t sz up sn pl\<rparr> = pl"
  "payloadLength \<lparr>wholePacket = layout ver t sz up sn pl\<rparr> = length pl"
  "wholePackLength \<lparr>wholePacket = layout ver t sz up sn pl\<rparr> = 20 + length pl"
  by (simp_all add: payloadType_def serialNumber_def timestamp_def payload_def payloadLength_def
      wholePackLength_def layout_reads FixHeaderLength_20)

lemma NetPacket_new_eq: "NetPacket_new ver up t sn = \<lparr>wholePacket = layout ver t 0 up sn []\<rparr>"
  by (simp add: NetPacket_new_layout [symmetric])

lemma NetPacket_new_update [simp]: "NetPacket_new ver up t sn\<lparr>wholePacket := w\<rparr> = \<lparr>wholePacket = w\<rparr>"
  by (simp add: NetPacket_new_eq)

lemma NetPacket_new_accessors [packet_simps]:
  "payloadType (NetPacket_new ver up t sn) = t"
  "serialNumber (NetPacket_new ver up t sn) = sn"
  "timestamp (NetPacket_new ver up t sn) = up"
  "payload (NetPacket_new ver up t sn) = []"
  by (simp_all add: NetPacket_new_eq packet_simps)

text \<open>A packet is well formed when its vector is as long as its own header says.\<close>

definition packet_wf :: "NetPacket \<Rightarrow> bool" where
  "packet_wf p \<longleftrightarrow>
     20 \<le> length (wholePacket p) \<and>
     length (wholePacket p) = 20 + unat (rd16 (wholePacket p) 18)"

lemma packet_wf_new [simp]: "packet_wf (NetPacket_new ver up t sn)"
  by (simp add: packet_wf_def NetPacket_new_eq layout_reads)

lemma packet_wf_of_chars: "NetPacket_of_chars ver up t sn pl = Inr p \<Longrightarrow> packet_wf p"
  by (auto simp: packet_wf_def NetPacket_of_chars_eq layout_reads unat_of_nat_u16 split: if_splits)

lemma checkHeader_wf: "packet_wf p \<Longrightarrow> checkHeader p = (True, p)"
  by (simp add: packet_wf_def checkHeader_def FixHeaderLength_20 resize_def)

lemma checkHeader_header:
  assumes "20 \<le> length (wholePacket p)"
  shows "packet_wf (snd (checkHeader p))"
    and "take 20 (wholePacket (snd (checkHeader p))) = take 20 (wholePacket p)"
    and "length (wholePacket (snd (checkHeader p))) = 20 + unat (rd16 (wholePacket p) 18)"
proof -
  show t: "take 20 (wholePacket (snd (checkHeader p))) = take 20 (wholePacket p)"
    using assms by (simp add: checkHeader_def FixHeaderLength_20 take_resize)
  show l: "length (wholePacket (snd (checkHeader p))) = 20 + unat (rd16 (wholePacket p) 18)"
    by (simp add: checkHeader_def FixHeaderLength_20)
  have "rd16 (wholePacket (snd (checkHeader p))) 18 = rd16 (wholePacket p) 18"
    using t by (metis rd16_take_header)
  then show "packet_wf (snd (checkHeader p))"
    using l by (simp add: packet_wf_def)
qed


subsection \<open>The interface of a datagram parser\<close>

text \<open>
  The server, the UDP client and the JNI bridge each turn a receive buffer and the number of
  bytes the receive call reported into a packet, or into a null pointer. What they rely on is:
  a count below the header length or below the length the header announces gives null,
  everything else gives the packet made of the announced bytes. No field of the header but the
  length decides anything.
\<close>

definition announced :: "byte list \<Rightarrow> nat" where
  "announced bs = 20 + unat (rd16 bs 18)"

lemma announced_take: "20 \<le> n \<Longrightarrow> announced (take n bs) = announced bs"
  by (simp add: announced_def rd16_take)

lemma announced_layout [simp]: "announced (layout ver t sz up sn pl @ junk) = 20 + unat sz"
  by (simp add: announced_def rd16_append layout_reads)

lemma announced_wf: "packet_wf p \<longleftrightarrow> length (wholePacket p) = announced (wholePacket p)"
  by (auto simp: packet_wf_def announced_def)

text \<open>The two copies that every makePacket does, into a fresh packet and into its grown payload.\<close>

lemma header_memcpy:
  "20 \<le> length data \<Longrightarrow>
     write_at 0 (take 20 data) (wholePacket (NetPacket_new ver up t sn)) = take 20 data"
  by (simp add: write_at_0 NetPacket_new_layout)

lemma checkHeader_True: "checkHeader p = (True, snd (checkHeader p))"
  by (simp add: checkHeader_def)

lemma payload_memcpy:
  assumes "20 \<le> length data"
  defines "q \<equiv> snd (checkHeader \<lparr>wholePacket = take 20 data\<rparr>)"
  shows "20 + payloadLength q = announced data"
    and "announced data \<le> length data \<Longrightarrow>
      write_at 20 (take (payloadLength q) (drop 20 data)) (wholePacket q) = take (announced data) data"
proof -
  have q: "wholePacket q = take 20 data @ replicate (unat (rd16 data 18)) 0"
    using assms(1) by (simp add: q_def checkHeader_def FixHeaderLength_20 resize_def rd16_take
        min_def Let_def)
  then show pl: "20 + payloadLength q = announced data"
    using assms(1) by (simp add: payloadLength_def FixHeaderLength_20 announced_def)
  then have "payloadLength q = unat (rd16 data 18)"
    by (simp add: announced_def)
  then show "announced data \<le> length data \<Longrightarrow>
      write_at 20 (take (payloadLength q) (drop 20 data)) (wholePacket q) = take (announced data) data"
    using assms(1) by (auto simp: q write_at_append announced_def take_add min_def)
qed

locale datagram_parser =
  fixes parse :: "byte list \<Rightarrow> nat \<Rightarrow> NetPacket option"
  assumes too_short: "n < 20 \<Longrightarrow> parse data n = None"
    and truncated: "n < announced data \<Longrightarrow> n \<le> length data \<Longrightarrow> parse data n = None"
    and complete: "announced data \<le> n \<Longrightarrow> n \<le> length data \<Longrightarrow>
      parse data n = Some \<lparr>wholePacket = take (announced data) data\<rparr>"
begin

lemma announced_ge: "20 \<le> announced bs"
  by (simp add: announced_def)

lemma parse_eq:
  assumes "n \<le> length data"
  shows "parse data n =
    (if n < announced data then None else Some \<lparr>wholePacket = take (announced data) data\<rparr>)"
  using assms truncated complete by simp

lemma parse_Some_iff:
  assumes "n \<le> length data"
  shows "parse data n = Some p \<longleftrightarrow>
    20 \<le> n \<and> announced data \<le> n \<and> wholePacket p = take (announced data) data"
proof -
  have "20 \<le> announced data"
    by (rule announced_ge)
  then show ?thesis
    unfolding parse_eq [OF assms] by (cases p) auto
qed

lemma parse_wf:
  assumes "n \<le> length data" and "parse data n = Some p"
  shows "packet_wf p"
proof -
  from assms have "wholePacket p = take (announced data) data" "announced data \<le> length data"
    by (auto simp: parse_Some_iff)
  then show ?thesis
    using announced_ge [of data] by (simp add: announced_wf announced_take)
qed

lemma parse_local:
  assumes "n \<le> length data" and "n \<le> length data'" and "take n data = take n data'"
  shows "parse data n = parse data' n"
proof (cases "n < 20")
  case True
  then show ?thesis
    by (simp add: too_short)
next
  case False
  then have "announced data = announced data'"
    using assms(3) announced_take [of n data] announced_take [of n data'] by simp
  moreover have "take m data = take m data'" if "m \<le> n" for m
    using assms(3) that by (metis min.absorb1 take_take)
  ultimately show ?thesis
    by (simp add: parse_eq assms(1,2))
qed

lemma parse_bytes:
  assumes "length pl \<le> 65535"
  shows "parse (packet_bytes ver up t sn pl @ junk) (length (packet_bytes ver up t sn pl @ junk)) =
    Some \<lparr>wholePacket = packet_bytes ver up t sn pl\<rparr>"
  using assms by (simp add: parse_eq unat_of_nat_u16)

lemma parse_wf_packet:
  assumes "packet_wf p"
  shows "parse (wholePacket p) (length (wholePacket p)) = Some p"
  using assms by (simp add: parse_eq announced_wf)

end

end
