(* ===== verification/Relay.thy ===== *)
theory Relay
  imports Net_Packet
begin

text \<open>
  The interface of a relay room. The UDP room (server/RawUdpServer.cpp) and the TCP room
  (server/Room.hpp) each hold a set of connected clients and dispatch every message a client
  sends on its payload type. The locale relay_room states the law of that dispatch, branch by branch,
  and proves once what a client of either server may rely on: who receives a message, that
  nobody receives it twice, and that the set of members only changes by a logout.

  A room is the list of its members in iteration order with the counter of user messages; a
  dispatch returns the room and the sequence of (receiver, packet) calls it makes.
\<close>

type_synonym 'm calls = "('m \<times> NetPacket) list"

locale relay_room =
  fixes key :: "'m \<Rightarrow> nat"
    and dispatch ::
      "u32 \<Rightarrow> u32 \<Rightarrow> bool \<Rightarrow> NetPacket \<Rightarrow> 'm \<Rightarrow> 'm list \<times> u32 \<Rightarrow> ('m list \<times> u32) \<times> 'm calls"
  assumes heartbeat: "pt_of_code (payloadType msg) = Some HeartBeatRequest \<Longrightarrow>
      dispatch ver up echo msg sender (ms, c) =
        ((ms, c), [(sender, NetPacket_new ver up (pt_code HeartBeatResponse) 0)])"
    and login: "pt_of_code (payloadType msg) = Some LoginRequest \<Longrightarrow>
      dispatch ver up echo msg sender (ms, c) =
        ((ms, c), [(sender, NetPacket_new ver up (pt_code LoginResponse) 0)])"
    and logout: "pt_of_code (payloadType msg) = Some LogoutRequest \<Longrightarrow>
      dispatch ver up echo msg sender (ms, c) = ((set_erase key sender ms, c), [])"
    and media_echo: "isMediaType msg \<Longrightarrow>
      dispatch ver up True msg sender (ms, c) = ((ms, c + 1), [(sender, msg)])"
    and media_broadcast: "isMediaType msg \<Longrightarrow>
      dispatch ver up False msg sender (ms, c) =
        ((ms, c + 1), map (\<lambda>m. (m, msg)) (filter (\<lambda>m. key m \<noteq> key sender) ms))"
    and other: "pt_of_code (payloadType msg) \<notin>
        Some ` {HeartBeatRequest, LoginRequest, LogoutRequest, TextMessage, AudioMessage, AudioMessage_CN} \<Longrightarrow>
      dispatch ver up echo msg sender (ms, c) = ((ms, c), [])"
begin

lemma branches:
  obtains (heartbeat) "pt_of_code (payloadType msg) = Some HeartBeatRequest"
  | (login) "pt_of_code (payloadType msg) = Some LoginRequest"
  | (logout) "pt_of_code (payloadType msg) = Some LogoutRequest"
  | (media) "isMediaType msg"
  | (other) "pt_of_code (payloadType msg) \<notin>
      Some ` {HeartBeatRequest, LoginRequest, LogoutRequest, TextMessage, AudioMessage, AudioMessage_CN}"
  by (auto simp: isMediaType_iff)

lemma members_shrink:
  assumes "dispatch ver up echo msg sender (ms, c) = ((ms', c'), out)"
  shows "ms' = ms \<or> ms' = set_erase key sender ms"
proof (cases msg rule: branches)
  case media
  then show ?thesis
    using assms by (cases echo) (simp_all add: media_echo media_broadcast)
qed (use assms in \<open>simp_all add: heartbeat login logout other\<close>)

lemma members_ascending:
  assumes "dispatch ver up echo msg sender (ms, c) = ((ms', c'), out)" and "ascending key ms"
  shows "ascending key ms'"
  using members_shrink [OF assms(1)] assms(2) ascending_set_erase [of key ms] by auto

lemma members_subset:
  assumes "dispatch ver up echo msg sender (ms, c) = ((ms', c'), out)"
  shows "set ms' \<subseteq> set ms"
  using members_shrink [OF assms] by (auto simp: set_set_erase)

lemma receivers:
  assumes "dispatch ver up echo msg sender (ms, c) = ((ms', c'), out)"
  shows "fst ` set out \<subseteq> insert sender (set ms)"
proof (cases msg rule: branches)
  case media
  then show ?thesis
    using assms by (cases echo) (auto simp: media_echo media_broadcast)
qed (use assms in \<open>auto simp: heartbeat login logout other\<close>)

lemma at_most_one_copy:
  assumes "dispatch ver up echo msg sender (ms, c) = ((ms', c'), out)" and "ascending key ms"
  shows "distinct (map (key \<circ> fst) out)"
proof (cases msg rule: branches)
  case media
  have "distinct (map key (filter (\<lambda>m. key m \<noteq> key sender) ms))"
    using ascending_distinct [OF assms(2)] by (simp add: distinct_map_filter)
  with media show ?thesis
    using assms(1) by (cases echo) (auto simp: media_echo media_broadcast comp_def)
qed (use assms in \<open>auto simp: heartbeat login logout other\<close>)

lemma relayed_unchanged:
  assumes "dispatch ver up echo msg sender (ms, c) = ((ms', c'), out)"
    and "(m, p) \<in> set out" and "key m \<noteq> key sender"
  shows "p = msg \<and> m \<in> set ms \<and> isMediaType msg \<and> \<not> echo"
proof (cases msg rule: branches)
  case media
  then show ?thesis
    using assms by (cases echo) (auto simp: media_echo media_broadcast)
qed (use assms in \<open>auto simp: heartbeat login logout other\<close>)

lemma nothing_back_to_sender:
  assumes "isMediaType msg" and "dispatch ver up False msg sender (ms, c) = ((ms', c'), out)"
  shows "key sender \<notin> key ` fst ` set out"
  using assms by (auto simp: media_broadcast)

lemma logout_removes:
  assumes "pt_of_code (payloadType msg) = Some LogoutRequest"
    and "dispatch ver up echo msg sender (ms, c) = ((ms', c'), out)"
  shows "key sender \<notin> key ` set ms'"
  using assms by (auto simp: logout set_set_erase)

end

end
