(* ===== verification/Raw_Udp_Server.thy ===== *)
theory Raw_Udp_Server
  imports Relay
begin

text \<open>
  The UDP server (server/RawUdpServer.hpp, server/RawUdpServer.cpp): the connections, the room, the
  dispatch of a client message and the receive loop.

  A connection object is named by its address, which orders the std::set of shared pointers and
  decides pointer equality; the endpoint type of the socket library is a type variable, compared
  for equality only. An address for a new connection comes from the allocator and is part of the
  event. A call of send hands an endpoint and bytes to the socket; the model returns the
  list of these pairs in the order of the calls. The member isGoingOn_ is never read and is left
  out.
\<close>

record 'ep RawUdpConnection =
  caddr :: nat
  remote_endpoint :: 'ep

type_synonym 'ep RawUdpRoom = "'ep RawUdpConnection list"

record 'ep RawUdpServer =
  peers :: "'ep RawUdpRoom"
  counterUserMessage :: u32
  sender_endpoint :: "'ep option"
  data_buf :: "byte list"
  isEchoMode :: bool

definition max_length :: nat where
  "max_length = 2 ^ 10"

subsection \<open>Receiving a packet\<close>

definition RawUdpConnection_makePacket ::
    "u32 \<Rightarrow> u32 \<Rightarrow> byte list \<Rightarrow> nat \<Rightarrow> NetPacket option" where
  "RawUdpConnection_makePacket ver up data bytes_recvd =
     (if bytes_recvd < FixHeaderLength then None
      else
        let ret = NetPacket_new ver up (pt_code Undefined) 0;
            ret = ret\<lparr>wholePacket := write_at 0 (take FixHeaderLength data) (wholePacket ret)\<rparr>;
            (ok_header, ret) = checkHeader ret
        in if \<not> ok_header then None
           else if bytes_recvd < FixHeaderLength + payloadLength ret then None
           else Some (ret\<lparr>wholePacket := write_at FixHeaderLength
             (take (payloadLength ret) (drop FixHeaderLength data)) (wholePacket ret)\<rparr>))"

lemma RawUdpConnection_makePacket_eq:
  assumes "20 \<le> n" and "n \<le> length data"
  shows "RawUdpConnection_makePacket ver up data n =
    (if n < announced data then None else Some \<lparr>wholePacket = take (announced data) data\<rparr>)"
proof -
  have len: "20 \<le> length data"
    using assms by simp
  have h: "checkHeader \<lparr>wholePacket = take 20 data\<rparr> =
      (True, snd (checkHeader \<lparr>wholePacket = take 20 data\<rparr>))"
    by (rule checkHeader_True)
  show ?thesis
    unfolding RawUdpConnection_makePacket_def Let_def NetPacket_new_update FixHeaderLength_20
      header_memcpy [OF len]
    by (subst h) (use assms in \<open>simp add: payload_memcpy [OF len]\<close>)
qed

interpretation server_parser: datagram_parser "RawUdpConnection_makePacket ver up" for ver up
proof unfold_locales
  fix n data
  show short: "n < 20 \<Longrightarrow> RawUdpConnection_makePacket ver up data n = None" for n
    by (simp add: RawUdpConnection_makePacket_def FixHeaderLength_20)
  show "n < announced data \<Longrightarrow> n \<le> length data \<Longrightarrow> RawUdpConnection_makePacket ver up data n = None"
    by (cases "n < 20") (simp_all add: short RawUdpConnection_makePacket_eq)
  show "announced data \<le> n \<Longrightarrow> n \<le> length data \<Longrightarrow> RawUdpConnection_makePacket ver up data n =
      Some \<lparr>wholePacket = take (announced data) data\<rparr>"
    by (subst RawUdpConnection_makePacket_eq) (simp_all add: announced_def)
qed


subsection \<open>Sending\<close>

type_synonym 'ep sends = "('ep \<times> byte list) list"

definition RawUdpConnection_sendUdp ::
    "'ep RawUdpConnection \<Rightarrow> byte list \<Rightarrow> nat \<Rightarrow> 'ep sends" where
  "RawUdpConnection_sendUdp c buf len = [(remote_endpoint c, take len buf)]"

definition RawUdpConnection_send :: "'ep RawUdpConnection \<Rightarrow> NetPacket \<Rightarrow> 'ep sends" where
  "RawUdpConnection_send c msg = RawUdpConnection_sendUdp c (header msg) (wholePackLength msg)"

lemma RawUdpConnection_send_eq [simp]:
  "RawUdpConnection_send c msg = [(remote_endpoint c, wholePacket msg)]"
  by (simp add: RawUdpConnection_send_def RawUdpConnection_sendUdp_def header_def wholePackLength_def)

lemma concat_sends:
  "concat (map (\<lambda>(c, msg). RawUdpConnection_send c msg) out) =
     map (\<lambda>(c, msg). (remote_endpoint c, wholePacket msg)) out"
  by (induction out) auto

subsection \<open>The room and the dispatch of a message\<close>

definition RawUdpRoom_kickMeOut ::
    "'ep RawUdpConnection \<Rightarrow> 'ep RawUdpRoom \<Rightarrow> 'ep RawUdpRoom" where
  "RawUdpRoom_kickMeOut me room = set_erase caddr me room"

definition RawUdpRoom_findPeer :: "'ep \<Rightarrow> 'ep RawUdpRoom \<Rightarrow> 'ep RawUdpConnection option" where
  "RawUdpRoom_findPeer endpoint room = find (\<lambda>peer. remote_endpoint peer = endpoint) room"

text \<open>
  The dispatch returns the calls of send it makes, receiver and packet, in order; the static
  counter of user messages is part of the state.
\<close>

definition processClientMessagePayload ::
    "u32 \<Rightarrow> u32 \<Rightarrow> bool \<Rightarrow> NetPacket \<Rightarrow> 'ep RawUdpConnection \<Rightarrow> 'ep RawUdpRoom \<times> u32 \<Rightarrow>
     ('ep RawUdpRoom \<times> u32) \<times> 'ep RawUdpConnection calls" where
  "processClientMessagePayload ver up echo msg sender st =
     (case st of (room, counter) \<Rightarrow>
       let media =
         ((room, counter + 1),
          if echo then [(sender, msg)]
          else concat (map (\<lambda>participant.
                 if caddr participant = caddr sender then [] else [(participant, msg)]) room))
       in case pt_of_code (payloadType msg) of
         Some HeartBeatRequest \<Rightarrow>
           ((room, counter), [(sender, NetPacket_new ver up (pt_code HeartBeatResponse) 0)])
       | Some TextMessage \<Rightarrow> media
       | Some AudioMessage \<Rightarrow> media
       | Some AudioMessage_CN \<Rightarrow> media
       | Some LoginRequest \<Rightarrow>
           ((room, counter), [(sender, NetPacket_new ver up (pt_code LoginResponse) 0)])
       | Some LogoutRequest \<Rightarrow> ((RawUdpRoom_kickMeOut sender room, counter), [])
       | _ \<Rightarrow> ((room, counter), []))"

interpretation udp_room: relay_room caddr processClientMessagePayload
proof unfold_locales
  fix msg :: NetPacket and ver up :: u32 and c :: u32 and echo and sender :: "'ep RawUdpConnection" and ms
  show "pt_of_code (payloadType msg) \<notin>
        Some ` {HeartBeatRequest, LoginRequest, LogoutRequest, TextMessage, AudioMessage, AudioMessage_CN} \<Longrightarrow>
      processClientMessagePayload ver up echo msg sender (ms, c) = ((ms, c), [])"
    by (cases "pt_of_code (payloadType msg)"; cases "the (pt_of_code (payloadType msg))")
      (simp_all add: processClientMessagePayload_def)
qed (auto simp: processClientMessagePayload_def RawUdpRoom_kickMeOut_def isMediaType_iff concat_map_if)

subsection \<open>The receive loop\<close>

definition RawUdpConnection_onReceived ::
    "u32 \<Rightarrow> u32 \<Rightarrow> bool \<Rightarrow> 'ep RawUdpConnection \<Rightarrow> byte list \<Rightarrow> nat \<Rightarrow> 'ep RawUdpRoom \<times> u32 \<Rightarrow>
     ('ep RawUdpRoom \<times> u32) \<times> 'ep sends" where
  "RawUdpConnection_onReceived ver up echo self data bytes_recvd st =
     (case RawUdpConnection_makePacket ver up data bytes_recvd of
        None \<Rightarrow> (st, [])
      | Some newPacket \<Rightarrow>
          let (st', out) = processClientMessagePayload ver up echo newPacket self st
          in (st', concat (map (\<lambda>(c, msg). RawUdpConnection_send c msg) out)))"

definition RawUdpRoom_insert ::
    "u32 \<Rightarrow> u32 \<Rightarrow> bool \<Rightarrow> nat \<Rightarrow> 'ep \<Rightarrow> byte list \<Rightarrow> nat \<Rightarrow> 'ep RawUdpRoom \<times> u32 \<Rightarrow>
     ('ep RawUdpRoom \<times> u32) \<times> 'ep sends" where
  "RawUdpRoom_insert ver up echo addr endpoint data bytes_recvd st =
     (case RawUdpRoom_findPeer endpoint (fst st) of
        Some peer \<Rightarrow> RawUdpConnection_onReceived ver up echo peer data bytes_recvd st
      | None \<Rightarrow>
          let peer = \<lparr>caddr = addr, remote_endpoint = endpoint\<rparr>
          in RawUdpConnection_onReceived ver up echo peer data bytes_recvd
               (set_insert caddr peer (fst st), snd st))"

text \<open>
  One completion of the asynchronous receive: its error code, the sender, the datagram, the
  address the allocator would return for a new connection and the clock reading. The call puts
  at most max_length bytes of the datagram into the buffer and reports how many it put there.
\<close>

record 'ep recv_event =
  ev_ec :: bool
  ev_from :: 'ep
  ev_bytes :: "byte list"
  ev_addr :: nat
  ev_up :: u32

definition RawUdpServer_doReceive ::
    "u32 \<Rightarrow> 'ep recv_event \<Rightarrow> 'ep RawUdpServer \<Rightarrow> 'ep RawUdpServer \<times> 'ep sends" where
  "RawUdpServer_doReceive ver e s =
     (let received = take max_length (ev_bytes e);
          bytes_recvd = length received;
          s = s\<lparr>data_buf := write_at 0 received (data_buf s), sender_endpoint := Some (ev_from e)\<rparr>
      in if \<not> ev_ec e \<and> 0 < bytes_recvd then
           let ((room, counter), out) =
             RawUdpRoom_insert ver (ev_up e) (isEchoMode s) (ev_addr e) (ev_from e)
               (data_buf s) bytes_recvd (peers s, counterUserMessage s)
           in (s\<lparr>peers := room, counterUserMessage := counter\<rparr>, out)
         else (s, []))"

definition RawUdpServer_start :: "bool \<Rightarrow> byte list \<Rightarrow> 'ep RawUdpServer" where
  "RawUdpServer_start echo uninitialised =
     \<lparr>peers = [], counterUserMessage = 0, sender_endpoint = None, data_buf = uninitialised,
      isEchoMode = echo\<rparr>"

text \<open>
  The server's steps: any datagram may arrive next, and a fresh object never has the address of
  a live one. Reachability starts from the empty room with whatever the buffer holds.
\<close>

inductive udp_step ::
    "u32 \<Rightarrow> 'ep RawUdpServer \<Rightarrow> 'ep recv_event \<Rightarrow> 'ep sends \<Rightarrow> 'ep RawUdpServer \<Rightarrow> bool" for ver where
  receive: "ev_addr e \<notin> caddr ` set (peers s) \<Longrightarrow> RawUdpServer_doReceive ver e s = (s', out) \<Longrightarrow>
     udp_step ver s e out s'"

inductive_cases udp_stepE: "udp_step ver s e out s'"
inductive_simps udp_step_iff: "udp_step ver s e out s'"

inductive udp_reachable :: "u32 \<Rightarrow> bool \<Rightarrow> 'ep RawUdpServer \<Rightarrow> bool" for ver echo where
  start: "length buf = max_length \<Longrightarrow> udp_reachable ver echo (RawUdpServer_start echo buf)"
| step: "udp_reachable ver echo s \<Longrightarrow> udp_step ver s e out s' \<Longrightarrow> udp_reachable ver echo s'"


inductive udp_steps ::
    "u32 \<Rightarrow> 'ep RawUdpServer \<Rightarrow> 'ep recv_event list \<Rightarrow> 'ep sends list \<Rightarrow> 'ep RawUdpServer \<Rightarrow> bool"
    for ver where
  none: "udp_steps ver s [] [] s"
| more: "udp_step ver s e out s' \<Longrightarrow> udp_steps ver s' es outs s'' \<Longrightarrow>
     udp_steps ver s (e # es) (out # outs) s''"

subsection \<open>The room invariant\<close>

definition endpoints :: "'ep RawUdpServer \<Rightarrow> 'ep set" where
  "endpoints s = remote_endpoint ` set (peers s)"

definition room_inv :: "'ep RawUdpRoom \<Rightarrow> bool" where
  "room_inv room \<longleftrightarrow> ascending caddr room \<and> distinct (map remote_endpoint room)"

definition udp_inv :: "'ep RawUdpServer \<Rightarrow> bool" where
  "udp_inv s \<longleftrightarrow> room_inv (peers s) \<and> length (data_buf s) = max_length"

text \<open>The connection that handles a datagram, and the room once it is registered.\<close>

definition peer_of :: "nat \<Rightarrow> 'ep \<Rightarrow> 'ep RawUdpRoom \<Rightarrow> 'ep RawUdpConnection" where
  "peer_of addr ep room =
     (case RawUdpRoom_findPeer ep room of
        Some peer \<Rightarrow> peer | None \<Rightarrow> \<lparr>caddr = addr, remote_endpoint = ep\<rparr>)"

definition room_with :: "nat \<Rightarrow> 'ep \<Rightarrow> 'ep RawUdpRoom \<Rightarrow> 'ep RawUdpRoom" where
  "room_with addr ep room =
     (case RawUdpRoom_findPeer ep room of
        Some peer \<Rightarrow> room | None \<Rightarrow> set_insert caddr \<lparr>caddr = addr, remote_endpoint = ep\<rparr> room)"

lemma RawUdpRoom_insert_eq:
  "RawUdpRoom_insert ver up echo addr ep data n (room, c) =
     RawUdpConnection_onReceived ver up echo (peer_of addr ep room) data n (room_with addr ep room, c)"
  by (simp add: RawUdpRoom_insert_def peer_of_def room_with_def Let_def split: option.split)

lemma findPeer_None: "RawUdpRoom_findPeer ep room = None \<longleftrightarrow> ep \<notin> remote_endpoint ` set room"
  by (auto simp: RawUdpRoom_findPeer_def find_None_iff)

lemma findPeer_Some:
  "RawUdpRoom_findPeer ep room = Some peer \<Longrightarrow> peer \<in> set room \<and> remote_endpoint peer = ep"
  by (auto simp: RawUdpRoom_findPeer_def find_Some_iff)

lemma remote_endpoint_peer_of [simp]: "remote_endpoint (peer_of addr ep room) = ep"
  by (auto simp: peer_of_def dest: findPeer_Some split: option.split)

lemma set_room_with:
  assumes "addr \<notin> caddr ` set room"
  shows "set (room_with addr ep room) = insert (peer_of addr ep room) (set room)"
  using assms
  by (auto simp: room_with_def peer_of_def set_set_insert dest: findPeer_Some split: option.split)

lemma endpoints_room_with:
  assumes "addr \<notin> caddr ` set room"
  shows "remote_endpoint ` set (room_with addr ep room) = insert ep (remote_endpoint ` set room)"
  by (simp add: set_room_with [OF assms])

lemma room_inv_room_with:
  assumes "room_inv room" and "addr \<notin> caddr ` set room"
  shows "room_inv (room_with addr ep room)"
proof (cases "RawUdpRoom_findPeer ep room")
  case None
  let ?x = "\<lparr>caddr = addr, remote_endpoint = ep\<rparr>"
  obtain as bs where "room = as @ bs" "set_insert caddr ?x room = as @ ?x # bs"
    using set_insert_split [of caddr ?x room] assms(2) by auto
  moreover from this None have "room_with addr ep room = as @ ?x # bs"
    by (simp add: room_with_def)
  moreover have "ascending caddr (set_insert caddr ?x room)"
    using assms(1) by (simp add: room_inv_def ascending_set_insert)
  ultimately show ?thesis
    using assms(1) None by (auto simp: room_inv_def findPeer_None)
qed (use assms in \<open>simp add: room_with_def\<close>)

lemma room_inv_erase: "room_inv room \<Longrightarrow> room_inv (set_erase caddr x room)"
  by (simp add: room_inv_def ascending_set_erase) (simp add: set_erase_def distinct_map_filter)

lemma endpoints_inj:
  "room_inv room \<Longrightarrow> x \<in> set room \<Longrightarrow> y \<in> set room \<Longrightarrow>
     remote_endpoint x = remote_endpoint y \<longleftrightarrow> caddr x = caddr y"
  by (auto simp: room_inv_def distinct_map inj_on_def dest: ascending_inj)

text \<open>Leaving out the sender by pointer is leaving it out by endpoint.\<close>

lemma endpoints_without:
  assumes "room_inv room" and "x \<in> set room"
  shows "remote_endpoint ` {y \<in> set room. caddr y \<noteq> caddr x} =
    remote_endpoint ` set room - {remote_endpoint x}"
  using endpoints_inj [OF assms(1) _ assms(2)] by auto

lemma endpoints_erase:
  assumes "room_inv room" and "x \<in> set room"
  shows "remote_endpoint ` set (set_erase caddr x room) = remote_endpoint ` set room - {remote_endpoint x}"
  by (simp add: set_set_erase endpoints_without [OF assms])

subsection \<open>The abstract relay\<close>

text \<open>
  What the UDP server promises, without connection objects, buffers and addresses: its state is
  the set of known endpoints and a counter, and one datagram from an endpoint gives the new
  state and a set of sends. A datagram is cut to the buffer size and read as a packet.
\<close>

definition datagram_packet :: "byte list \<Rightarrow> NetPacket option" where
  "datagram_packet bs =
     (let d = take max_length bs in
      if announced d \<le> length d then Some \<lparr>wholePacket = take (announced d) d\<rparr> else None)"

definition relay_spec ::
    "u32 \<Rightarrow> u32 \<Rightarrow> bool \<Rightarrow> 'ep \<Rightarrow> NetPacket option \<Rightarrow> 'ep set \<times> u32 \<Rightarrow>
     ('ep set \<times> u32) \<times> ('ep \<times> byte list) set" where
  "relay_spec ver up echo ep m st =
     (case st of (E, c) \<Rightarrow>
       case m of
         None \<Rightarrow> ((insert ep E, c), {})
       | Some msg \<Rightarrow>
           if isMediaType msg then
             ((insert ep E, c + 1),
              if echo then {(ep, wholePacket msg)}
              else (\<lambda>r. (r, wholePacket msg)) ` (E - {ep}))
           else (case pt_of_code (payloadType msg) of
               Some HeartBeatRequest \<Rightarrow> ((insert ep E, c),
                 {(ep, wholePacket (NetPacket_new ver up (pt_code HeartBeatResponse) 0))})
             | Some LoginRequest \<Rightarrow> ((insert ep E, c),
                 {(ep, wholePacket (NetPacket_new ver up (pt_code LoginResponse) 0))})
             | Some LogoutRequest \<Rightarrow> ((E - {ep}, c), {})
             | _ \<Rightarrow> ((insert ep E, c), {})))"

text \<open>The dispatch, executed for a registered connection, does what the abstract relay says.\<close>

lemma dispatch_refines:
  assumes inv: "room_inv room" and mem: "x \<in> set room"
    and d: "processClientMessagePayload ver up echo msg x (room, c) = ((room', c'), out)"
  shows "((remote_endpoint ` set room', c'),
      (\<lambda>(c, msg). (remote_endpoint c, wholePacket msg)) ` set out) =
    relay_spec ver up echo (remote_endpoint x) (Some msg) (remote_endpoint ` set room, c)"
proof (cases msg rule: udp_room.branches)
  case media
  have sends: "(\<lambda>r. (r, wholePacket msg)) ` (remote_endpoint ` set room - {remote_endpoint x}) =
      (\<lambda>(c, msg). (remote_endpoint c, wholePacket msg)) `
        set (map (\<lambda>m. (m, msg)) (filter (\<lambda>m. caddr m \<noteq> caddr x) room))"
    unfolding endpoints_without [OF inv mem, symmetric] by (simp add: image_image)
  show ?thesis
  proof (cases echo)
    case True
    with media d mem show ?thesis
      by (auto simp: udp_room.media_echo relay_spec_def insert_absorb)
  next
    case False
    with media d have "room' = room" "c' = c + 1"
      "out = map (\<lambda>m. (m, msg)) (filter (\<lambda>m. caddr m \<noteq> caddr x) room)"
      by (auto simp: udp_room.media_broadcast)
    with media False mem show ?thesis
      by (simp add: relay_spec_def sends insert_absorb)
  qed
next
  case logout
  then have "\<not> isMediaType msg"
    by (simp add: isMediaType_iff)
  moreover from logout d have "room' = set_erase caddr x room" "c' = c" "out = []"
    by (auto simp: udp_room.logout)
  ultimately show ?thesis
    using logout by (simp add: relay_spec_def endpoints_erase [OF inv mem])
next
  case other
  then have "\<not> isMediaType msg"
    by (auto simp: isMediaType_iff)
  with other d mem show ?thesis
    by (auto simp: udp_room.other relay_spec_def insert_absorb split: option.split PayloadType.split)
qed (use d mem in \<open>auto simp: udp_room.heartbeat udp_room.login relay_spec_def isMediaType_iff insert_absorb\<close>)


subsection \<open>One receive implements one step of the abstract relay\<close>

lemma max_length_pos [simp]: "0 < max_length"
  by (simp add: max_length_def)

lemma received_buffer:
  fixes bs :: "byte list"
  assumes "length buf = max_length"
  defines "d \<equiv> take max_length bs"
  shows "length (write_at 0 d buf) = max_length"
    and "RawUdpConnection_makePacket ver up (write_at 0 d buf) (length d) = datagram_packet bs"
proof -
  show l: "length (write_at 0 d buf) = max_length"
    using assms by simp
  have "RawUdpConnection_makePacket ver up (write_at 0 d buf) (length d) =
      RawUdpConnection_makePacket ver up d (length d)"
    by (rule server_parser.parse_local) (simp_all add: write_at_0)
  also have "\<dots> = (if length d < announced d then None
      else Some \<lparr>wholePacket = take (announced d) d\<rparr>)"
    by (rule server_parser.parse_eq) simp
  finally show "RawUdpConnection_makePacket ver up (write_at 0 d buf) (length d) = datagram_packet bs"
    by (simp add: datagram_packet_def Let_def d_def [symmetric] not_less)
qed

lemma onReceived_refines:
  assumes inv: "room_inv room" and mem: "x \<in> set room"
    and p: "RawUdpConnection_makePacket ver up data n = m"
    and r: "RawUdpConnection_onReceived ver up echo x data n (room, c) = ((room', c'), out)"
  shows "room_inv room'" and "distinct (map fst out)"
    and "((remote_endpoint ` set room', c'), set out) =
      relay_spec ver up echo (remote_endpoint x) m (remote_endpoint ` set room, c)"
proof -
  have "room_inv room' \<and> distinct (map fst out) \<and>
    ((remote_endpoint ` set room', c'), set out) =
      relay_spec ver up echo (remote_endpoint x) m (remote_endpoint ` set room, c)"
  proof (cases m)
    case None
    with p r inv mem show ?thesis
      by (auto simp: RawUdpConnection_onReceived_def relay_spec_def insert_absorb)
  next
    case (Some msg)
    obtain calls where
      d: "processClientMessagePayload ver up echo msg x (room, c) = ((room', c'), calls)"
      and out: "out = map (\<lambda>(c, msg). (remote_endpoint c, wholePacket msg)) calls"
      using r p Some by (auto simp: RawUdpConnection_onReceived_def concat_sends split: prod.splits)
    have asc: "ascending caddr room"
      using inv by (simp add: room_inv_def)
    have "set (map fst calls) \<subseteq> set room"
      using udp_room.receivers [OF d] mem by auto
    then have "distinct (map (remote_endpoint \<circ> fst) calls)"
      by (intro distinct_map_transfer [OF udp_room.at_most_one_copy [OF d asc]])
        (auto simp: subset_iff dest!: endpoints_inj [OF inv, THEN iffD1, rotated 2])
    then have "distinct (map fst out)"
      by (simp add: out comp_def case_prod_beta)
    moreover have "room_inv room'"
      using udp_room.members_shrink [OF d] inv by (auto simp: room_inv_erase)
    ultimately show ?thesis
      using dispatch_refines [OF inv mem d] Some by (simp add: out)
  qed
  then show "room_inv room'" and "distinct (map fst out)"
    and "((remote_endpoint ` set room', c'), set out) =
      relay_spec ver up echo (remote_endpoint x) m (remote_endpoint ` set room, c)"
    by blast+
qed

lemma doReceive_refines:
  assumes inv: "udp_inv s" and fresh: "ev_addr e \<notin> caddr ` set (peers s)"
    and r: "RawUdpServer_doReceive ver e s = (s', out)"
    and ok: "\<not> ev_ec e" "ev_bytes e \<noteq> []"
  shows "udp_inv s'" and "distinct (map fst out)" and "isEchoMode s' = isEchoMode s"
    and "((endpoints s', counterUserMessage s'), set out) =
      relay_spec ver (ev_up e) (isEchoMode s) (ev_from e) (datagram_packet (ev_bytes e))
        (endpoints s, counterUserMessage s)"
proof -
  let ?buf = "write_at 0 (take max_length (ev_bytes e)) (data_buf s)"
  let ?room = "room_with (ev_addr e) (ev_from e) (peers s)"
  let ?x = "peer_of (ev_addr e) (ev_from e) (peers s)"
  have room: "room_inv (peers s)" and len: "length (data_buf s) = max_length"
    using inv by (simp_all add: udp_inv_def)
  obtain room' c' where
    onr: "RawUdpConnection_onReceived ver (ev_up e) (isEchoMode s) ?x ?buf
      (length (take max_length (ev_bytes e))) (?room, counterUserMessage s) = ((room', c'), out)"
    and s': "s' = s\<lparr>data_buf := ?buf, sender_endpoint := Some (ev_from e), peers := room',
      counterUserMessage := c'\<rparr>"
    using r ok by (auto simp: RawUdpServer_doReceive_def RawUdpRoom_insert_eq Let_def split: prod.splits)
  have mem: "?x \<in> set ?room"
    by (simp add: set_room_with [OF fresh])
  note ref = onReceived_refines [OF room_inv_room_with [OF room fresh] mem
      received_buffer(2) [OF len] onr]
  show "udp_inv s'"
    using ref(1) received_buffer(1) [OF len] by (simp add: udp_inv_def s')
  show "distinct (map fst out)" "isEchoMode s' = isEchoMode s"
    using ref(2) by (simp_all add: s')
  have "relay_spec ver (ev_up e) (isEchoMode s) (ev_from e) m (insert (ev_from e) E, c) =
      relay_spec ver (ev_up e) (isEchoMode s) (ev_from e) m (E, c)" for m E c
    by (simp add: relay_spec_def split: option.split PayloadType.split)
  then show "((endpoints s', counterUserMessage s'), set out) =
      relay_spec ver (ev_up e) (isEchoMode s) (ev_from e) (datagram_packet (ev_bytes e))
        (endpoints s, counterUserMessage s)"
    using ref(3) by (simp add: s' endpoints_def endpoints_room_with [OF fresh])
qed

lemma doReceive_ignored:
  assumes "udp_inv s" and "RawUdpServer_doReceive ver e s = (s', out)"
    and "ev_ec e \<or> ev_bytes e = []"
  shows "udp_inv s'" and "out = []" and "endpoints s' = endpoints s"
    and "counterUserMessage s' = counterUserMessage s" and "isEchoMode s' = isEchoMode s"
  using assms by (auto simp: RawUdpServer_doReceive_def udp_inv_def endpoints_def Let_def)


subsection \<open>Reachable servers\<close>

lemma udp_step_inv:
  assumes "udp_step ver s e out s'" and "udp_inv s"
  shows "udp_inv s' \<and> isEchoMode s' = isEchoMode s"
proof (cases "ev_ec e \<or> ev_bytes e = []")
  case True
  with assms show ?thesis
    by (auto elim!: udp_stepE dest: doReceive_ignored)
next
  case False
  with assms show ?thesis
    by (auto elim!: udp_stepE dest: doReceive_refines(1,3))
qed

lemma udp_reachable_inv: "udp_reachable ver echo s \<Longrightarrow> udp_inv s \<and> isEchoMode s = echo"
proof (induction rule: udp_reachable.induct)
  case (start buf)
  then show ?case
    by (simp add: RawUdpServer_start_def udp_inv_def room_inv_def)
qed (use udp_step_inv in metis)

lemma udp_step_refines:
  assumes "udp_reachable ver echo s" and "udp_step ver s e out s'"
    and "\<not> ev_ec e" and "ev_bytes e \<noteq> []"
  shows "distinct (map fst out)"
    and "((endpoints s', counterUserMessage s'), set out) =
      relay_spec ver (ev_up e) echo (ev_from e) (datagram_packet (ev_bytes e))
        (endpoints s, counterUserMessage s)"
proof -
  have inv: "udp_inv s" and echo: "isEchoMode s = echo"
    using udp_reachable_inv [OF assms(1)] by simp_all
  from assms(2) have fresh: "ev_addr e \<notin> caddr ` set (peers s)"
    and r: "RawUdpServer_doReceive ver e s = (s', out)"
    by (auto elim!: udp_stepE)
  note ref = doReceive_refines [OF inv fresh r assms(3,4)]
  show "distinct (map fst out)"
    by (rule ref(2))
  show "((endpoints s', counterUserMessage s'), set out) =
      relay_spec ver (ev_up e) echo (ev_from e) (datagram_packet (ev_bytes e))
        (endpoints s, counterUserMessage s)"
    using ref(4) by (simp add: echo)
qed

lemma packet_wf_length: "packet_wf p \<Longrightarrow> 20 \<le> length (wholePacket p)"
  by (simp add: packet_wf_def)

lemma packet_wf_nonempty: "packet_wf p \<Longrightarrow> wholePacket p \<noteq> []"
  by (auto simp: packet_wf_def)

lemma datagram_packet_wf:
  "packet_wf p \<Longrightarrow> length (wholePacket p) \<le> max_length \<Longrightarrow> datagram_packet (wholePacket p) = Some p"
  by (simp add: datagram_packet_def announced_wf)

lemma datagram_packet_None:
  "datagram_packet bs = None \<longleftrightarrow> min (length bs) max_length < announced bs"
proof (cases "20 \<le> length bs")
  case True
  then show ?thesis
    by (auto simp: datagram_packet_def announced_take max_length_def not_le min_def Let_def)
next
  case False
  then show ?thesis
    by (simp add: datagram_packet_def announced_def)
qed

text \<open>The abstract relay over a sequence of receive events.\<close>

definition spec_event ::
    "u32 \<Rightarrow> bool \<Rightarrow> 'ep recv_event \<Rightarrow> 'ep set \<times> u32 \<Rightarrow> ('ep set \<times> u32) \<times> ('ep \<times> byte list) set" where
  "spec_event ver echo e st =
     (if ev_ec e \<or> ev_bytes e = [] then (st, {})
      else relay_spec ver (ev_up e) echo (ev_from e) (datagram_packet (ev_bytes e)) st)"

fun spec_run ::
    "u32 \<Rightarrow> bool \<Rightarrow> 'ep recv_event list \<Rightarrow> 'ep set \<times> u32 \<Rightarrow>
     ('ep set \<times> u32) \<times> ('ep \<times> byte list) set list" where
  "spec_run ver echo [] st = (st, [])"
| "spec_run ver echo (e # es) st =
     (let (st', out) = spec_event ver echo e st; (st'', outs) = spec_run ver echo es st'
      in (st'', out # outs))"

lemma udp_step_spec_event:
  assumes "udp_reachable ver echo s" and "udp_step ver s e out s'"
  shows "distinct (map fst out) \<and>
    spec_event ver echo e (endpoints s, counterUserMessage s) =
      ((endpoints s', counterUserMessage s'), set out)"
proof (cases "ev_ec e \<or> ev_bytes e = []")
  case True
  have inv: "udp_inv s" and r: "RawUdpServer_doReceive ver e s = (s', out)"
    using udp_reachable_inv [OF assms(1)] assms(2) by (auto elim: udp_stepE)
  from doReceive_ignored [OF inv r True] True show ?thesis
    by (simp add: spec_event_def)
next
  case False
  with udp_step_refines [OF assms] show ?thesis
    by (simp add: spec_event_def)
qed

lemma relay_spec_silent:
  assumes "relay_spec ver up echo from m (E, c) = ((E', c'), out)"
    and "ep \<notin> E" and "from \<noteq> ep"
  shows "ep \<notin> E'" and "ep \<notin> fst ` out"
  using assms by (auto simp: relay_spec_def split: if_splits option.splits PayloadType.splits)

lemma silent_step:
  assumes "udp_reachable ver echo s" and "udp_step ver s e out s'"
    and "ep \<notin> endpoints s" and "ev_from e \<noteq> ep"
  shows "ep \<notin> endpoints s'" and "ep \<notin> fst ` set out"
proof -
  have "spec_event ver echo e (endpoints s, counterUserMessage s) =
      ((endpoints s', counterUserMessage s'), set out)"
    using udp_step_spec_event [OF assms(1,2)] by blast
  then show "ep \<notin> endpoints s'" and "ep \<notin> fst ` set out"
    using assms(3,4) relay_spec_silent [of ver "ev_up e" echo "ev_from e"]
    by (auto simp: spec_event_def split: if_splits)
qed

lemma silent_steps:
  assumes "udp_steps ver s es outs s'" and "udp_reachable ver echo s"
    and "ep \<notin> endpoints s" and "ep \<notin> ev_from ` set es"
  shows "ep \<notin> endpoints s' \<and> (\<forall>out \<in> set outs. ep \<notin> fst ` set out)"
  using assms
proof (induction rule: udp_steps.induct)
  case (more s e out s' es outs s'')
  from more.prems(3) have "ev_from e \<noteq> ep" "ep \<notin> ev_from ` set es"
    by auto
  with more silent_step [OF more.prems(1) more.hyps(1) more.prems(2)]
    udp_reachable.step [OF more.prems(1) more.hyps(1)]
  show ?case
    by simp
qed simp


text \<open>Every datagram can arrive in every state, and every set of endpoints can be registered.\<close>

lemma udp_can_receive:
  "\<exists>a out s'. udp_step ver s
     \<lparr>ev_ec = ec, ev_from = ep, ev_bytes = bs, ev_addr = a, ev_up = up\<rparr> out s'"
proof -
  obtain a where "a \<notin> caddr ` set (peers s)"
    using ex_new_if_finite [OF infinite_UNIV_nat, of "caddr ` set (peers s)"] by blast
  then show ?thesis
    by (auto simp: udp_step_iff intro!: exI [of _ a] prod.collapse [symmetric])
qed

lemma udp_can_register:
  assumes "udp_reachable ver echo s"
  shows "\<exists>s'. udp_reachable ver echo s' \<and> endpoints s' = insert ep (endpoints s)"
proof -
  obtain a out s' where st: "udp_step ver s
      \<lparr>ev_ec = False, ev_from = ep, ev_bytes = [0], ev_addr = a, ev_up = 0\<rparr> out s'"
    by (meson udp_can_receive)
  have "datagram_packet [0] = None"
    by (simp add: datagram_packet_None announced_def)
  then have "endpoints s' = insert ep (endpoints s)"
    using udp_step_refines(2) [OF assms st] by (simp add: relay_spec_def)
  with udp_reachable.step [OF assms st] show ?thesis
    by blast
qed

lemma udp_two_clients:
  "\<exists>s. udp_reachable ver echo s \<and> endpoints s = {1, 2 :: nat}"
proof -
  have "udp_reachable ver echo (RawUdpServer_start echo (replicate max_length 0) :: nat RawUdpServer)"
    by (rule udp_reachable.start) simp
  from udp_can_register [OF this, of 2] obtain s1 :: "nat RawUdpServer" where
    "udp_reachable ver echo s1" "endpoints s1 = {2}"
    by (auto simp: RawUdpServer_start_def endpoints_def)
  from udp_can_register [OF this(1), of 1] this(2) show ?thesis
    by auto
qed

abbreviation talk :: NetPacket where
  "talk \<equiv> \<lparr>wholePacket = packet_bytes 0 0 (pt_code AudioMessage) 1 [5, 6]\<rparr>"

lemma talk_wf:
  "packet_wf talk" "length (wholePacket talk) \<le> max_length" "isMediaType talk"
  by (simp_all add: packet_wf_def layout_reads max_length_def isMediaType_def packet_simps)

subsection \<open>Properties of the server\<close>

text \<open>
  C7: parsing in the server inverts building a packet. For every type, serial number, version,
  clock reading and payload of at most 65535 bytes, the datagram that carries the packet's bytes,
  with anything behind them, is parsed to a packet with the same bytes, and its accessors return
  the type, the serial number, the time stamp and the payload the constructor was given.
\<close>
theorem makePacket_roundtrip:
  assumes "NetPacket_of_chars ver up t sn pl = Inr p"
  shows "RawUdpConnection_makePacket ver' up' (wholePacket p @ junk) (length (wholePacket p @ junk)) = Some p
    \<and> payloadType p = t \<and> serialNumber p = sn \<and> timestamp p = up \<and> payload p = pl"
proof -
  from assms have "length pl \<le> 65535" and "p = \<lparr>wholePacket = packet_bytes ver up t sn pl\<rparr>"
    by (simp_all add: NetPacket_of_chars_eq split: if_splits)
  then show ?thesis
    by (simp add: server_parser.parse_bytes [simplified] packet_simps)
qed

theorem makePacket_roundtrip_witness:
  "\<exists>p. NetPacket_of_chars 7 1000 (pt_code AudioMessage) 1 [1, 2, 3] = Inr p \<and>
     RawUdpConnection_makePacket 0 5 (wholePacket p @ [9]) (length (wholePacket p @ [9])) = Some p \<and>
     payload p = [1, 2, 3]"
proof -
  obtain p where p: "NetPacket_of_chars 7 1000 (pt_code AudioMessage) 1 [1, 2, 3] = Inr p"
    by (simp add: NetPacket_of_chars_eq)
  from makePacket_roundtrip [OF p, of 0 5 "[9]"] p show ?thesis
    by blast
qed

text \<open>
  C28: exactly which datagrams the server takes for a packet. With n received bytes in the
  buffer, the result is a packet iff there are at least 20 bytes and at least as many as the 16-bit
  length field at offset 18 announces behind the 20 header bytes; the packet is then these
  announced bytes and nothing else, and it is well formed. No other header field is looked at.
\<close>
theorem makePacket_accepts:
  assumes "n \<le> length data"
  shows "RawUdpConnection_makePacket ver up data n = Some p \<longleftrightarrow>
    20 \<le> n \<and> 20 + unat (rd16 data 18) \<le> n \<and>
    wholePacket p = take (20 + unat (rd16 data 18)) data"
  using server_parser.parse_Some_iff [OF assms] by (simp add: announced_def)

theorem makePacket_accepts_witness:
  "RawUdpConnection_makePacket 0 0 (replicate 30 0) 25 = Some \<lparr>wholePacket = replicate 20 0\<rparr>"
  using makePacket_accepts [of 25 "replicate 30 0" 0 0 "\<lparr>wholePacket = replicate 20 0\<rparr>"]
  by (simp add: rd16_def)

text \<open>
  In every reachable state of the server there is one connection per endpoint: the room's
  connections have pairwise distinct endpoints and are iterated in ascending order of address.
\<close>
lemma udp_one_connection_per_endpoint:
  assumes "udp_reachable ver echo s"
  shows "distinct (map remote_endpoint (peers s)) \<and> ascending caddr (peers s)"
  using udp_reachable_inv [OF assms] by (simp add: udp_inv_def room_inv_def)

lemma udp_one_connection_per_endpoint_witness:
  "\<exists>s :: nat RawUdpServer. endpoints s = {1, 2} \<and> distinct (map remote_endpoint (peers s))"
  using udp_two_clients udp_one_connection_per_endpoint by blast

text \<open>
  C9: broadcast mode. When a client sends an audio, comfort-noise or text packet that fits the
  receive buffer, the server sends exactly that packet, byte for byte, once to every other known
  endpoint, and nothing to the sender; the sender is known from then on and the message counter
  goes up by one (modulo 2^32).
\<close>
theorem broadcast_fanout:
  assumes "udp_reachable ver False s" and "udp_step ver s e out s'"
    and "\<not> ev_ec e" and "ev_bytes e = wholePacket msg"
    and "packet_wf msg" and "length (wholePacket msg) \<le> max_length" and "isMediaType msg"
  shows "set out = (\<lambda>r. (r, wholePacket msg)) ` (endpoints s - {ev_from e}) \<and>
    distinct (map fst out) \<and>
    endpoints s' = insert (ev_from e) (endpoints s) \<and>
    counterUserMessage s' = counterUserMessage s + 1"
  using udp_step_refines [OF assms(1-3)] assms(4-7)
  by (simp add: relay_spec_def datagram_packet_wf packet_wf_nonempty)

theorem broadcast_fanout_witness:
  "\<exists>(s :: nat RawUdpServer) e out s'. udp_reachable 0 False s \<and> endpoints s = {1, 2} \<and>
     ev_from e = 1 \<and> udp_step 0 s e out s' \<and> set out = {(2, wholePacket talk)}"
proof -
  obtain s :: "nat RawUdpServer" where s: "udp_reachable 0 False s" "endpoints s = {1, 2}"
    using udp_two_clients by blast
  obtain a out s' where st: "udp_step 0 s \<lparr>ev_ec = False, ev_from = 1,
      ev_bytes = wholePacket talk, ev_addr = a, ev_up = 0\<rparr> out s'"
    by (meson udp_can_receive)
  have "set out = {(2, wholePacket talk)}"
    using broadcast_fanout [OF s(1) st _ _ talk_wf] s(2) by (simp add: insert_Diff_if)
  with s st show ?thesis
    by (metis recv_event.select_convs(2))
qed

text \<open>
  Echo mode. The same packet goes back, byte for byte, to its sender and to nobody else.
\<close>
lemma echo_to_sender:
  assumes "udp_reachable ver True s" and "udp_step ver s e out s'"
    and "\<not> ev_ec e" and "ev_bytes e = wholePacket msg"
    and "packet_wf msg" and "length (wholePacket msg) \<le> max_length" and "isMediaType msg"
  shows "out = [(ev_from e, wholePacket msg)] \<and> endpoints s' = insert (ev_from e) (endpoints s)"
proof -
  have ref: "distinct (map fst out)" "set out = {(ev_from e, wholePacket msg)}"
    "endpoints s' = insert (ev_from e) (endpoints s)"
    using udp_step_refines [OF assms(1-3)] assms(4-7)
    by (simp_all add: relay_spec_def datagram_packet_wf packet_wf_nonempty)
  then have "length out = 1"
    using distinct_card [of out] by (auto simp: distinct_map)
  with ref show ?thesis
    by (cases out) auto
qed

lemma echo_to_sender_witness:
  "\<exists>(s :: nat RawUdpServer) e out s'. endpoints s = {1, 2} \<and> udp_step 0 s e out s' \<and>
     out = [(1, wholePacket talk)]"
proof -
  obtain s :: "nat RawUdpServer" where s: "udp_reachable 0 True s" "endpoints s = {1, 2}"
    using udp_two_clients by blast
  obtain a out s' where st: "udp_step 0 s \<lparr>ev_ec = False, ev_from = 1,
      ev_bytes = wholePacket talk, ev_addr = a, ev_up = 0\<rparr> out s'"
    by (meson udp_can_receive)
  show ?thesis
    using echo_to_sender [OF s(1) st _ _ talk_wf] s(2) st by auto
qed

text \<open>
  C19: a logout is not answered, and the client that logged out is left alone. After a LogoutRequest from an endpoint the endpoint
  is unknown, and in every further run in which it sends nothing it stays unknown and nothing is sent to it. This
  contradicts the protocol document (documents/technical/TediousNetworkProtocol.md), which lists a
  LogoutResponse of the server as the answer, as the client's stub (NetClientStub) makes it: no server sends one, neither at
  once nor later, so a client that waited for it would wait for ever.
\<close>
theorem logout_silences:
  assumes "udp_reachable ver echo s" and "udp_step ver s e out s1"
    and "\<not> ev_ec e" and "ev_bytes e = wholePacket msg"
    and "packet_wf msg" and "length (wholePacket msg) \<le> max_length"
    and "payloadType msg = pt_code LogoutRequest"
    and "udp_steps ver s1 es outs s2" and "ev_from e \<notin> ev_from ` set es"
  shows "out = [] \<and> ev_from e \<notin> endpoints s2 \<and> (\<forall>o' \<in> set outs. ev_from e \<notin> fst ` set o')"
proof -
  have "out = []" and "endpoints s1 = endpoints s - {ev_from e}"
    using udp_step_refines [OF assms(1-3)] assms(4-7)
    by (simp_all add: relay_spec_def datagram_packet_wf packet_wf_nonempty isMediaType_iff del: pt_code.simps)
  moreover have "udp_reachable ver echo s1"
    using assms(1,2) by (rule udp_reachable.step)
  ultimately show ?thesis
    using silent_steps [OF assms(8) _ _ assms(9)] by auto
qed


theorem logout_silences_witness:
  "\<exists>(s :: nat RawUdpServer) e out s1. endpoints s = {1, 2} \<and> udp_step 0 s e out s1 \<and>
     ev_from e = 1 \<and> out = [] \<and> 1 \<notin> endpoints s1"
proof -
  let ?bye = "NetPacket_new 0 0 (pt_code LogoutRequest) 0"
  obtain s :: "nat RawUdpServer" where s: "udp_reachable 0 False s" "endpoints s = {1, 2}"
    using udp_two_clients by blast
  obtain a out s1 where st: "udp_step 0 s \<lparr>ev_ec = False, ev_from = 1,
      ev_bytes = wholePacket ?bye, ev_addr = a, ev_up = 0\<rparr> out s1"
    by (meson udp_can_receive)
  have "length (wholePacket ?bye) \<le> max_length" "payloadType ?bye = pt_code LogoutRequest"
    by (simp_all add: NetPacket_new_layout max_length_def packet_simps)
  with logout_silences [OF s(1) st _ _ packet_wf_new _ _ udp_steps.none] s(2) st show ?thesis
    by (metis empty_iff image_empty list.set(1) recv_event.select_convs(1,2,3))
qed

text \<open>
  A datagram that is no packet (it is shorter than 20 bytes, shorter than its length field
  announces, or announces more than fits in the 1024-byte buffer) is answered by nothing and
  counted as nothing; but its sender is registered all the same, without any login.
\<close>
lemma malformed_registers_sender:
  assumes "udp_reachable ver echo s" and "udp_step ver s e out s'"
    and "\<not> ev_ec e" and "ev_bytes e \<noteq> []"
    and "min (length (ev_bytes e)) 1024 < 20 + unat (rd16 (ev_bytes e) 18)"
  shows "out = [] \<and> counterUserMessage s' = counterUserMessage s \<and>
    endpoints s' = insert (ev_from e) (endpoints s)"
proof -
  have "datagram_packet (ev_bytes e) = None"
    using assms(5) by (simp add: datagram_packet_None announced_def max_length_def)
  then show ?thesis
    using udp_step_refines(2) [OF assms(1-4)] by (simp add: relay_spec_def)
qed

lemma malformed_registers_sender_witness:
  "\<exists>(s :: nat RawUdpServer) e out s'. endpoints s = {1, 2} \<and> udp_step 0 s e out s' \<and>
     ev_bytes e = [0] \<and> out = [] \<and> endpoints s' = {1, 2, 3}"
proof -
  obtain s :: "nat RawUdpServer" where s: "udp_reachable 0 False s" "endpoints s = {1, 2}"
    using udp_two_clients by blast
  obtain a out s' where st: "udp_step 0 s \<lparr>ev_ec = False, ev_from = 3,
      ev_bytes = [0], ev_addr = a, ev_up = 0\<rparr> out s'"
    by (meson udp_can_receive)
  have "out = [] \<and> endpoints s' = {1, 2, 3}"
    using malformed_registers_sender [OF s(1) st] s(2) by auto
  then show ?thesis
    using s(2) st by (metis recv_event.select_convs(3))
qed

text \<open>
  Login and heartbeat requests are answered at once, to the sender only, by an empty packet
  of the corresponding response type with serial number 0; both register the sender.
\<close>
lemma requests_answered:
  assumes "udp_reachable ver echo s" and "udp_step ver s e out s'"
    and "\<not> ev_ec e" and "ev_bytes e = wholePacket msg"
    and "packet_wf msg" and "length (wholePacket msg) \<le> max_length"
    and "payloadType msg = pt_code req" and "(req, resp) \<in>
      {(LoginRequest, LoginResponse), (HeartBeatRequest, HeartBeatResponse)}"
  shows "\<exists>p. set out = {(ev_from e, wholePacket p)} \<and> payloadType p = pt_code resp \<and>
    serialNumber p = 0 \<and> payload p = [] \<and> endpoints s' = insert (ev_from e) (endpoints s)"
proof -
  let ?p = "NetPacket_new ver (ev_up e) (pt_code resp) 0"
  have "set out = {(ev_from e, wholePacket ?p)} \<and> endpoints s' = insert (ev_from e) (endpoints s)"
    using udp_step_refines(2) [OF assms(1-3)] assms(4-8)
    by (auto simp: relay_spec_def datagram_packet_wf packet_wf_nonempty isMediaType_iff
        simp del: pt_code.simps)
  then show ?thesis
    by (intro exI [of _ ?p]) (simp add: packet_simps)
qed

lemma requests_answered_witness:
  "\<exists>(s :: nat RawUdpServer) e out s' p. endpoints s = {1, 2} \<and> udp_step 0 s e out s' \<and>
     set out = {(3, wholePacket p)} \<and> payloadType p = pt_code LoginResponse"
proof -
  let ?hello = "NetPacket_new 0 0 (pt_code LoginRequest) 0"
  obtain s :: "nat RawUdpServer" where s: "udp_reachable 0 False s" "endpoints s = {1, 2}"
    using udp_two_clients by blast
  obtain a out s' where st: "udp_step 0 s \<lparr>ev_ec = False, ev_from = 3,
      ev_bytes = wholePacket ?hello, ev_addr = a, ev_up = 0\<rparr> out s'"
    by (meson udp_can_receive)
  have "length (wholePacket ?hello) \<le> max_length" "payloadType ?hello = pt_code LoginRequest"
    by (simp_all add: NetPacket_new_layout max_length_def packet_simps)
  from requests_answered [OF s(1) st _ _ packet_wf_new this, of LoginResponse] s(2) st show ?thesis
    by fastforce
qed

text \<open>
  C4: the server refines the abstract relay. Over every run of the UDP server from a reachable
  state, the set of endpoints of its room and its counter go through exactly the states of the
  abstract relay (a set of endpoints and a counter), and each receive sends, without repetition to
  one endpoint, exactly the set of datagrams the abstract relay prescribes. Connection objects,
  their addresses and order, and what earlier datagrams left in the receive buffer do not matter.
\<close>
theorem udp_server_refines_relay:
  assumes "udp_steps ver s es outs s'" and "udp_reachable ver echo s"
  shows "spec_run ver echo es (endpoints s, counterUserMessage s) =
      ((endpoints s', counterUserMessage s'), map set outs) \<and>
    (\<forall>out \<in> set outs. distinct (map fst out))"
  using assms
proof (induction rule: udp_steps.induct)
  case (more s e out s' es outs s'')
  from more.IH udp_reachable.step [OF more.prems more.hyps(1)]
    udp_step_spec_event [OF more.prems more.hyps(1)]
  show ?case
    by simp
qed simp

theorem udp_server_refines_relay_witness:
  "\<exists>(s :: nat RawUdpServer) es outs s'. length es = 1 \<and> udp_steps 0 s es outs s' \<and>
     snd (spec_run 0 False es (endpoints s, counterUserMessage s)) = map set outs"
proof -
  obtain s :: "nat RawUdpServer" where s: "udp_reachable 0 False s" "endpoints s = {1, 2}"
    using udp_two_clients by blast
  obtain a out s' where st: "udp_step 0 s \<lparr>ev_ec = False, ev_from = 1,
      ev_bytes = wholePacket talk, ev_addr = a, ev_up = 0\<rparr> out s'"
    by (meson udp_can_receive)
  from udp_server_refines_relay [OF udp_steps.more [OF st udp_steps.none] s(1)]
    udp_steps.more [OF st udp_steps.none]
  show ?thesis
    by (metis One_nat_def length_Cons list.size(3) snd_conv)
qed

end
