(* ===== verification/Net_Client.thy ===== *)
theory Net_Client
  imports Raw_Udp_Server
begin

text \<open>
  The UDP client behind the interface NetClient (client_essential/NetClient.hpp): RawUdpClient
  (client_essential/net_engine/RawUdpClient.cpp). Calls of the socket library that may throw give Inl with the
  message of the exception.
\<close>

subsection \<open>The UDP client\<close>

definition client_max_length :: nat where
  "client_max_length = 1024"

record 'ep RawUdpClientImpl =
  udp_endpoints :: "'ep list"
  isGoingOn :: bool

definition RawUdpClientImpl_makePacket ::
    "u32 \<Rightarrow> u32 \<Rightarrow> byte list \<Rightarrow> nat \<Rightarrow> NetPacket option" where
  "RawUdpClientImpl_makePacket ver up data bytes_recvd =
     (if bytes_recvd < FixHeaderLength then None
      else
        let ret = NetPacket_new ver up (pt_code Undefined) 0;
            ret = ret\<lparr>wholePacket := write_at 0 (take FixHeaderLength data) (wholePacket ret)\<rparr>;
            (ok_header, ret) = checkHeader ret
        in if \<not> ok_header then None
           else if bytes_recvd < FixHeaderLength + payloadLength ret then None
           else Some (ret\<lparr>wholePacket := write_at FixHeaderLength
             (take (payloadLength ret) (drop FixHeaderLength data)) (wholePacket ret)\<rparr>))"

lemma client_makePacket_eq: "RawUdpClientImpl_makePacket = RawUdpConnection_makePacket"
  by (simp add: fun_eq_iff RawUdpClientImpl_makePacket_def RawUdpConnection_makePacket_def)

interpretation client_parser: datagram_parser "RawUdpClientImpl_makePacket ver up" for ver up
  unfolding client_makePacket_eq by unfold_locales

text \<open>
  The receiver thread: each round reads the flag, receives into the same array and hands a
  complete packet to the callback; an exception of receive_from ends the loop. A round is given by
  the flag it reads, what the socket returns and the clock reading. The packets are those handed
  to the callback.
\<close>

record recv_round =
  going_on :: bool
  received :: "byte list option"
  round_up :: u32

fun receiver_loop :: "u32 \<Rightarrow> recv_round list \<Rightarrow> byte list \<Rightarrow> NetPacket list" where
  "receiver_loop ver [] reply = []"
| "receiver_loop ver (r # rs) reply =
     (if \<not> going_on r then []
      else
        (case received r of
           None \<Rightarrow> []
         | Some datagram \<Rightarrow>
             let got = take client_max_length datagram;
                 reply_length = length got;
                 reply = write_at 0 got reply
             in (case RawUdpClientImpl_makePacket ver (round_up r) reply reply_length of
                   Some newPacket \<Rightarrow> newPacket # receiver_loop ver rs reply
                 | None \<Rightarrow> receiver_loop ver rs reply)))"

text \<open>send_to returns the message of the exception it throws, or None.\<close>

definition RawUdpClientImpl_sendUdp ::
    "('ep \<Rightarrow> byte list \<Rightarrow> string option) \<Rightarrow> byte list \<Rightarrow> nat \<Rightarrow> 'ep RawUdpClientImpl \<Rightarrow>
     ReturnType \<times> ('ep \<times> byte list) list" where
  "RawUdpClientImpl_sendUdp send_to buf len impl =
     (let ep = hd (udp_endpoints impl); bs = take len buf in
      case send_to ep bs of
        Some what \<Rightarrow> (ReturnType_str what, [])
      | None \<Rightarrow> (ReturnType_int 0, [(ep, bs)]))"

definition RawUdpClientImpl_send ::
    "('ep \<Rightarrow> byte list \<Rightarrow> string option) \<Rightarrow> NetPacket \<Rightarrow> 'ep RawUdpClientImpl \<Rightarrow>
     ReturnType \<times> ('ep \<times> byte list) list" where
  "RawUdpClientImpl_send send_to netPacket impl =
     (let (_, sent) = RawUdpClientImpl_sendUdp send_to (header netPacket) (wholePackLength netPacket) impl
      in (ReturnType_int 0, sent))"

definition RawUdpClientImpl_new ::
    "(string \<Rightarrow> string \<Rightarrow> string + 'ep list) \<Rightarrow> string \<Rightarrow> string \<Rightarrow> string + 'ep RawUdpClientImpl" where
  "RawUdpClientImpl_new resolve serverHost serverPort =
     (case resolve serverHost serverPort of
        Inl what \<Rightarrow> Inl what
      | Inr eps \<Rightarrow> Inr \<lparr>udp_endpoints = eps, isGoingOn = True\<rparr>)"

text \<open>The destructor clears the flag and joins the receiver thread.\<close>

definition RawUdpClientImpl_destroy :: "'ep RawUdpClientImpl \<Rightarrow> 'ep RawUdpClientImpl" where
  "RawUdpClientImpl_destroy impl = impl\<lparr>isGoingOn := False\<rparr>"

type_synonym 'ep RawUdpClient = "'ep RawUdpClientImpl option"

definition RawUdpClient_init ::
    "(string \<Rightarrow> string \<Rightarrow> string + 'ep list) \<Rightarrow> string \<Rightarrow> string \<Rightarrow>
     string + ReturnType \<times> 'ep RawUdpClient" where
  "RawUdpClient_init resolve serverHost serverPort =
     (case RawUdpClientImpl_new resolve serverHost serverPort of
        Inl what \<Rightarrow> Inl what
      | Inr impl \<Rightarrow> Inr (ReturnType_bool True, Some impl))"

definition RawUdpClient_send ::
    "('ep \<Rightarrow> byte list \<Rightarrow> string option) \<Rightarrow> NetPacket \<Rightarrow> 'ep RawUdpClientImpl \<Rightarrow>
     ReturnType \<times> ('ep \<times> byte list) list" where
  "RawUdpClient_send send_to netPacket impl = RawUdpClientImpl_send send_to netPacket impl"

definition RawUdpClient_isConnected :: "'ep RawUdpClient \<Rightarrow> bool" where
  "RawUdpClient_isConnected client = True"

subsection \<open>Properties of the client\<close>

lemma receiver_loop_packets:
  assumes "length reply = client_max_length"
  shows "receiver_loop ver (map (\<lambda>(bs, up). \<lparr>going_on = True, received = Some bs, round_up = up\<rparr>) ds) reply =
    List.map_filter (\<lambda>(bs, up). datagram_packet bs) ds"
  using assms
proof (induction ds arbitrary: reply)
  case Nil
  then show ?case
    by (simp add: map_filter_simps)
next
  case (Cons d ds)
  obtain bs up where d: "d = (bs, up)"
    by fastforce
  let ?got = "take client_max_length bs"
  let ?reply = "write_at 0 ?got reply"
  have l: "length ?reply = client_max_length"
    using Cons.prems by simp
  have "RawUdpClientImpl_makePacket ver up ?reply (length ?got) = RawUdpClientImpl_makePacket ver up ?got (length ?got)"
    by (rule client_parser.parse_local) (use l in \<open>simp_all add: write_at_0\<close>)
  also have "\<dots> = datagram_packet bs"
    using client_parser.parse_eq [of "length ?got" ?got ver up]
    by (simp add: datagram_packet_def client_max_length_def max_length_def Let_def not_less) arith
  finally show ?case
    using Cons.IH [OF l] by (simp add: d Let_def map_filter_simps split: option.split)
qed

text \<open>
  The receiver thread. While its flag is set and no receive fails, it hands over, in order,
  exactly the packets of the datagrams that are complete, each read as the server reads it;
  leftovers of earlier datagrams in the shared array never reach a packet.
\<close>
lemma receiver_hands_over_packets:
  assumes "length reply = client_max_length"
  shows "receiver_loop ver (map (\<lambda>(bs, up). \<lparr>going_on = True, received = Some bs, round_up = up\<rparr>) ds) reply =
    List.map_filter (\<lambda>(bs, up). datagram_packet bs) ds"
  by (rule receiver_loop_packets [OF assms])

lemma receiver_hands_over_packets_witness:
  "receiver_loop 0 (map (\<lambda>(bs, up). \<lparr>going_on = True, received = Some bs, round_up = up\<rparr>)
     [([1, 2, 3], 5), (wholePacket (NetPacket_new 0 0 7 1), 6)]) (replicate 1024 0) =
   [NetPacket_new 0 0 7 1]"
proof -
  have "datagram_packet [1, 2, 3] = None"
    by (simp add: datagram_packet_def max_length_def announced_def)
  moreover have "datagram_packet (wholePacket (NetPacket_new 0 0 7 1)) = Some (NetPacket_new 0 0 7 1)"
    by (rule datagram_packet_wf [OF packet_wf_new]) (simp add: NetPacket_new_eq max_length_def)
  ultimately show ?thesis
    using receiver_hands_over_packets [of "replicate 1024 0" 0
      "[([1, 2, 3], 5), (wholePacket (NetPacket_new 0 0 7 1), 6)]"]
    by (simp add: client_max_length_def map_filter_simps)
qed

text \<open>
  The results of the UDP client carry no information. A successful init returns a result that
  reads as failure, since the value true becomes the number 1; and send returns success whatever
  the socket does, so that an exception of the socket is lost.
\<close>
lemma udp_client_results:
  "(\<forall>impl. RawUdpClientImpl_new resolve host port = Inr impl \<longrightarrow>
      (\<exists>ret. RawUdpClient_init resolve host port = Inr (ret, Some impl) \<and> \<not> ok ret)) \<and>
   ok (fst (RawUdpClient_send send_to p impl))"
  by (simp add: RawUdpClient_init_def RawUdpClient_send_def RawUdpClientImpl_send_def case_prod_beta)

lemma udp_client_results_witness:
  "\<exists>ret. RawUdpClient_init (\<lambda>_ _. Inr [(7 :: nat)]) ''h'' ''80'' =
     Inr (ret, Some \<lparr>udp_endpoints = [7], isGoingOn = True\<rparr>) \<and> \<not> ok ret"
  using udp_client_results [of "\<lambda>_ _. Inr [(7 :: nat)]" "''h''" "''80''" "\<lambda>_ _. None"
    "NetPacket_new 0 0 1 0" "\<lparr>udp_endpoints = [(7 :: nat)], isGoingOn = True\<rparr>"]
  by (simp add: RawUdpClientImpl_new_def)

end
