(* ===== verification/Volume_Meter.thy ===== *)
theory Volume_Meter
  imports Complex_Main Return_Type
begin

text \<open>
  PCM segments and the volume meters: include/AudioCommon.hpp, include/ZeroCrossingRate.hpp and
  client_essential/audio_engine/AudioVolumeMeter_Peak.hpp, AudioVolumeMeter_RMS.hpp.

  A sample is a 16-bit word read as two's complement. The level of the peak meter is computed in
  int, as in the code. Where the code computes in double (the RMS meter and the zero crossing
  rate) the model computes in real numbers; what is stated of these results is monotone in the
  rounded operations and has bounds that are doubles. The readings of the system clock that a call
  makes are its arguments, in the order in which the code makes them.
\<close>

definition sampleRate :: nat where
  "sampleRate = 16000"

definition blockSize :: nat where
  "blockSize = sampleRate div 100"

lemma blockSize_160 [bounds]: "blockSize = 160"
  by (simp add: blockSize_def sampleRate_def)

type_synonym PcmSegment = "i16 list"

datatype AudioInOut = In | Out

record AudioIoVolume =
  io :: AudioInOut
  level :: u8
  recentMaxLevel :: u8

definition MAX_VOLUME_LEVEL :: nat where
  "MAX_VOLUME_LEVEL = 10"

lemma abs_sint_i16 [bounds]: "\<bar>sint (x :: i16)\<bar> \<le> 32768"
  using sint_greater_eq [of x] sint_less [of x] by simp

lemma sint_of_int_i16: "- 32768 \<le> k \<Longrightarrow> k < 32768 \<Longrightarrow> sint (of_int k :: i16) = k"
  by (simp add: signed_of_int signed_take_bit_int_eq_self)

subsection \<open>The peak meter\<close>

record AudioVolumeMeter_Peak =
  pk_inOut :: AudioInOut
  pk_recentMaxLevel :: u8
  pk_lastTimeStamp :: timepoint

definition AudioVolumeMeter_Peak_new :: "AudioInOut \<Rightarrow> timepoint \<Rightarrow> AudioVolumeMeter_Peak" where
  "AudioVolumeMeter_Peak_new inOut now =
     \<lparr>pk_inOut = inOut, pk_recentMaxLevel = 0, pk_lastTimeStamp = now\<rparr>"

definition peak_level :: "PcmSegment \<Rightarrow> u8" where
  "peak_level buffer =
     (let currentL = foldl (\<lambda>currentL b. let absB = \<bar>sint b\<bar> in
                              if absB > currentL then absB else currentL) 0 buffer;
          currentLevel = of_int (drop_bit 15 (currentL * int MAX_VOLUME_LEVEL)) :: u8
      in if uint currentLevel > int MAX_VOLUME_LEVEL - 1 then of_nat (MAX_VOLUME_LEVEL - 1)
         else currentLevel)"

definition AudioVolumeMeter_Peak_calculate ::
    "PcmSegment \<Rightarrow> timepoint \<times> timepoint \<times> timepoint \<Rightarrow> AudioVolumeMeter_Peak \<Rightarrow>
     AudioVolumeMeter_Peak \<times> AudioIoVolume" where
  "AudioVolumeMeter_Peak_calculate buffer clock m =
     (case clock of (now, now2, now3) \<Rightarrow>
       let currentLevel = peak_level buffer;
           elapsed = now - pk_lastTimeStamp m;
           m = (if elapsed > one_second
                then m\<lparr>pk_recentMaxLevel := 0, pk_lastTimeStamp := now2\<rparr> else m);
           m = (if currentLevel > pk_recentMaxLevel m
                then m\<lparr>pk_recentMaxLevel := currentLevel, pk_lastTimeStamp := now3\<rparr> else m)
       in (m, \<lparr>io = pk_inOut m, level = currentLevel, recentMaxLevel = pk_recentMaxLevel m\<rparr>))"

text \<open>The greatest absolute sample of a segment.\<close>

definition peak :: "PcmSegment \<Rightarrow> int" where
  "peak buffer = foldr (\<lambda>b m. max \<bar>sint b\<bar> m) buffer 0"

lemma foldl_peak:
  "0 \<le> n \<Longrightarrow>
     foldl (\<lambda>m b. if m < \<bar>sint b\<bar> then \<bar>sint b\<bar> else m) n buffer = max n (peak buffer)"
proof (induction buffer arbitrary: n)
  case (Cons b buffer)
  have "0 \<le> max n \<bar>sint b\<bar>" by simp
  from Cons.IH [OF this] show ?case
    by (simp add: peak_def Let_def max_def split: if_splits)
qed (simp add: peak_def)

lemma peak_bounds [bounds]: "0 \<le> peak buffer" "peak buffer \<le> 32768"
  by (induction buffer) (auto simp: peak_def intro: order.trans abs_sint_i16)

lemma peak_ge: "b \<in> set buffer \<Longrightarrow> \<bar>sint b\<bar> \<le> peak buffer"
  by (induction buffer) (auto simp: peak_def)

lemma uint_peak_level: "uint (peak_level buffer) = min 9 (peak buffer * 10 div 32768)"
proof -
  let ?q = "peak buffer * 10 div 32768"
  have q: "0 \<le> ?q" "?q \<le> 10"
    using peak_bounds [of buffer] by auto
  then have "uint (of_int ?q :: u8) = ?q"
    by (simp add: uint_word_of_int_eq take_bit_int_eq_self)
  moreover have "drop_bit 15 (max 0 (peak buffer) * 10) = ?q"
    using peak_bounds [of buffer] by (simp add: drop_bit_eq_div max_def)
  ultimately show ?thesis
    using q by (simp add: peak_level_def foldl_peak MAX_VOLUME_LEVEL_def Let_def min_def)
qed

lemma peak_level_le_9: "peak_level buffer \<le> 9"
  using uint_peak_level [of buffer] by (simp add: word_le_def)

subsection \<open>The RMS meter\<close>

text \<open>The two variables that are static in calculate, absent before the first call.\<close>

record rms_static =
  rms_recentMaxLevel :: u8
  rms_lastTimeStamp :: timepoint

definition rms_level :: "PcmSegment \<Rightarrow> nat \<Rightarrow> u8" where
  "rms_level buffer maxLevel =
     (let s = foldl (\<lambda>s b. s + (real_of_int (sint b) / 2 ^ 15) * (real_of_int (sint b) / 2 ^ 15)) 0 buffer;
          s = s / real (length buffer);
          s = sqrt s
      in of_int \<lfloor>sqrt s * real maxLevel\<rfloor>)"

definition AudioVolumeMeter_RMS_calculate ::
    "AudioInOut \<Rightarrow> PcmSegment \<Rightarrow> timepoint \<times> timepoint \<times> timepoint \<times> timepoint \<Rightarrow> rms_static option \<Rightarrow>
     rms_static \<times> AudioIoVolume" where
  "AudioVolumeMeter_RMS_calculate inOut buffer clock st =
     (case clock of (now0, now, now2, now3) \<Rightarrow>
       let currentLevel = rms_level buffer MAX_VOLUME_LEVEL;
           currentLevel = (if uint currentLevel > int MAX_VOLUME_LEVEL - 1
                           then of_nat (MAX_VOLUME_LEVEL - 1) else currentLevel);
           m = (case st of Some m \<Rightarrow> m
                | None \<Rightarrow> \<lparr>rms_recentMaxLevel = currentLevel, rms_lastTimeStamp = now0\<rparr>);
           elapsed = now - rms_lastTimeStamp m;
           m = (if elapsed > one_second
                then m\<lparr>rms_recentMaxLevel := 0, rms_lastTimeStamp := now2\<rparr> else m);
           m = (if currentLevel > rms_recentMaxLevel m
                then m\<lparr>rms_recentMaxLevel := currentLevel, rms_lastTimeStamp := now3\<rparr> else m)
       in (m, \<lparr>io = inOut, level = currentLevel, recentMaxLevel = rms_recentMaxLevel m\<rparr>))"

lemma foldl_sum: "foldl (\<lambda>s b. s + f b) a xs = a + (\<Sum>b\<leftarrow>xs. f b :: real)"
  by (induction xs arbitrary: a) simp_all

lemma mean_square_bounds:
  assumes "buffer \<noteq> []"
  defines "s \<equiv> (\<Sum>b\<leftarrow>buffer. (real_of_int (sint (b :: i16)) / 2 ^ 15) * (real_of_int (sint b) / 2 ^ 15))
    / real (length buffer)"
  shows "0 \<le> s" and "s \<le> 1"
proof -
  let ?f = "\<lambda>b :: i16. (real_of_int (sint b) / 2 ^ 15) * (real_of_int (sint b) / 2 ^ 15)"
  have "?f b \<le> 1" for b
  proof -
    have "\<bar>real_of_int (sint b) / 2 ^ 15\<bar> \<le> 1"
    proof -
      have "\<bar>real_of_int (sint b)\<bar> \<le> real_of_int 32768"
        using abs_sint_i16 [of b] by (simp only: of_int_abs [symmetric] of_int_le_iff)
      then show ?thesis by (simp only: abs_divide) simp
    qed
    then have "\<bar>real_of_int (sint b) / 2 ^ 15\<bar> * \<bar>real_of_int (sint b) / 2 ^ 15\<bar> \<le> 1 * 1"
      by (intro mult_mono) auto
    then show ?thesis
      by (metis abs_mult_self_eq mult_1)
  qed
  then have "(\<Sum>b\<leftarrow>buffer. ?f b) \<le> (\<Sum>b\<leftarrow>buffer. 1)"
    by (intro sum_list_mono)
  then show "s \<le> 1"
    using assms by (simp add: s_def sum_list_triv)
  have "0 \<le> (\<Sum>b\<leftarrow>buffer. ?f b)"
    by (intro sum_list_nonneg) auto
  then show "0 \<le> s"
    by (simp add: s_def)
qed

lemma uint_rms_level:
  assumes "buffer \<noteq> []"
  shows "uint (rms_level buffer 10) \<le> 10"
proof -
  let ?s = "(\<Sum>b\<leftarrow>buffer. (real_of_int (sint b) / 2 ^ 15) * (real_of_int (sint b) / 2 ^ 15))
    / real (length buffer)"
  have "sqrt (sqrt ?s) * 10 \<le> 10" "0 \<le> sqrt (sqrt ?s) * 10"
    using mean_square_bounds [OF assms] by simp_all
  then have "\<lfloor>sqrt (sqrt ?s) * 10\<rfloor> \<le> 10" "0 \<le> \<lfloor>sqrt (sqrt ?s) * 10\<rfloor>"
    by linarith+
  then have "uint (of_int \<lfloor>sqrt (sqrt ?s) * 10\<rfloor> :: u8) = \<lfloor>sqrt (sqrt ?s) * 10\<rfloor>"
    by (simp add: uint_word_of_int_eq take_bit_int_eq_self)
  then show ?thesis
    using \<open>\<lfloor>sqrt (sqrt ?s) * 10\<rfloor> \<le> 10\<close> by (simp add: rms_level_def foldl_sum Let_def)
qed


subsection \<open>The zero crossing rate\<close>

definition zero_crossings :: "PcmSegment \<Rightarrow> nat" where
  "zero_crossings oneSegment =
     (let positiveArray = map (\<lambda>i. sint (oneSegment ! i) > 0) [0..<blockSize]
      in foldl (\<lambda>s i. if positiveArray ! (i - 1) \<noteq> positiveArray ! i then s + 1 else s) 0
           [1..<length oneSegment])"

definition ZeroCrossingRate :: "PcmSegment \<Rightarrow> real" where
  "ZeroCrossingRate oneSegment = real (zero_crossings oneSegment) / real blockSize"

lemma foldl_count:
  "foldl (\<lambda>s i. if P i then s + 1 else s) n is = n + length (filter P is)"
  by (induction "is" arbitrary: n) auto

text \<open>
  The zero crossing rate of a segment of 160 samples counts the positions where the predicate
  "the sample is positive" changes, over 160; it lies between 0 and 159/160.
\<close>
lemma zero_crossing_rate:
  assumes "length seg = blockSize"
  shows "ZeroCrossingRate seg * 160 =
      real (card {i. Suc i < 160 \<and> (sint (seg ! i) > 0) \<noteq> (sint (seg ! Suc i) > 0)}) \<and>
    0 \<le> ZeroCrossingRate seg \<and> ZeroCrossingRate seg \<le> 159 / 160"
proof -
  let ?p = "\<lambda>i. sint (seg ! i) > 0"
  let ?is = "filter (\<lambda>i. ?p (i - 1) \<noteq> ?p i) [1..<160]"
  have "zero_crossings seg = length (filter (\<lambda>i. map ?p [0..<160] ! (i - 1) \<noteq> map ?p [0..<160] ! i) [1..<160])"
    using assms by (simp add: zero_crossings_def foldl_count blockSize_160 Let_def)
  also have "\<dots> = length ?is"
    by (intro arg_cong [of _ _ length] filter_cong) auto
  finally have z: "zero_crossings seg = length ?is" .
  have "set ?is = Suc ` {i. Suc i < 160 \<and> ?p i \<noteq> ?p (Suc i)}"
  proof (intro set_eqI iffI)
    fix i
    assume "i \<in> set ?is"
    then have "1 \<le> i" "i < 160" "?p (i - 1) \<noteq> ?p i"
      by simp_all
    then have "i = Suc (i - 1)" "Suc (i - 1) < 160" "?p (i - 1) \<noteq> ?p (Suc (i - 1))"
      by simp_all
    then show "i \<in> Suc ` {i. Suc i < 160 \<and> ?p i \<noteq> ?p (Suc i)}"
      by blast
  qed auto
  then have "card (set ?is) = card {i. Suc i < 160 \<and> ?p i \<noteq> ?p (Suc i)}"
    by (simp add: card_image)
  then have c: "zero_crossings seg = card {i. Suc i < 160 \<and> ?p i \<noteq> ?p (Suc i)}"
    using z distinct_card [of ?is] by simp
  have "length ?is \<le> 159"
    using length_filter_le [of "\<lambda>i. ?p (i - 1) \<noteq> ?p i" "[1..<160]"] by simp
  then show ?thesis
    using z c by (simp add: ZeroCrossingRate_def blockSize_160)
qed

lemma zero_crossing_rate_witness:
  "0 \<le> ZeroCrossingRate (replicate 160 7) \<and> ZeroCrossingRate (replicate 160 7) \<le> 159 / 160"
  using zero_crossing_rate [of "replicate 160 7"] by (simp add: blockSize_160)

subsection \<open>The interface of a volume meter\<close>

text \<open>
  Both meters hold the highest level of the last second: a call returns its own level and the
  held one, and after more than one second without a new highest level the held one drops to the
  level of the call. The locale states this contract over a meter's held level and the time of its
  last reset; what follows from it is proved once.
\<close>

locale volume_meter =
  fixes calculate :: "PcmSegment \<Rightarrow> timepoint \<times> timepoint \<times> timepoint \<Rightarrow> 'm \<Rightarrow> 'm \<times> AudioIoVolume"
    and held :: "'m \<Rightarrow> u8"
    and reset_time :: "'m \<Rightarrow> timepoint"
    and good :: "PcmSegment \<Rightarrow> bool"
  assumes level_le: "good seg \<Longrightarrow> level (snd (calculate seg clk m)) \<le> 9"
    and reports_held: "recentMaxLevel (snd (calculate seg clk m)) = held (fst (calculate seg clk m))"
    and expired: "now - reset_time m > one_second \<Longrightarrow>
      held (fst (calculate seg (now, t2, t3) m)) = level (snd (calculate seg (now, t2, t3) m)) \<and>
      reset_time (fst (calculate seg (now, t2, t3) m)) \<in> {t2, t3}"
    and held_max: "now - reset_time m \<le> one_second \<Longrightarrow>
      held (fst (calculate seg (now, t2, t3) m)) =
        max (held m) (level (snd (calculate seg (now, t2, t3) m))) \<and>
      reset_time (fst (calculate seg (now, t2, t3) m)) \<in> {reset_time m, t3}"
begin

fun run :: "(PcmSegment \<times> timepoint \<times> timepoint \<times> timepoint) list \<Rightarrow> 'm \<Rightarrow> 'm \<times> AudioIoVolume list" where
  "run [] m = (m, [])"
| "run ((seg, clk) # calls) m =
     (let (m1, v) = calculate seg clk m; (m2, vs) = run calls m1 in (m2, v # vs))"

lemma held_le_9:
  assumes "good seg" and "held m \<le> 9"
  shows "held (fst (calculate seg clk m)) \<le> 9"
    and "level (snd (calculate seg clk m)) \<le> recentMaxLevel (snd (calculate seg clk m))"
proof -
  obtain now t2 t3 where clk: "clk = (now, t2, t3)"
    by (cases clk)
  have l: "level (snd (calculate seg clk m)) \<le> 9"
    by (rule level_le) (rule assms(1))
  show "held (fst (calculate seg clk m)) \<le> 9"
    using l assms(2) expired [of now m seg t2 t3] held_max [of now m seg t2 t3]
    by (cases "now - reset_time m > one_second") (auto simp: clk)
  show "level (snd (calculate seg clk m)) \<le> recentMaxLevel (snd (calculate seg clk m))"
    using expired [of now m seg t2 t3] held_max [of now m seg t2 t3]
    by (cases "now - reset_time m > one_second") (auto simp: clk reports_held)
qed

lemma held_within_second:
  assumes "run calls m = (m', vs)" and "t0 \<le> reset_time m"
    and "\<And>seg now t2 t3. (seg, now, t2, t3) \<in> set calls \<Longrightarrow> now \<le> t0 + one_second \<and> t0 \<le> t3"
  shows "held m' = Max (insert (held m) (level ` set vs))"
  using assms
proof (induction calls arbitrary: m vs)
  case (Cons call calls)
  obtain seg now t2 t3 where call: "call = (seg, now, t2, t3)"
    by (cases call) auto
  obtain m1 v where c: "calculate seg (now, t2, t3) m = (m1, v)"
    by fastforce
  obtain vs1 where r: "run calls m1 = (m', vs1)" and vs: "vs = v # vs1"
    using Cons.prems(1) by (auto simp: call c split: prod.splits)
  have b: "now \<le> t0 + one_second" "t0 \<le> t3"
    using Cons.prems(3) [of seg now t2 t3] by (auto simp: call)
  then have h: "held m1 = max (held m) (level v)" "reset_time m1 \<in> {reset_time m, t3}"
    using held_max [of now m seg t2 t3] Cons.prems(2) by (auto simp: c)
  with b Cons.prems(2) have "t0 \<le> reset_time m1"
    by auto
  then have "held m' = Max (insert (held m1) (level ` set vs1))"
    using Cons.IH [OF r] Cons.prems(3) by auto
  then show ?case
    by (cases vs1) (simp_all add: h(1) vs max.assoc)
qed simp

lemma held_since_reset:
  assumes "now - reset_time m > one_second"
    and "run ((seg, now, t2, t3) # calls) m = (m', vs)" and "t2 \<le> t3"
    and "\<And>seg now u2 u3. (seg, now, u2, u3) \<in> set calls \<Longrightarrow> now \<le> t2 + one_second \<and> t2 \<le> u3"
  shows "held m' = Max (level ` set vs)"
proof -
  obtain m1 v where c: "calculate seg (now, t2, t3) m = (m1, v)"
    by fastforce
  obtain vs1 where r: "run calls m1 = (m', vs1)" and vs: "vs = v # vs1"
    using assms(2) by (auto simp: c split: prod.splits)
  have "held m1 = level v" "t2 \<le> reset_time m1"
    using expired [OF assms(1), of seg t2 t3] assms(3) by (auto simp: c)
  then show ?thesis
    using held_within_second [OF r _ assms(4)] by (simp add: vs)
qed

end

interpretation peak_meter: volume_meter AudioVolumeMeter_Peak_calculate
  pk_recentMaxLevel pk_lastTimeStamp "\<lambda>_. True"
  by unfold_locales
    (auto simp: AudioVolumeMeter_Peak_calculate_def peak_level_le_9 Let_def max_def not_less
      not_le split: prod.splits)

text \<open>The RMS meter once its static variables are initialised; the first reading is then unused.\<close>

interpretation rms_meter: volume_meter
  "\<lambda>seg (now, t2, t3) m. AudioVolumeMeter_RMS_calculate inOut seg (now, now, t2, t3) (Some m)"
  rms_recentMaxLevel rms_lastTimeStamp "\<lambda>seg. seg \<noteq> []" for inOut
proof (unfold_locales, goal_cases)
  case (1 seg clk m)
  then show ?case
    using uint_rms_level [OF 1]
    by (auto simp: AudioVolumeMeter_RMS_calculate_def MAX_VOLUME_LEVEL_def Let_def word_le_def
        split: prod.splits)
qed (auto simp: AudioVolumeMeter_RMS_calculate_def Let_def max_def not_less not_le split: prod.splits)

subsection \<open>Properties of the meters\<close>

text \<open>
  The level of the peak meter. For every segment the returned level is ten times the greatest
  absolute sample over 2^15, cut to 9; it is never above the held level that is returned with it,
  and if the held level was at most 9 before the call it is so afterwards. So both returned levels
  index the ten bars of the user interface.
\<close>
lemma peak_meter_levels:
  assumes "AudioVolumeMeter_Peak_calculate buffer clock m = (m', v)" and "pk_recentMaxLevel m \<le> 9"
  shows "uint (level v) = min 9 (10 * peak buffer div 32768) \<and>
    level v \<le> recentMaxLevel v \<and> recentMaxLevel v \<le> 9 \<and> pk_recentMaxLevel m' \<le> 9 \<and> io v = pk_inOut m"
proof -
  have "level v = peak_level buffer" "io v = pk_inOut m"
    using assms(1) by (auto simp: AudioVolumeMeter_Peak_calculate_def Let_def split: prod.splits if_splits)
  moreover have "pk_recentMaxLevel m' \<le> 9" "level v \<le> recentMaxLevel v"
    "recentMaxLevel v = pk_recentMaxLevel m'"
    using peak_meter.held_le_9 [OF TrueI assms(2), of buffer clock]
      peak_meter.reports_held [of buffer clock m] assms(1) by simp_all
  ultimately show ?thesis
    by (simp add: uint_peak_level mult.commute)
qed

lemma peak_meter_levels_witness:
  "\<exists>m' v. AudioVolumeMeter_Peak_calculate [100, - 16384] (5, 6, 7) (AudioVolumeMeter_Peak_new In 0) = (m', v) \<and>
     uint (level v) = 5"
proof -
  obtain m' v where c: "AudioVolumeMeter_Peak_calculate [100, - 16384] (5, 6, 7)
      (AudioVolumeMeter_Peak_new In 0) = (m', v)"
    by fastforce
  have "peak [100, - 16384] = 16384"
    by (simp add: peak_def)
  with peak_meter_levels [OF c] c show ?thesis
    by (auto simp: AudioVolumeMeter_Peak_new_def)
qed

text \<open>
  The hold of the peak meter. After a call that comes more than one second after the last
  reset, and as long as the clock readings of the further calls stay within one second of that
  call and do not go back, the held level is the maximum of all levels returned since that call:
  the bar shows the loudest block of the running second and forgets everything before it.
\<close>
lemma peak_meter_holds_one_second:
  assumes "now - pk_lastTimeStamp m > one_second" and "t2 \<le> t3"
    and "peak_meter.run ((seg, now, t2, t3) # calls) m = (m', vs)"
    and "\<And>seg now u2 u3. (seg, now, u2, u3) \<in> set calls \<Longrightarrow> now \<le> t2 + one_second \<and> t2 \<le> u3"
  shows "pk_recentMaxLevel m' = Max (level ` set vs)"
  by (rule peak_meter.held_since_reset [OF assms(1,3,2,4)])

lemma peak_meter_holds_one_second_witness:
  "\<exists>m' vs. peak_meter.run
     [([16384], 2000000000, 2000000001, 2000000002), ([100], 2010000000, 2010000001, 2010000002)]
     (AudioVolumeMeter_Peak_new In 0) = (m', vs) \<and> pk_recentMaxLevel m' = Max (level ` set vs)"
proof -
  obtain m' vs where r: "peak_meter.run
     [([16384], 2000000000, 2000000001, 2000000002), ([100], 2010000000, 2010000001, 2010000002)]
     (AudioVolumeMeter_Peak_new In 0) = (m', vs)"
    by fastforce
  have "pk_recentMaxLevel m' = Max (level ` set vs)"
    by (rule peak_meter_holds_one_second [OF _ _ r]) (auto simp: AudioVolumeMeter_Peak_new_def)
  with r show ?thesis
    by blast
qed

end
