(* ===== verification/Concealment.thy ===== *)
theory Concealment
  imports Volume_Meter
begin

text \<open>
  Packet loss concealment: client_essential/audio_engine/Fade.hpp and
  PacketLossConcealment_ZeroInsertion.hpp.

  The code fades segments in place through shared pointers, so segments live in a store from
  addresses to sample arrays and the fader gets a vector of addresses. A throw without an exception
  in flight ends the process, a failed assert aborts it, an access outside a vector or through a
  null pointer and a conversion of a float out of range are undefined: each is a value of the type fault. The factors
  are real numbers; the tests the code makes on them compare values that differ by more than one percent, far above the rounding of a double.
\<close>

text \<open>
  PastSize is a read behind the size of a vector that still owns the storage there: the bytes exist, but they are no
  elements, and the valid range of data() ends at size(). A compiled program copies what the storage holds; a model of
  what the language defines stops there, and keeps it apart from OutOfBounds, which leaves the storage or fails a check.
\<close>

datatype fault = Terminate | AssertionFailed | OutOfBounds | PastSize | NullPointer | BadConversion

type_synonym store = "nat \<Rightarrow> PcmSegment"

datatype FadeInOut = FadeIn | FadeOut

definition nbSegment :: nat where
  "nbSegment = 2"

definition dbl_max :: real where
  "dbl_max = (2 - 1 / 2 ^ 52) * 2 ^ 1023"

definition dbl_epsilon :: real where
  "dbl_epsilon = 1 / 2 ^ 52"

text \<open>The compound assignment of a double factor to an int16_t: multiply, then cut towards zero.\<close>

definition scale_sample :: "i16 \<Rightarrow> real \<Rightarrow> i16" where
  "scale_sample x f =
     (let y = real_of_int (sint x) * f in of_int (if 0 \<le> y then \<lfloor>y\<rfloor> else \<lceil>y\<rceil>))"

definition fade_width :: real where
  "fade_width = (let minFactor = 0.01; minX = ln minFactor in - minX / real (blockSize * nbSegment))"

definition fade_step ::
    "FadeInOut \<Rightarrow> nat list \<Rightarrow> nat \<times> nat \<Rightarrow> store \<times> real \<Rightarrow> fault + store \<times> real" where
  "fade_step inOrOut segments ij st =
     (case (ij, st) of ((indexSegment, posOfOneSeg), (h, lastFactor)) \<Rightarrow>
       let currentSegmentIndex = length segments - nbSegment + indexSegment;
           indexSample = indexSegment * blockSize + posOfOneSeg;
           indexSample = (if inOrOut = FadeIn then length segments * blockSize - indexSample
                          else indexSample);
           finalX = fade_width * real indexSample
       in if \<not> currentSegmentIndex < length segments then Inl OutOfBounds
          else
            let finalFactor = exp (- finalX) in
            if finalFactor > 1 + dbl_epsilon then Inl Terminate
            else if inOrOut = FadeIn \<and> finalFactor < lastFactor then Inl Terminate
            else if inOrOut = FadeOut \<and> finalFactor > lastFactor then Inl Terminate
            else
              let p = segments ! currentSegmentIndex
              in Inr (h(p := (h p)[posOfOneSeg := scale_sample (h p ! posOfOneSeg) finalFactor]),
                      finalFactor))"

fun fade_loop ::
    "FadeInOut \<Rightarrow> nat list \<Rightarrow> (nat \<times> nat) list \<Rightarrow> store \<times> real \<Rightarrow> fault + store \<times> real" where
  "fade_loop inOrOut segments [] st = Inr st"
| "fade_loop inOrOut segments (ij # ijs) st =
     (case fade_step inOrOut segments ij st of
        Inl e \<Rightarrow> Inl e
      | Inr st' \<Rightarrow> fade_loop inOrOut segments ijs st')"

definition positions :: "nat \<Rightarrow> (nat \<times> nat) list" where
  "positions n = concat (map (\<lambda>i. map (Pair i) [0..<blockSize]) [0..<n])"

definition FadeExponential_fade :: "FadeInOut \<Rightarrow> nat list \<Rightarrow> store \<Rightarrow> fault + store" where
  "FadeExponential_fade inOrOut segments h =
     (if \<not> nbSegment \<le> length segments then Inl AssertionFailed
      else
        (case fade_loop inOrOut segments (positions (length segments)) (h, dbl_max) of
           Inl e \<Rightarrow> Inl e
         | Inr (h', _) \<Rightarrow> Inr h'))"

text \<open>memset counts bytes; a sample has two of them.\<close>

definition memset_zero :: "nat \<Rightarrow> PcmSegment \<Rightarrow> PcmSegment" where
  "memset_zero nbByte seg = replicate (nbByte div 2) 0 @ drop (nbByte div 2) seg"

definition ZeroInsertion_predict :: "nat list \<Rightarrow> nat \<Rightarrow> store \<Rightarrow> fault + bool \<times> store" where
  "ZeroInsertion_predict older outputSegment h =
     (case FadeExponential_fade FadeOut older h of
        Inl e \<Rightarrow> Inl e
      | Inr h' \<Rightarrow>
          Inr (True, h'(outputSegment := memset_zero (length (h' outputSegment)) (h' outputSegment))))"

subsection \<open>The factors\<close>

definition fade_factor :: "nat \<Rightarrow> real" where
  "fade_factor i = exp (- (fade_width * real i))"

lemma fade_width_pos: "0 < fade_width"
  by (simp add: fade_width_def nbSegment_def blockSize_160 Let_def)

lemma fade_factor_le_1: "fade_factor i \<le> 1" and fade_factor_pos: "0 < fade_factor i"
  using fade_width_pos by (simp_all add: fade_factor_def)

lemma fade_factor_mono: "i \<le> j \<Longrightarrow> fade_factor j \<le> fade_factor i"
  using fade_width_pos by (simp add: fade_factor_def)

lemma fade_factor_320: "fade_factor 320 = 1 / 100"
  by (simp add: fade_factor_def fade_width_def nbSegment_def blockSize_160 Let_def)

lemma dbl_max_gt_1: "1 < dbl_max"
proof -
  have a: "(1 :: real) / 2 ^ 52 < 1" and b: "(1 :: real) < 2 ^ 1023"
    by (simp, rule one_less_power) simp_all
  have "(1 :: real) * 1 < (2 - 1 / 2 ^ 52) * 2 ^ 1023"
    by (rule mult_strict_mono) (use a b in linarith)+
  then show ?thesis
    unfolding dbl_max_def by simp
qed

lemma dbl_epsilon_pos: "0 < dbl_epsilon"
  by (simp add: dbl_epsilon_def)

text \<open>Scaling by a factor between 0 and 1 keeps the sign and never makes a sample louder.\<close>

lemma sint_scale_sample:
  assumes "0 \<le> f" and "f \<le> 1"
  shows "sint (scale_sample x f) =
      (let y = real_of_int (sint x) * f in if 0 \<le> y then \<lfloor>y\<rfloor> else \<lceil>y\<rceil>)"
    and "\<bar>sint (scale_sample x f)\<bar> \<le> \<bar>sint x\<bar>"
    and "0 \<le> sint (scale_sample x f) * sint x"
proof -
  define v where "v = real_of_int (sint x)"
  define y where "y = v * f"
  let ?t = "if 0 \<le> y then \<lfloor>y\<rfloor> else \<lceil>y\<rceil>"
  have yb: "\<bar>y\<bar> \<le> \<bar>v\<bar>"
    using assms by (simp add: y_def abs_mult mult_left_le)
  have sgn: "0 \<le> v \<longrightarrow> 0 \<le> y" "v \<le> 0 \<longrightarrow> y \<le> 0"
    using assms by (simp_all add: y_def mult_nonpos_nonneg)
  have vi: "v = real_of_int (sint x)"
    by (simp add: v_def)
  have t: "\<bar>?t\<bar> \<le> \<bar>sint x\<bar>" "0 \<le> sint x \<longrightarrow> 0 \<le> ?t" "sint x \<le> 0 \<longrightarrow> ?t \<le> 0"
    using yb sgn unfolding vi by (auto simp del: of_int_sint) linarith+
  have "- 32768 \<le> sint x" "sint x < 32768"
    using sint_greater_eq [of x] sint_less [of x] by simp_all
  moreover have "- 32768 \<le> T \<and> T < 32768" if "\<bar>T\<bar> \<le> \<bar>S\<bar>" "0 \<le> S \<longrightarrow> 0 \<le> T" "S \<le> 0 \<longrightarrow> T \<le> 0"
    "- 32768 \<le> S" "S < 32768" for S T :: int
    using that by linarith
  ultimately have "- 32768 \<le> ?t \<and> ?t < 32768"
    using t by blast
  then have s: "sint (of_int ?t :: i16) = ?t"
    using sint_of_int_i16 by blast
  show "sint (scale_sample x f) =
      (let y = real_of_int (sint x) * f in if 0 \<le> y then \<lfloor>y\<rfloor> else \<lceil>y\<rceil>)"
    using s unfolding scale_sample_def Let_def y_def v_def .
  then have e: "sint (scale_sample x f) = ?t"
    unfolding y_def v_def Let_def .
  show "\<bar>sint (scale_sample x f)\<bar> \<le> \<bar>sint x\<bar>"
    using t(1) by (simp add: e)
  show "0 \<le> sint (scale_sample x f) * sint x"
    using t(2,3) unfolding e by (cases "0 \<le> sint x") (simp_all add: mult_nonpos_nonpos)
qed


subsection \<open>The loop of a fade-out\<close>

text \<open>The store after a list of positions, with no check in the way.\<close>

definition fade_write :: "nat list \<Rightarrow> nat \<times> nat \<Rightarrow> store \<Rightarrow> store" where
  "fade_write segments ij h =
     (let p = segments ! (length segments - 2 + fst ij) in
      h(p := (h p)[snd ij := scale_sample (h p ! snd ij) (fade_factor (fst ij * 160 + snd ij))]))"

lemma fade_step_out:
  assumes "2 \<le> length segments" and "fst ij < 2" and "fade_factor (fst ij * 160 + snd ij) \<le> lf"
  shows "fade_step FadeOut segments ij (h, lf) =
    Inr (fade_write segments ij h, fade_factor (fst ij * 160 + snd ij))"
proof -
  have "length segments - 2 + fst ij < length segments"
    using assms by simp
  moreover have "\<not> fade_factor n > 1 + dbl_epsilon" for n
    using fade_factor_le_1 [of n] dbl_epsilon_pos by linarith
  moreover have "\<not> lf < fade_factor (fst ij * 160 + snd ij)"
    using assms(3) by simp
  ultimately show ?thesis
    by (simp add: fade_step_def fade_write_def nbSegment_def blockSize_160 Let_def case_prod_beta
        fade_factor_def [symmetric] del: of_nat_add of_nat_mult)
qed

lemma fade_loop_out:
  assumes "2 \<le> length segments" and "\<forall>ij \<in> set ijs. fst ij < 2"
    and "sorted_wrt (\<lambda>x y. fst x * 160 + snd x \<le> fst y * 160 + snd y) ijs"
    and "\<forall>ij \<in> set ijs. fade_factor (fst ij * 160 + snd ij) \<le> lf"
  shows "\<exists>lf'. fade_loop FadeOut segments (ijs @ rest) (h, lf) =
    fade_loop FadeOut segments rest (fold (fade_write segments) ijs h, lf')"
  using assms
proof (induction ijs arbitrary: h lf)
  case Nil
  then show ?case by auto
next
  case (Cons ij ijs)
  have "fade_step FadeOut segments ij (h, lf) =
      Inr (fade_write segments ij h, fade_factor (fst ij * 160 + snd ij))"
    using Cons.prems by (intro fade_step_out) auto
  moreover have "\<forall>x \<in> set ijs. fade_factor (fst x * 160 + snd x) \<le> fade_factor (fst ij * 160 + snd ij)"
    using Cons.prems(3) by (auto intro: fade_factor_mono)
  ultimately show ?case
    using Cons.IH [of "fade_factor (fst ij * 160 + snd ij)" "fade_write segments ij h"] Cons.prems
    by simp
qed

lemma positions_split:
  "positions (n + 2) = (map (Pair 0) [0..<160] @ map (Pair 1) [0..<160]) @
     concat (map (\<lambda>i. map (Pair i) [0..<160]) [2..<n + 2])"
  by (simp add: positions_def blockSize_160 upt_conv_Cons numeral_2_eq_2 del: upt_Suc)

lemma sorted_positions:
  "sorted_wrt (\<lambda>x y. fst x * 160 + snd x \<le> fst y * 160 + snd y)
     (map (Pair 0) [0..<160] @ map (Pair 1) [0..<160 :: nat])"
  by (auto simp: sorted_wrt_append sorted_wrt_map intro: sorted_wrt_mono_rel [OF _ sorted_wrt_upt])

lemma fade_loop_two:
  assumes "2 \<le> length segments"
  shows "\<exists>lf'. fade_loop FadeOut segments
      ((map (Pair 0) [0..<160] @ map (Pair 1) [0..<160]) @ rest) (h, dbl_max) =
    fade_loop FadeOut segments rest
      (fold (fade_write segments) (map (Pair 0) [0..<160] @ map (Pair 1) [0..<160]) h, lf')"
proof (rule fade_loop_out [OF assms _ sorted_positions])
  show "\<forall>ij \<in> set (map (Pair 0) [0..<160] @ map (Pair 1) [0..<160]).
      fade_factor (fst ij * 160 + snd ij) \<le> dbl_max"
    using dbl_max_gt_1 fade_factor_le_1 by (meson less_eq_real_def order_trans)
qed auto

text \<open>One pass over the samples of one segment is a map over it.\<close>

lemma fold_sample_writes:
  "fold (\<lambda>j h. h(p := (h p)[j := g j (h p ! j)])) [0..<k] h =
     h(p := map (\<lambda>j. if j < k then g j (h p ! j) else h p ! j) [0..<length (h p)])"
proof (induction k)
  case 0
  then show ?case by (simp add: map_nth)
next
  case (Suc k)
  let ?m = "\<lambda>k xs. map (\<lambda>j. if j < k then g j (xs ! j) else xs ! j) [0..<length xs]"
  have step: "(?m k xs)[k := g k (?m k xs ! k)] = ?m (Suc k) xs" for xs
    by (rule nth_equalityI) (auto simp: nth_list_update less_Suc_eq)
  have "fold (\<lambda>j h. h(p := (h p)[j := g j (h p ! j)])) [0..<Suc k] h =
      (\<lambda>h. h(p := (h p)[k := g k (h p ! k)])) (h(p := ?m k (h p)))"
    by (simp only: upt_Suc_append fold_append comp_def Suc.IH le0 fold_simps)
  also have "\<dots> = h(p := ?m (Suc k) (h p))"
    by (simp only: fun_upd_same fun_upd_upd step)
  finally show ?case .
qed

definition faded :: "nat \<Rightarrow> PcmSegment \<Rightarrow> PcmSegment" where
  "faded i seg = map (\<lambda>j. if j < 160 then scale_sample (seg ! j) (fade_factor (i * 160 + j)) else seg ! j)
     [0..<length seg]"

lemma length_faded [simp, bounds]: "length (faded i seg) = length seg"
  by (simp add: faded_def)

lemma nth_faded: "length seg = 160 \<Longrightarrow> j < 160 \<Longrightarrow>
    faded i seg ! j = scale_sample (seg ! j) (fade_factor (i * 160 + j))"
  by (simp add: faded_def)

lemma fold_fade_write:
  "fold (fade_write segments) (map (Pair i) [0..<160]) h =
     h(segments ! (length segments - 2 + i) := faded i (h (segments ! (length segments - 2 + i))))"
  unfolding faded_def fade_write_def fold_map comp_def fst_conv snd_conv Let_def
  by (rule fold_sample_writes)

lemma FadeExponential_fade_out_two:
  "FadeExponential_fade FadeOut [a, b] h = Inr ((h(a := faded 0 (h a)))(b := faded 1 ((h(a := faded 0 (h a))) b)))"
proof -
  have "positions (length [a, b]) = (map (Pair 0) [0..<160] @ map (Pair 1) [0..<160]) @ []"
    using positions_split [of 0] by simp
  moreover obtain lf' where "fade_loop FadeOut [a, b]
      ((map (Pair 0) [0..<160] @ map (Pair 1) [0..<160]) @ []) (h, dbl_max) =
    fade_loop FadeOut [a, b] []
      (fold (fade_write [a, b]) (map (Pair 0) [0..<160] @ map (Pair 1) [0..<160]) h, lf')"
    using fade_loop_two [of "[a, b]" "[]" h] by auto
  ultimately show ?thesis
    by (simp add: FadeExponential_fade_def nbSegment_def fold_fade_write del: append_Nil2)
qed

lemma fade_factor_160: "fade_factor 160 = 1 / 10"
proof -
  have "fade_factor 160 * fade_factor 160 = exp (ln (1 / 100))"
    unfolding fade_factor_def exp_add [symmetric]
    by (simp add: fade_width_def nbSegment_def blockSize_160 Let_def field_simps)
  then have "(fade_factor 160)\<^sup>2 = (1 / 10)\<^sup>2"
    by (simp add: power2_eq_square)
  then show ?thesis
    using fade_factor_pos [of 160] by (simp add: power2_eq_iff_nonneg less_imp_le)
qed

lemma abs_scale_sample_le:
  assumes "0 \<le> f" and "f \<le> 1"
  shows "real_of_int \<bar>sint (scale_sample x f)\<bar> \<le> f * real_of_int \<bar>sint x\<bar>"
proof -
  have "\<bar>if 0 \<le> y then \<lfloor>y\<rfloor> else \<lceil>y\<rceil>\<bar> \<le> \<bar>y\<bar>" for y :: real
    by (simp split: abs_split; linarith)
  then have "real_of_int \<bar>sint (scale_sample x f)\<bar> \<le> \<bar>real_of_int (sint x) * f\<bar>"
    unfolding sint_scale_sample(1) [OF assms] Let_def by (metis of_int_abs)
  also have "\<dots> = f * real_of_int \<bar>sint x\<bar>"
    using assms(1) by (simp only: abs_mult of_int_abs abs_of_nonneg mult.commute)
  finally show ?thesis .
qed

lemma positions_Cons: "\<exists>rest. positions (Suc n) = (0, 0) # rest"
  by (simp add: positions_def blockSize_160 upt_conv_Cons del: upt_Suc)

lemma scale_sample_1: "scale_sample x 1 = x"
proof -
  have "word_of_int (sint x) = x"
    by (metis of_int_sint scast_id)
  then show ?thesis
    by (simp add: scale_sample_def Let_def del: of_int_sint)
qed

lemma positions_three:
  "\<exists>rest. positions (Suc (Suc (Suc n))) =
     (map (Pair 0) [0..<160] @ map (Pair 1) [0..<160]) @ (2, 0) # rest"
proof -
  have "[2..<Suc n + 2] = 2 # [3..<Suc n + 2]" "map (Pair (2 :: nat)) [0..<160] = (2, 0) # map (Pair 2) [1..<160]"
    by (subst upt_conv_Cons; simp del: upt_Suc)+
  then show ?thesis
    using positions_split [of "Suc n"] by (simp only: list.map concat.simps append_Cons) (metis add_2_eq_Suc')
qed

subsection \<open>Properties of the concealment\<close>

text \<open>
  C35: a fade-out of two segments. It returns, changes these two segments only and keeps their
  lengths; every sample keeps its sign and gets no louder; the first sample of the first segment
  is unchanged, and every sample of the second segment is cut to a tenth of its value or less.
\<close>
theorem fade_out_attenuates:
  assumes "a \<noteq> b" and "length (h a) = blockSize" and "length (h b) = blockSize"
  shows "\<exists>h'. FadeExponential_fade FadeOut [a, b] h = Inr h' \<and>
    (\<forall>p. p \<notin> {a, b} \<longrightarrow> h' p = h p) \<and>
    (\<forall>p \<in> {a, b}. length (h' p) = blockSize \<and>
      (\<forall>j < blockSize. \<bar>sint (h' p ! j)\<bar> \<le> \<bar>sint (h p ! j)\<bar> \<and> 0 \<le> sint (h' p ! j) * sint (h p ! j))) \<and>
    h' a ! 0 = h a ! 0 \<and>
    (\<forall>j < blockSize. real_of_int \<bar>sint (h' b ! j)\<bar> \<le> real_of_int \<bar>sint (h b ! j)\<bar> / 10)"
proof -
  let ?h = "h(a := faded 0 (h a), b := faded 1 (h b))"
  have r: "FadeExponential_fade FadeOut [a, b] h = Inr ?h"
    using assms(1) by (simp add: FadeExponential_fade_out_two)
  have f: "0 \<le> fade_factor i" "fade_factor i \<le> 1" for i
    using fade_factor_pos [of i] fade_factor_le_1 by simp_all
  have s: "\<bar>sint (faded i seg ! j)\<bar> \<le> \<bar>sint (seg ! j)\<bar>" "0 \<le> sint (faded i seg ! j) * sint (seg ! j)"
    if "length seg = 160" "j < 160" for i j and seg :: PcmSegment
    using that sint_scale_sample(2,3) [OF f] by (simp_all add: nth_faded)
  have first: "faded 0 (h a) ! 0 = h a ! 0"
    using assms(2) by (simp add: nth_faded blockSize_160 fade_factor_def scale_sample_1)
  have tenth: "real_of_int \<bar>sint (faded 1 (h b) ! j)\<bar> \<le> real_of_int \<bar>sint (h b ! j)\<bar> / 10" if "j < 160" for j
  proof -
    have "fade_factor (1 * 160 + j) \<le> 1 / 10"
      using fade_factor_mono [of 160 "1 * 160 + j"] by (simp add: fade_factor_160)
    then have "fade_factor (1 * 160 + j) * real_of_int \<bar>sint (h b ! j)\<bar> \<le> 1 / 10 * real_of_int \<bar>sint (h b ! j)\<bar>"
      by (intro mult_right_mono) auto
    then show ?thesis
      using abs_scale_sample_le [OF f, of "h b ! j" "1 * 160 + j"] that assms(3)
      unfolding nth_faded [OF assms(3) [unfolded blockSize_160] that] by linarith
  qed
  show ?thesis
    using assms s first tenth by (intro exI [of _ ?h]) (simp add: r blockSize_160)
qed

theorem fade_out_attenuates_witness:
  "\<exists>h'. FadeExponential_fade FadeOut [0, 1] (\<lambda>_. replicate 160 1000) = Inr h' \<and> length (h' 1) = 160"
  using fade_out_attenuates [of 0 1 "\<lambda>_. replicate 160 1000"] by (auto simp: blockSize_160)

text \<open>
  The calls of the fader that do not return. With less than two segments the assertion fails.
  A fade-in never returns: the factor of its first sample is below the initial comparison value,
  the largest double, so the check throws. A fade-out of more than two segments reads past
  the end of the vector at the first sample of its third round.
\<close>
lemma fade_faults:
  "FadeExponential_fade inOrOut [] h = Inl AssertionFailed \<and>
   FadeExponential_fade inOrOut [a] h = Inl AssertionFailed \<and>
   FadeExponential_fade FadeIn (a # b # segs) h = Inl Terminate \<and>
   FadeExponential_fade FadeOut (a # b # c # segs) h = Inl OutOfBounds"
proof (intro conjI)
  show "FadeExponential_fade inOrOut [] h = Inl AssertionFailed"
    and "FadeExponential_fade inOrOut [a] h = Inl AssertionFailed"
    by (simp_all add: FadeExponential_fade_def nbSegment_def)
  obtain rest where "positions (length (a # b # segs)) = (0, 0) # rest"
    using positions_Cons by auto
  moreover have "fade_step FadeIn (a # b # segs) (0, 0) (h, dbl_max) = Inl Terminate"
  proof -
    have "exp (- (fade_width * real n)) < dbl_max" for n
      using fade_factor_le_1 [of n] dbl_max_gt_1 unfolding fade_factor_def by (rule le_less_trans)
    then show ?thesis
      by (simp add: fade_step_def nbSegment_def Let_def del: of_nat_add of_nat_mult of_nat_Suc)
  qed
  ultimately show "FadeExponential_fade FadeIn (a # b # segs) h = Inl Terminate"
    by (simp add: FadeExponential_fade_def nbSegment_def)
  obtain rest where p: "positions (length (a # b # c # segs)) =
      (map (Pair 0) [0..<160] @ map (Pair 1) [0..<160]) @ (2, 0) # rest"
    using positions_three by auto
  obtain h' lf' where "fade_loop FadeOut (a # b # c # segs)
      ((map (Pair 0) [0..<160] @ map (Pair 1) [0..<160]) @ (2, 0) # rest) (h, dbl_max) =
      fade_loop FadeOut (a # b # c # segs) ((2, 0) # rest) (h', lf')"
    using fade_loop_two [of "a # b # c # segs" "(2, 0) # rest" h] by auto
  moreover have "fade_step FadeOut (a # b # c # segs) (2, 0) (h', lf') = Inl OutOfBounds"
    by (simp add: fade_step_def nbSegment_def Let_def)
  ultimately show "FadeExponential_fade FadeOut (a # b # c # segs) h = Inl OutOfBounds"
    unfolding FadeExponential_fade_def p by (simp add: nbSegment_def)
qed

text \<open>
  The concealment clears half of its output. The memset counts elements where it needs bytes:
  the first 80 of the 160 samples become zero, the last 80 keep what the output segment held.
\<close>
lemma predict_clears_half:
  assumes "a \<noteq> b" and "out \<notin> {a, b}" and "length (h out) = blockSize"
  shows "\<exists>h'. ZeroInsertion_predict [a, b] out h = Inr (True, h') \<and>
    (\<forall>j < blockSize. h' out ! j = (if j < 80 then 0 else h out ! j)) \<and>
    h' a = faded 0 (h a) \<and> h' b = faded 1 (h b)"
  using assms
  by (simp add: ZeroInsertion_predict_def FadeExponential_fade_out_two memset_zero_def blockSize_160
      nth_append)

lemma predict_clears_half_witness:
  "\<exists>h'. ZeroInsertion_predict [0, 1] 2 (\<lambda>_. replicate 160 5) = Inr (True, h') \<and>
    h' 2 ! 79 = 0 \<and> h' 2 ! 80 = 5"
  using predict_clears_half [of 0 1 2 "\<lambda>_. replicate 160 5"] by (auto simp: blockSize_160)

end
