(* ===== verification/Codec.thy ===== *)
theory Codec
  imports Concealment
begin

text \<open>
  The speech codec: client_essential/OpusDec.hpp, OpusEnc.hpp and Codec.cpp. libopus is a library, so its functions
  are a record of parameters; opus_contract states what its documentation promises of them.
\<close>

record ('d, 'e) opus_ops =
  opus_decoder_create :: "nat \<Rightarrow> nat \<Rightarrow> 'd option \<times> int"
  opus_decode :: "'d \<Rightarrow> byte list \<Rightarrow> nat \<Rightarrow> int \<times> PcmSegment \<times> 'd"
  opus_encoder_create :: "nat \<Rightarrow> nat \<Rightarrow> 'e option \<times> int"
  opus_encode :: "'e \<Rightarrow> PcmSegment \<Rightarrow> nat \<Rightarrow> nat \<Rightarrow> int \<times> byte list \<times> 'e"

text \<open>
  opus_decode and opus_encode return a count, or a negative error, with the contents of the
  output array that the caller provides and the new state of the codec.
\<close>

definition MAX_FRAME_SIZE :: nat where
  "MAX_FRAME_SIZE = 6 * 960"

definition MAX_PACKET_SIZE :: nat where
  "MAX_PACKET_SIZE = 3 * 1276"

record 'd OpusDec =
  dec_err :: int
  decoder :: "'d option"

record 'e OpusEnc =
  enc_err :: int
  encoder :: "'e option"

definition OpusDec_reInit :: "('d, 'e) opus_ops \<Rightarrow> 'd OpusDec \<Rightarrow> ReturnType \<times> 'd OpusDec" where
  "OpusDec_reInit lib dec =
     (let (d, e) = opus_decoder_create lib sampleRate 1;
          dec = dec\<lparr>decoder := d, dec_err := e\<rparr>
      in if e < 0 then (ReturnType_int e, dec) else (ReturnType_int 0, dec))"

definition OpusDec_decode ::
    "('d, 'e) opus_ops \<Rightarrow> byte list \<Rightarrow> PcmSegment \<Rightarrow> 'd OpusDec \<Rightarrow>
     fault + ReturnType \<times> PcmSegment \<times> 'd OpusDec" where
  "OpusDec_decode lib encodedData pcmData dec =
     (case decoder dec of
        None \<Rightarrow> Inl NullPointer
      | Some d \<Rightarrow>
          let (frame_size, out, d') = opus_decode lib d encodedData MAX_FRAME_SIZE;
              dec = dec\<lparr>decoder := Some d'\<rparr>
          in if frame_size < 0 then Inr (ReturnType_int 1, pcmData, dec)
             else
               let pcmData = resize (nat frame_size) pcmData;
                   pcmData = write_at 0 (take (length pcmData) out) pcmData
               in Inr (ReturnType_int 0, pcmData, dec))"

definition OpusEnc_reInit :: "('d, 'e) opus_ops \<Rightarrow> 'e OpusEnc \<Rightarrow> ReturnType \<times> 'e OpusEnc" where
  "OpusEnc_reInit lib enc =
     (let (d, e) = opus_encoder_create lib sampleRate 1;
          enc = enc\<lparr>encoder := d, enc_err := e\<rparr>
      in if e < 0 then (ReturnType_int e, enc) else (ReturnType_int 0, enc))"

definition OpusEnc_encode ::
    "('d, 'e) opus_ops \<Rightarrow> PcmSegment \<Rightarrow> byte list \<Rightarrow> 'e OpusEnc \<Rightarrow>
     fault + ReturnType \<times> byte list \<times> 'e OpusEnc" where
  "OpusEnc_encode lib pcmData encodedData enc =
     (case encoder enc of
        None \<Rightarrow> Inl NullPointer
      | Some e \<Rightarrow>
          let (nbBytes, cbits, e') = opus_encode lib e pcmData (length pcmData) MAX_PACKET_SIZE;
              enc = enc\<lparr>encoder := Some e'\<rparr>
          in if nbBytes < 0 then Inr (ReturnType_int 1, encodedData, enc)
             else
               let encodedData = resize (nat nbBytes) encodedData;
                   encodedData = write_at 0 (take (nat nbBytes) cbits) encodedData
               in Inr (ReturnType_int 0, encodedData, enc))"

definition opus_contract :: "('d, 'e) opus_ops \<Rightarrow> bool" where
  "opus_contract lib \<longleftrightarrow>
     (\<forall>d bs n r out d'. opus_decode lib d bs n = (r, out, d') \<longrightarrow> r \<le> int n \<and> length out = n) \<and>
     (\<forall>e pcm k n r out e'. opus_encode lib e pcm k n = (r, out, e') \<longrightarrow> r \<le> int n \<and> length out = n)"

text \<open>Under the contract both routines return exactly what the codec produced.\<close>

lemma OpusDec_decode_eq:
  assumes "opus_contract lib" and "decoder dec = Some d"
    and "opus_decode lib d bs MAX_FRAME_SIZE = (r, out, d')"
  shows "OpusDec_decode lib bs pcm dec =
    (if r < 0 then Inr (ReturnType_int 1, pcm, dec\<lparr>decoder := Some d'\<rparr>)
     else Inr (ReturnType_int 0, take (nat r) out, dec\<lparr>decoder := Some d'\<rparr>))"
proof -
  have "r \<le> int MAX_FRAME_SIZE" "length out = MAX_FRAME_SIZE"
    using assms(1,3) unfolding opus_contract_def by blast+
  then have "nat r \<le> length out"
    by simp
  then show ?thesis
    using assms(2,3) by (simp add: OpusDec_decode_def write_at_0)
qed

lemma OpusEnc_encode_eq:
  assumes "opus_contract lib" and "encoder enc = Some e"
    and "opus_encode lib e pcm (length pcm) MAX_PACKET_SIZE = (r, out, e')"
  shows "OpusEnc_encode lib pcm bs enc =
    (if r < 0 then Inr (ReturnType_int 1, bs, enc\<lparr>encoder := Some e'\<rparr>)
     else Inr (ReturnType_int 0, take (nat r) out, enc\<lparr>encoder := Some e'\<rparr>))"
    and "length (take (nat r) out) \<le> MAX_PACKET_SIZE"
proof -
  have "r \<le> int MAX_PACKET_SIZE" "length out = MAX_PACKET_SIZE"
    using assms(1,3) unfolding opus_contract_def by blast+
  then have "nat r \<le> length out"
    by simp
  then show "OpusEnc_encode lib pcm bs enc =
    (if r < 0 then Inr (ReturnType_int 1, bs, enc\<lparr>encoder := Some e'\<rparr>)
     else Inr (ReturnType_int 0, take (nat r) out, enc\<lparr>encoder := Some e'\<rparr>))"
    using assms(2,3) by (simp add: OpusEnc_encode_def write_at_0)
  show "length (take (nat r) out) \<le> MAX_PACKET_SIZE"
    using \<open>length out = MAX_PACKET_SIZE\<close> by simp
qed

text \<open>
  An encoded packet always fits the 16-bit length field of a network packet, so the exception of
  the packet constructor is never raised on the sending side.
\<close>

lemma MAX_PACKET_SIZE_fits: "MAX_PACKET_SIZE \<le> 65535"
  by (simp add: MAX_PACKET_SIZE_def)

text \<open>A codec that meets the contract: every packet decodes to k samples.\<close>

definition toy_opus :: "nat \<Rightarrow> (unit, unit) opus_ops" where
  "toy_opus k =
     \<lparr>opus_decoder_create = (\<lambda>_ _. (Some (), 0)),
      opus_decode = (\<lambda>_ bs n. (int (min n k), resize n (map ucast bs), ())),
      opus_encoder_create = (\<lambda>_ _. (Some (), 0)),
      opus_encode = (\<lambda>_ pcm k n. (int (min n k), resize n (map ucast pcm), ()))\<rparr>"

lemma opus_contract_toy [simp]: "opus_contract (toy_opus k)"
  by (auto simp: opus_contract_def toy_opus_def)

end
