(* ===== verification/Jitter_Buffer.thy ===== *)
theory Jitter_Buffer
  imports Volume_Meter "HOL-Library.Sublist"
begin

text \<open>
  The jitter buffer (client_essential/audio_engine/JitterBuffer.hpp): a wait-free queue of boost between the
  network thread and the audio callback. The queue is a library, so the model takes its operations
  as a record of functions; the locale spsc_queue states what the documentation of
  boost::lockfree::spsc_queue says of them. The locale block_queue is what the downstream processor
  uses of the buffer.
\<close>

record ('a, 'q) spsc_ops =
  spsc_new :: "nat \<Rightarrow> 'q"
  spsc_push :: "'a \<Rightarrow> 'q \<Rightarrow> bool \<times> 'q"
  spsc_pop :: "'q \<Rightarrow> 'a option \<times> 'q"
  spsc_read_available :: "'q \<Rightarrow> nat"

definition JitterBuffer_new :: "('a, 'q) spsc_ops \<Rightarrow> 'q" where
  "JitterBuffer_new lib = spsc_new lib 100"

definition JitterBuffer_append :: "('a, 'q) spsc_ops \<Rightarrow> 'a \<Rightarrow> 'q \<Rightarrow> 'q" where
  "JitterBuffer_append lib pcm decodedBuffer = snd (spsc_push lib pcm decodedBuffer)"

definition JitterBuffer_fetch :: "('a, 'q) spsc_ops \<Rightarrow> 'q \<Rightarrow> 'a option \<times> 'q" where
  "JitterBuffer_fetch lib decodedBuffer = spsc_pop lib decodedBuffer"

definition JitterBuffer_read_available :: "('a, 'q) spsc_ops \<Rightarrow> 'q \<Rightarrow> nat" where
  "JitterBuffer_read_available lib decodedBuffer = spsc_read_available lib decodedBuffer"

datatype 'a jb_call = Append 'a | Fetch

subsection \<open>The contract of the library queue\<close>

locale spsc_queue =
  fixes lib :: "('a, 'q) spsc_ops"
    and contents :: "'q \<Rightarrow> 'a list"
    and capacity :: "'q \<Rightarrow> nat"
  assumes new: "contents (spsc_new lib n) = []" "capacity (spsc_new lib n) = n"
    and push: "length (contents q) < capacity q \<Longrightarrow>
      contents (snd (spsc_push lib x q)) = contents q @ [x]"
    and push_full: "capacity q \<le> length (contents q) \<Longrightarrow>
      contents (snd (spsc_push lib x q)) = contents q"
    and push_capacity: "capacity (snd (spsc_push lib x q)) = capacity q"
    and pop: "contents q = x # xs \<Longrightarrow>
      fst (spsc_pop lib q) = Some x \<and> contents (snd (spsc_pop lib q)) = xs"
    and pop_empty: "contents q = [] \<Longrightarrow>
      fst (spsc_pop lib q) = None \<and> contents (snd (spsc_pop lib q)) = []"
    and pop_capacity: "capacity (snd (spsc_pop lib q)) = capacity q"
    and available: "spsc_read_available lib q = length (contents q)"

subsection \<open>What a client of the buffer relies on\<close>

locale block_queue =
  fixes empty :: 'q
    and append :: "'a \<Rightarrow> 'q \<Rightarrow> 'q"
    and fetch :: "'q \<Rightarrow> 'a option \<times> 'q"
    and available :: "'q \<Rightarrow> nat"
    and contents :: "'q \<Rightarrow> 'a list"
    and usable :: "'q \<Rightarrow> bool"
    and bound :: nat
  assumes empty [simp]: "usable empty" "contents empty = []"
    and usable_append [simp]: "usable q \<Longrightarrow> usable (append x q)"
    and usable_fetch [simp]: "usable q \<Longrightarrow> usable (snd (fetch q))"
    and append: "usable q \<Longrightarrow>
      contents (append x q) = (if length (contents q) < bound then contents q @ [x] else contents q)"
    and fetch: "usable q \<Longrightarrow>
      fetch q = (case contents q of [] \<Rightarrow> None | x # _ \<Rightarrow> Some x, snd (fetch q))"
    and contents_fetch: "usable q \<Longrightarrow> contents (snd (fetch q)) = tl (contents q)"
    and available: "usable q \<Longrightarrow> available q = length (contents q)"
begin

fun run :: "'a jb_call list \<Rightarrow> 'q \<Rightarrow> 'q \<times> 'a option list" where
  "run [] q = (q, [])"
| "run (Append x # calls) q = run calls (append x q)"
| "run (Fetch # calls) q =
     (let (r, q1) = fetch q; (q2, rs) = run calls q1 in (q2, r # rs))"

lemma contents_append_subset: "usable q \<Longrightarrow> set (contents (append x q)) \<subseteq> insert x (set (contents q))"
  by (auto simp: append)

lemma contents_fetch_subset: "usable q \<Longrightarrow> set (contents (snd (fetch q))) \<subseteq> set (contents q)"
  by (cases "contents q") (auto simp: contents_fetch)

end

text \<open>The abstract buffer: a list of at most 100 elements that ignores an append when it is full.\<close>

fun fifo_run :: "'a jb_call list \<Rightarrow> 'a list \<Rightarrow> 'a list \<times> 'a option list" where
  "fifo_run [] xs = (xs, [])"
| "fifo_run (Append x # calls) xs = fifo_run calls (if length xs < 100 then xs @ [x] else xs)"
| "fifo_run (Fetch # calls) xs =
     (let (ys, rs) = fifo_run calls (tl xs)
      in (ys, (case xs of [] \<Rightarrow> None | x # _ \<Rightarrow> Some x) # rs))"

fun appended :: "'a jb_call list \<Rightarrow> 'a list" where
  "appended [] = []"
| "appended (Append x # calls) = x # appended calls"
| "appended (Fetch # calls) = appended calls"

definition delivered :: "'a option list \<Rightarrow> 'a list" where
  "delivered rs = map the (filter (\<lambda>r. r \<noteq> None) rs)"

lemma delivered_simps [simp]:
  "delivered [] = []" "delivered (Some x # rs) = x # delivered rs" "delivered (None # rs) = delivered rs"
  by (simp_all add: delivered_def)

lemma fifo_run_order:
  "fifo_run calls xs = (ys, rs) \<Longrightarrow> subseq (delivered rs @ ys) (xs @ appended calls)"
proof (induction calls xs arbitrary: ys rs rule: fifo_run.induct)
  case (2 x calls xs)
  then show ?case
    by (auto split: if_splits intro: subseq_order.trans [OF _ list_emb_append_mono [OF subseq_order.refl]])
next
  case (3 calls xs)
  then show ?case
    by (cases xs) (auto split: prod.splits)
qed simp

lemma fifo_run_bound:
  "fifo_run calls xs = (ys, rs) \<Longrightarrow> length xs \<le> 100 \<Longrightarrow> length ys \<le> 100"
  by (induction calls xs arbitrary: ys rs rule: fifo_run.induct) (auto split: prod.splits if_splits)

lemma fifo_run_lossless:
  "fifo_run calls xs = (ys, rs) \<Longrightarrow> length xs + length (appended calls) \<le> 100 \<Longrightarrow>
   delivered rs @ ys = xs @ appended calls"
proof (induction calls xs arbitrary: ys rs rule: fifo_run.induct)
  case (3 calls xs)
  then show ?case
    by (cases xs) (auto split: prod.splits)
qed auto

context block_queue
begin

lemma run_fifo:
  assumes "bound = 100" and "usable q" and "run calls q = (q', rs)"
  shows "fifo_run calls (contents q) = (contents q', rs) \<and> usable q'"
  using assms(2,3)
proof (induction calls q arbitrary: q' rs rule: run.induct)
  case (2 x calls q)
  then show ?case
    by (auto simp: append assms(1))
next
  case (3 calls q)
  obtain r q1 q2 rs1 where f: "fetch q = (r, q1)" and r: "run calls q1 = (q2, rs1)"
    by (metis surj_pair)
  have "usable q1" "contents q1 = tl (contents q)"
    using 3(2) usable_fetch [of q] contents_fetch [of q] by (simp_all add: f)
  moreover have "r = (case contents q of [] \<Rightarrow> None | x # _ \<Rightarrow> Some x)"
    using fetch [OF 3(2)] by (simp add: f)
  ultimately show ?case
    using 3(1) [OF f [symmetric] refl _ r] 3(3) by (auto simp: f r)
qed simp

end

sublocale spsc_queue \<subseteq> jitter: block_queue "JitterBuffer_new lib" "JitterBuffer_append lib"
  "JitterBuffer_fetch lib" "JitterBuffer_read_available lib" contents "\<lambda>q. capacity q = 100" 100
proof (unfold_locales, goal_cases)
  case (6 q)
  then show ?case
    using pop [of q] pop_empty [of q]
    by (cases "contents q") (auto simp: JitterBuffer_fetch_def prod_eq_iff)
next
  case (7 q)
  then show ?case
    using pop [of q] pop_empty [of q] by (cases "contents q") (auto simp: JitterBuffer_fetch_def)
qed (auto simp: JitterBuffer_new_def JitterBuffer_append_def JitterBuffer_fetch_def new
    JitterBuffer_read_available_def push push_full push_capacity pop_capacity available)

subsection \<open>A queue that meets the contract\<close>

definition list_queue :: "('a, nat \<times> 'a list) spsc_ops" where
  "list_queue =
     \<lparr>spsc_new = (\<lambda>n. (n, [])),
      spsc_push = (\<lambda>x (n, xs). if length xs < n then (True, n, xs @ [x]) else (False, n, xs)),
      spsc_pop = (\<lambda>(n, xs). case xs of [] \<Rightarrow> (None, n, []) | y # ys \<Rightarrow> (Some y, n, ys)),
      spsc_read_available = (\<lambda>(n, xs). length xs)\<rparr>"

interpretation list_queue: spsc_queue list_queue snd fst
  by unfold_locales (auto simp: list_queue_def split: list.splits)

subsection \<open>Properties of the buffer\<close>

text \<open>The buffer under a sequence of calls; the results of the fetches in order.\<close>

fun jb_run :: "('a, 'q) spsc_ops \<Rightarrow> 'a jb_call list \<Rightarrow> 'q \<Rightarrow> 'q \<times> 'a option list" where
  "jb_run lib [] q = (q, [])"
| "jb_run lib (Append x # calls) q = jb_run lib calls (JitterBuffer_append lib x q)"
| "jb_run lib (Fetch # calls) q =
     (let (r, q1) = JitterBuffer_fetch lib q; (q2, rs) = jb_run lib calls q1 in (q2, r # rs))"

context spsc_queue
begin

lemma jb_run_eq: "jb_run lib calls q = jitter.run calls q"
proof (induction calls arbitrary: q)
  case (Cons c calls)
  then show ?case
    by (cases c) (auto split: prod.splits)
qed simp

lemma jb_run_fifo:
  assumes "jb_run lib calls (JitterBuffer_new lib) = (q, rs)"
  shows "fifo_run calls [] = (contents q, rs)"
  using jitter.run_fifo [OF refl jitter.empty(1), of calls] assms
  by (auto simp: jb_run_eq)

end

text \<open>
  C10: the jitter buffer refines the abstract buffer. Whatever library queue meets the documented
  contract, every sequence of appends and fetches gives the results of a list of at most 100
  elements, in order, that drops the newest element when it is full: what is delivered or still
  queued is a subsequence of what was appended, and with at most 100 appends nothing is dropped.
\<close>
theorem jitter_buffer_refines_fifo:
  assumes "spsc_queue lib contents capacity"
    and "jb_run lib calls (JitterBuffer_new lib) = (q, rs)"
  shows "fifo_run calls [] = (contents q, rs) \<and> length (contents q) \<le> 100 \<and>
    subseq (delivered rs @ contents q) (appended calls) \<and>
    (length (appended calls) \<le> 100 \<longrightarrow> delivered rs @ contents q = appended calls)"
proof -
  have f: "fifo_run calls [] = (contents q, rs)"
    by (rule spsc_queue.jb_run_fifo [OF assms])
  then show ?thesis
    using fifo_run_bound [OF f] fifo_run_order [OF f] fifo_run_lossless [OF f] by simp
qed

theorem jitter_buffer_refines_fifo_witness:
  "\<exists>q rs. jb_run list_queue [Append (1 :: nat), Fetch, Fetch, Append 2] (JitterBuffer_new list_queue) = (q, rs) \<and>
     delivered rs @ snd q = [1, 2]"
proof -
  obtain q rs where r: "jb_run list_queue [Append (1 :: nat), Fetch, Fetch, Append 2]
      (JitterBuffer_new list_queue) = (q, rs)"
    by fastforce
  then show ?thesis
    using jitter_buffer_refines_fifo [OF list_queue.spsc_queue_axioms r] by auto
qed

end
