(* ===== verification/Profiler.thy ===== *)
theory Profiler
  imports Prelude "HOL-Library.Signed_Division"
begin

text \<open>
  The process clock (include/ProcessTime.hpp) and the profiler (client_essential/Profiler.hpp): lists
  of pairs of up-time and value that are appended to while the program runs and dumped as CSV
  lines at its end. The output stream of a list is whether its file is open and the text written to it so far.
\<close>

subsection \<open>The process clock\<close>

record ProcessTime =
  processStartingPoint :: timepoint

definition ProcessTime_new :: "timepoint \<Rightarrow> ProcessTime" where
  "ProcessTime_new now = \<lparr>processStartingPoint = now\<rparr>"

definition getProcessUptime :: "ProcessTime \<Rightarrow> timepoint \<Rightarrow> u32" where
  "getProcessUptime pt now = of_int ((now - processStartingPoint pt) sdiv 1000000)"

lemma sdiv_pos: "0 \<le> (a :: int) \<Longrightarrow> 0 < b \<Longrightarrow> a sdiv b = a div b"
  by (cases "a = 0") (auto simp: signed_divide_int_def sgn_mult)

lemma uptime_mod:
  assumes "processStartingPoint pt \<le> now"
  shows "uint (getProcessUptime pt now) = ((now - processStartingPoint pt) div 1000000) mod 2 ^ 32"
  using assms by (simp add: getProcessUptime_def sdiv_pos uint_word_of_int)

text \<open>
  The time stamps of packets. For the first 2^32 milliseconds (49 days and 17 hours) of a
  process a later reading of the clock gives no smaller time stamp; 2^32 milliseconds later the
  same time stamp comes again, so the stamps then start over from zero.
\<close>
lemma uptime_monotone:
  assumes "processStartingPoint pt \<le> t1" and "t1 \<le> t2"
  shows "(t2 < processStartingPoint pt + 2 ^ 32 * 1000000 \<longrightarrow> getProcessUptime pt t1 \<le> getProcessUptime pt t2) \<and>
    getProcessUptime pt (t1 + 2 ^ 32 * 1000000) = getProcessUptime pt t1"
proof (intro conjI impI)
  let ?ms = "\<lambda>t. (t - processStartingPoint pt) div 1000000"
  assume "t2 < processStartingPoint pt + 2 ^ 32 * 1000000"
  then have "?ms t2 < 2 ^ 32" "?ms t1 \<le> ?ms t2" "0 \<le> ?ms t1"
    using assms by (auto intro: zdiv_mono1 simp: pos_imp_zdiv_nonneg_iff)
  then show "getProcessUptime pt t1 \<le> getProcessUptime pt t2"
    using assms by (simp add: word_le_def uptime_mod)
next
  have "(t1 + 2 ^ 32 * 1000000 - processStartingPoint pt) div 1000000 =
      (t1 - processStartingPoint pt) div 1000000 + 2 ^ 32"
    by arith
  then have "uint (getProcessUptime pt (t1 + 2 ^ 32 * 1000000)) = uint (getProcessUptime pt t1)"
    using assms by (simp add: uptime_mod)
  then show "getProcessUptime pt (t1 + 2 ^ 32 * 1000000) = getProcessUptime pt t1"
    by (simp only: word_uint_eq_iff)
qed

lemma uptime_monotone_witness:
  "getProcessUptime (ProcessTime_new 5) 7000005 \<le> getProcessUptime (ProcessTime_new 5) 9000000"
  using uptime_monotone [of "ProcessTime_new 5" 7000005 9000000] by (simp add: ProcessTime_new_def)

subsection \<open>Event lists\<close>

text \<open>
  The constructor opens the file that is named by the tag, which truncates it; when that fails the stream
  ignores what is written to it.
\<close>

record 'a EventList =
  tag :: string
  events :: "(u32 \<times> 'a) list"
  ofs_open :: bool
  ofs :: string

definition EventList_new :: "bool \<Rightarrow> string \<Rightarrow> 'a EventList" where
  "EventList_new opens t = \<lparr>tag = t, events = [], ofs_open = opens, ofs = []\<rparr>"

definition addData :: "u32 \<Rightarrow> 'a \<Rightarrow> 'a EventList \<Rightarrow> 'a EventList" where
  "addData uptime d l = l\<lparr>events := events l @ [(uptime, d)]\<rparr>"

text \<open>One insertion into the stream.\<close>

definition write_ofs :: "string \<Rightarrow> 'a EventList \<Rightarrow> 'a EventList" where
  "write_ofs t l = (if ofs_open l then l\<lparr>ofs := ofs l @ t\<rparr> else l)"

text \<open>The printer of the values is an argument: to_string for numbers, 0 and 1 for bool.\<close>

definition dump :: "('a \<Rightarrow> string) \<Rightarrow> 'a EventList \<Rightarrow> 'a EventList" where
  "dump print l =
     foldl (\<lambda>l (t, v). write_ofs [CHR 0x0A] (write_ofs (print v) (write_ofs '', '' (write_ofs (nat_to_string (unat t)) l))))
       l (events l)"

definition print_bool :: "bool \<Rightarrow> string" where
  "print_bool b = (if b then ''1'' else ''0'')"

record Profiler =
  packageDelayList :: "int EventList"
  emptyAudioOutBuffer :: "bool EventList"
  audioOutBufferSize :: "nat EventList"

definition Profiler_new :: "bool \<times> bool \<times> bool \<Rightarrow> Profiler" where
  "Profiler_new opens =
     (case opens of (o1, o2, o3) \<Rightarrow>
       \<lparr>packageDelayList = EventList_new o1 ''packageDelayList_.csv'',
        emptyAudioOutBuffer = EventList_new o2 ''emptyBuffer_.csv'',
        audioOutBufferSize = EventList_new o3 ''audioOutBufferSize_.csv''\<rparr>)"

definition Profiler_dump :: "Profiler \<Rightarrow> Profiler" where
  "Profiler_dump p =
     \<lparr>packageDelayList = dump int_to_string (packageDelayList p),
      emptyAudioOutBuffer = dump print_bool (emptyAudioOutBuffer p),
      audioOutBufferSize = dump nat_to_string (audioOutBufferSize p)\<rparr>"

lemma write_ofs_fields [simp]:
  "tag (write_ofs t l) = tag l" "events (write_ofs t l) = events l" "ofs_open (write_ofs t l) = ofs_open l"
  "ofs (write_ofs t l) = (if ofs_open l then ofs l @ t else ofs l)"
  by (simp_all add: write_ofs_def)

text \<open>The lines of the file.\<close>

definition csv_line :: "('a \<Rightarrow> string) \<Rightarrow> u32 \<times> 'a \<Rightarrow> string" where
  "csv_line print e = nat_to_string (unat (fst e)) @ '', '' @ print (snd e) @ [CHR 0x0A]"

definition dump_line :: "('a \<Rightarrow> string) \<Rightarrow> 'a EventList \<Rightarrow> u32 \<times> 'a \<Rightarrow> 'a EventList" where
  "dump_line print l e =
     write_ofs [CHR 0x0A] (write_ofs (print (snd e)) (write_ofs '', '' (write_ofs (nat_to_string (unat (fst e))) l)))"

lemma dump_line_fields [simp]:
  "tag (dump_line pr l e) = tag l" "events (dump_line pr l e) = events l" "ofs_open (dump_line pr l e) = ofs_open l"
  "ofs (dump_line pr l e) = (if ofs_open l then ofs l @ csv_line pr e else ofs l)"
  by (simp_all only: dump_line_def csv_line_def write_ofs_fields append_assoc if_True split: if_splits) simp_all

lemma dump_lines: "dump pr l = foldl (dump_line pr) l (events l)"
  by (simp only: dump_def dump_line_def [abs_def] case_prod_unfold)

lemma foldl_lines:
  "tag (foldl (dump_line pr) l xs) = tag l \<and> events (foldl (dump_line pr) l xs) = events l \<and>
   ofs_open (foldl (dump_line pr) l xs) = ofs_open l \<and>
   ofs (foldl (dump_line pr) l xs) = (if ofs_open l then ofs l @ concat (map (csv_line pr) xs) else ofs l)"
  by (induction xs arbitrary: l) simp_all

lemma dump_fields [simp]:
  "tag (dump pr l) = tag l" "events (dump pr l) = events l" "ofs_open (dump pr l) = ofs_open l"
  unfolding dump_lines using foldl_lines [of pr l "events l"] by blast+

lemma ofs_dump: "ofs (dump pr l) = (if ofs_open l then ofs l @ concat (map (csv_line pr) (events l)) else ofs l)"
  unfolding dump_lines using foldl_lines [of pr l "events l"] by blast

text \<open>A second dump writes every line once more: the list is never cleared, and the file not opened again.\<close>

lemma dump_twice:
  "ofs_open l \<Longrightarrow> ofs (dump pr (dump pr l)) =
     ofs l @ concat (map (csv_line pr) (events l)) @ concat (map (csv_line pr) (events l))"
  by (simp add: ofs_dump)

end
