(* ===== verification/Downstream.thy ===== *)
theory Downstream
  imports Codec Jitter_Buffer Net_Packet Profiler
begin

text \<open>
  The downstream processor (client_essential/audio_engine/DownstreamProcessor.hpp, .cpp): decoder, jitter buffer
  and packet loss concealment between the network thread (append) and the audio callback (fetch).

  The segments are shared objects: the jitter buffer and the two playback slots m1 and m2 hold
  addresses of the store heap, and the concealment scales the samples behind m1 and m2 in place.
  make_shared takes the address next_addr. The comfort noise decoder and the echo canceller are
  libraries: the record farend_ops holds their functions. The lines the code logs are the list ds_log.
\<close>

record ('c, 'a) farend_ops =
  cng_UpdateSid :: "byte list \<Rightarrow> 'c \<Rightarrow> 'c"
  cng_Generate :: "PcmSegment \<Rightarrow> bool \<Rightarrow> 'c \<Rightarrow> PcmSegment \<times> 'c"
  aec_BufferFarend :: "real list \<Rightarrow> nat \<Rightarrow> 'a \<Rightarrow> int \<times> 'a"

datatype ds_warning =
    TimestampDescends
  | SerialNumberGap u32 u32

record ('q, 'd, 'c, 'a) DownstreamProcessor =
  jitterBuffer :: 'q
  ds_decoder :: "'d OpusDec"
  ds_needAec :: bool
  largestReceivedMediaDataTimestamp :: u32
  lastReceivedAudioSn :: u32
  ds_aec :: 'a
  lastIsCnPacket :: bool
  cnDecoder :: 'c
  dumpFile :: "PcmSegment list option"
  m1 :: "(u32 \<times> nat) option"
  m2 :: "(u32 \<times> nat) option"
  heap :: store
  next_addr :: nat
  ds_log :: "ds_warning list"
  ds_profile :: "nat EventList"

text \<open>The constructor ignores the result of reInit; dumpIsOpen is what is_open returns.\<close>

definition DownstreamProcessor_new ::
    "('d, 'e) opus_ops \<Rightarrow> (u32 \<times> nat, 'q) spsc_ops \<Rightarrow> 'd OpusDec \<Rightarrow> 'c \<Rightarrow> nat EventList \<Rightarrow>
     bool \<Rightarrow> 'a \<Rightarrow> string \<Rightarrow> bool \<Rightarrow> ('q, 'd, 'c, 'a) DownstreamProcessor" where
  "DownstreamProcessor_new opus qlib dec cng prof needAec aec audioOutDumpPath dumpIsOpen =
     \<lparr>jitterBuffer = JitterBuffer_new qlib,
      ds_decoder = snd (OpusDec_reInit opus dec),
      ds_needAec = needAec,
      largestReceivedMediaDataTimestamp = 0,
      lastReceivedAudioSn = 0,
      ds_aec = aec,
      lastIsCnPacket = False,
      cnDecoder = cng,
      dumpFile = (if audioOutDumpPath \<noteq> [] \<and> dumpIsOpen then Some [] else None),
      m1 = None, m2 = None,
      heap = (\<lambda>_. replicate blockSize 0), next_addr = 0,
      ds_log = [], ds_profile = prof\<rparr>"

text \<open>The three parts of decodeAndAecBufferFarend, in its order.\<close>

definition decode_payload ::
    "('d, 'e) opus_ops \<Rightarrow> ('c, 'a) farend_ops \<Rightarrow> NetPacket \<Rightarrow> PcmSegment \<Rightarrow>
     ('q, 'd, 'c, 'a) DownstreamProcessor \<Rightarrow> fault + PcmSegment \<times> ('q, 'd, 'c, 'a) DownstreamProcessor" where
  "decode_payload opus far netPacket decodedPcm ds =
     (if payloadType netPacket = pt_code AudioMessage then
        (case OpusDec_decode opus (payload netPacket) decodedPcm (ds_decoder ds) of
           Inl e \<Rightarrow> Inl e
         | Inr (_, pcm, dec) \<Rightarrow> Inr (pcm, ds\<lparr>ds_decoder := dec, lastIsCnPacket := False\<rparr>))
      else if payloadType netPacket = pt_code AudioMessage_CN then
        let ds = ds\<lparr>cnDecoder := cng_UpdateSid far (payload netPacket) (cnDecoder ds)\<rparr> in
        if length decodedPcm \<noteq> blockSize then Inl AssertionFailed
        else
          let (pcm, cng) = cng_Generate far decodedPcm (lastIsCnPacket ds) (cnDecoder ds)
          in Inr (pcm, ds\<lparr>cnDecoder := cng, lastIsCnPacket := True\<rparr>)
      else Inr (decodedPcm, ds))"

definition buffer_farend ::
    "('c, 'a) farend_ops \<Rightarrow> PcmSegment \<Rightarrow>
     ('q, 'd, 'c, 'a) DownstreamProcessor \<Rightarrow> fault + ('q, 'd, 'c, 'a) DownstreamProcessor" where
  "buffer_farend far decodedPcm ds =
     (if ds_needAec ds then
        let floatFarend = map (\<lambda>x. real_of_int (sint x) / 2 ^ 15) decodedPcm in
        if length floatFarend < 160 then Inl OutOfBounds
        else
          let (ret, aec) = aec_BufferFarend far floatFarend 160 (ds_aec ds)
          in if ret \<noteq> 0 then Inl Terminate else Inr (ds\<lparr>ds_aec := aec\<rparr>)
      else Inr ds)"

definition verify_order ::
    "NetPacket \<Rightarrow> ('q, 'd, 'c, 'a) DownstreamProcessor \<Rightarrow> ('q, 'd, 'c, 'a) DownstreamProcessor" where
  "verify_order netPacket ds =
     (let currentTS = timestamp netPacket;
          ds = (if currentTS < largestReceivedMediaDataTimestamp ds
                then ds\<lparr>ds_log := ds_log ds @ [TimestampDescends]\<rparr>
                else ds\<lparr>largestReceivedMediaDataTimestamp := currentTS\<rparr>);
          currentSn = serialNumber netPacket;
          ds = (if lastReceivedAudioSn ds = 0 then
                  if lastReceivedAudioSn ds + 1 \<noteq> currentSn
                  then ds\<lparr>ds_log := ds_log ds @ [SerialNumberGap (lastReceivedAudioSn ds) currentSn]\<rparr>
                  else ds
                else ds)
      in ds\<lparr>lastReceivedAudioSn := currentSn\<rparr>)"

definition decodeAndAecBufferFarend ::
    "('d, 'e) opus_ops \<Rightarrow> ('c, 'a) farend_ops \<Rightarrow> NetPacket \<Rightarrow> PcmSegment \<Rightarrow>
     ('q, 'd, 'c, 'a) DownstreamProcessor \<Rightarrow> fault + PcmSegment \<times> ('q, 'd, 'c, 'a) DownstreamProcessor" where
  "decodeAndAecBufferFarend opus far netPacket decodedPcm ds =
     (case decode_payload opus far netPacket decodedPcm ds of
        Inl e \<Rightarrow> Inl e
      | Inr (pcm, ds) \<Rightarrow>
          (case buffer_farend far pcm ds of
             Inl e \<Rightarrow> Inl e
           | Inr ds \<Rightarrow> Inr (pcm, verify_order netPacket ds)))"

text \<open>make_shared of a segment: a fresh address with a zeroed array.\<close>

definition make_segment ::
    "('q, 'd, 'c, 'a) DownstreamProcessor \<Rightarrow> nat \<times> ('q, 'd, 'c, 'a) DownstreamProcessor" where
  "make_segment ds =
     (next_addr ds,
      ds\<lparr>heap := (heap ds)(next_addr ds := replicate blockSize 0), next_addr := next_addr ds + 1\<rparr>)"

text \<open>
  The vector pcm is made with 160 samples and shrunk by the decoder to what it decoded: its storage still holds 160, so
  that the copy of 160 samples reads past its size, not past its storage.
\<close>

definition DownstreamProcessor_append ::
    "('d, 'e) opus_ops \<Rightarrow> ('c, 'a) farend_ops \<Rightarrow> (u32 \<times> nat, 'q) spsc_ops \<Rightarrow> NetPacket \<Rightarrow>
     ('q, 'd, 'c, 'a) DownstreamProcessor \<Rightarrow> fault + ('q, 'd, 'c, 'a) DownstreamProcessor" where
  "DownstreamProcessor_append opus far qlib netPacket ds =
     (let pcm = replicate blockSize 0 in
      case decodeAndAecBufferFarend opus far netPacket pcm ds of
        Inl e \<Rightarrow> Inl e
      | Inr (pcm, ds) \<Rightarrow>
          let (segment, ds) = make_segment ds in
          if length pcm < blockSize then Inl PastSize
          else Inr (ds\<lparr>heap := (heap ds)(segment := take blockSize pcm),
                       jitterBuffer := JitterBuffer_append qlib (timestamp netPacket, segment) (jitterBuffer ds)\<rparr>))"

definition conceal ::
    "('c, 'a) farend_ops \<Rightarrow> nat \<Rightarrow>
     ('q, 'd, 'c, 'a) DownstreamProcessor \<Rightarrow> fault + ('q, 'd, 'c, 'a) DownstreamProcessor" where
  "conceal far predicted ds =
     (case (m1 ds, m2 ds) of
        (Some (_, s1), Some (_, s2)) \<Rightarrow>
          (case ZeroInsertion_predict [s1, s2] predicted (heap ds) of
             Inl e \<Rightarrow> Inl e
           | Inr (_, h) \<Rightarrow>
               let (tmpCN, cng) = cng_Generate far (replicate blockSize 0) (lastIsCnPacket ds) (cnDecoder ds)
               in Inr (ds\<lparr>heap := h(predicted := take blockSize tmpCN),
                          cnDecoder := cng, lastIsCnPacket := True\<rparr>))
      | _ \<Rightarrow> Inr ds)"

text \<open>The second half of fetch: shift the slots, play the older one, dump and profile.\<close>

definition play_slot ::
    "(u32 \<times> nat, 'q) spsc_ops \<Rightarrow> u32 \<Rightarrow> u32 \<times> nat \<Rightarrow>
     ('q, 'd, 'c, 'a) DownstreamProcessor \<Rightarrow> PcmSegment \<times> ('q, 'd, 'c, 'a) DownstreamProcessor" where
  "play_slot qlib uptime data ds =
     (let ds = ds\<lparr>m2 := m1 ds, m1 := Some data\<rparr>;
          outData = (case m2 ds of Some (_, s) \<Rightarrow> heap ds s | None \<Rightarrow> replicate blockSize 0);
          ds = ds\<lparr>dumpFile := map_option (\<lambda>f. f @ [outData]) (dumpFile ds)\<rparr>;
          ds = ds\<lparr>ds_profile :=
            addData uptime (JitterBuffer_read_available qlib (jitterBuffer ds)) (ds_profile ds)\<rparr>
      in (outData, ds))"

definition DownstreamProcessor_fetch ::
    "('c, 'a) farend_ops \<Rightarrow> (u32 \<times> nat, 'q) spsc_ops \<Rightarrow> u32 \<Rightarrow>
     ('q, 'd, 'c, 'a) DownstreamProcessor \<Rightarrow> fault + PcmSegment \<times> ('q, 'd, 'c, 'a) DownstreamProcessor" where
  "DownstreamProcessor_fetch far qlib uptime ds =
     (let (data, q) = JitterBuffer_fetch qlib (jitterBuffer ds);
          ds = ds\<lparr>jitterBuffer := q\<rparr>
      in case data of
           Some d \<Rightarrow> Inr (play_slot qlib uptime d ds)
         | None \<Rightarrow>
             let (predicted, ds) = make_segment ds in
             (case conceal far predicted ds of
                Inl e \<Rightarrow> Inl e
              | Inr ds \<Rightarrow> Inr (play_slot qlib uptime (0, predicted) ds)))"

subsection \<open>Invariant and frame lemmas\<close>

abbreviation slot :: "(u32 \<times> nat) option \<Rightarrow> nat list" where
  "slot m \<equiv> (case m of Some (_, p) \<Rightarrow> [p] | None \<Rightarrow> [])"

definition live :: "('q \<Rightarrow> (u32 \<times> nat) list) \<Rightarrow> ('q, 'd, 'c, 'a) DownstreamProcessor \<Rightarrow> nat list" where
  "live contents ds = map snd (contents (jitterBuffer ds)) @ slot (m1 ds) @ slot (m2 ds)"

text \<open>No two owners share a segment, and every array has its fixed size.\<close>

definition ds_inv ::
    "('q \<Rightarrow> (u32 \<times> nat) list) \<Rightarrow> ('q \<Rightarrow> nat) \<Rightarrow> ('q, 'd, 'c, 'a) DownstreamProcessor \<Rightarrow> bool" where
  "ds_inv contents capacity ds \<longleftrightarrow>
     capacity (jitterBuffer ds) = 100 \<and>
     distinct (live contents ds) \<and> (\<forall>p \<in> set (live contents ds). p < next_addr ds) \<and>
     (\<forall>p. length (heap ds p) = blockSize)"

text \<open>
  The libraries: a noise generator fills the array it is given, the canceller takes 160 samples without an error.
\<close>

definition farend_ok :: "('c, 'a) farend_ops \<Rightarrow> bool" where
  "farend_ok far \<longleftrightarrow>
     (\<forall>pcm b c. length (fst (cng_Generate far pcm b c)) = length pcm) \<and>
     (\<forall>f a. 160 \<le> length f \<longrightarrow> fst (aec_BufferFarend far f 160 a) = 0)"

text \<open>A packet that decodes to less than a block, in the state in which the processor decodes it.\<close>

definition short_packet :: "('d, 'e) opus_ops \<Rightarrow> NetPacket \<Rightarrow> ('q, 'd, 'c, 'a) DownstreamProcessor \<Rightarrow> bool" where
  "short_packet opus p ds \<longleftrightarrow>
     payloadType p = pt_code AudioMessage \<and>
     (case decoder (ds_decoder ds) of
        None \<Rightarrow> False
      | Some d \<Rightarrow>
          let r = fst (opus_decode opus d (payload p) MAX_FRAME_SIZE) in 0 \<le> r \<and> r < int blockSize)"

definition full_packet :: "('d, 'e) opus_ops \<Rightarrow> NetPacket \<Rightarrow> bool" where
  "full_packet opus p \<longleftrightarrow>
     (payloadType p = pt_code AudioMessage \<longrightarrow>
       (\<forall>d. fst (opus_decode opus d (payload p) MAX_FRAME_SIZE) < 0 \<or>
          int blockSize \<le> fst (opus_decode opus d (payload p) MAX_FRAME_SIZE)))"

lemma full_not_short: "full_packet opus p \<Longrightarrow> \<not> short_packet opus p ds"
  unfolding full_packet_def short_packet_def Let_def by (auto split: option.splits) (metis linorder_not_le)+

definition same_playback ::
    "('q, 'd, 'c, 'a) DownstreamProcessor \<Rightarrow> ('q, 'd, 'c, 'a) DownstreamProcessor \<Rightarrow> bool" where
  "same_playback ds ds' \<longleftrightarrow>
     jitterBuffer ds' = jitterBuffer ds \<and> m1 ds' = m1 ds \<and> m2 ds' = m2 ds \<and>
     heap ds' = heap ds \<and> next_addr ds' = next_addr ds \<and> dumpFile ds' = dumpFile ds \<and>
     ds_needAec ds' = ds_needAec ds"

lemma decode_payload_frame:
  "decode_payload opus far p pcm ds = Inr (pcm', ds') \<Longrightarrow> same_playback ds ds'"
  by (auto simp: decode_payload_def same_playback_def Let_def split: if_splits sum.splits prod.splits)

lemma buffer_farend_frame: "buffer_farend far pcm ds = Inr ds' \<Longrightarrow> same_playback ds ds'"
  by (auto simp: buffer_farend_def same_playback_def Let_def split: if_splits prod.splits)

lemma verify_order_frame: "same_playback ds (verify_order p ds)"
  by (simp add: verify_order_def same_playback_def Let_def)

lemma decodeAndAecBufferFarend_frame:
  assumes "decodeAndAecBufferFarend opus far p pcm ds = Inr (pcm', ds')"
  shows "same_playback ds ds'"
proof -
  obtain ds1 ds2 where d: "decode_payload opus far p pcm ds = Inr (pcm', ds1)"
      "buffer_farend far pcm' ds1 = Inr ds2" "ds' = verify_order p ds2"
    using assms by (auto simp: decodeAndAecBufferFarend_def split: sum.splits prod.splits)
  show ?thesis
    using decode_payload_frame [OF d(1)] buffer_farend_frame [OF d(2)] verify_order_frame [of ds2 p]
    unfolding d(3) same_playback_def by simp
qed

lemma decoder_decode_payload:
  "decode_payload opus far p pcm ds = Inr (pcm', ds') \<Longrightarrow>
   (decoder (ds_decoder ds') = None) = (decoder (ds_decoder ds) = None)"
  by (auto simp: decode_payload_def OpusDec_decode_def Let_def
      split: if_splits sum.splits prod.splits option.splits)

lemma decoder_buffer_farend:
  "buffer_farend far pcm ds = Inr ds' \<Longrightarrow> ds_decoder ds' = ds_decoder ds"
  by (auto simp: buffer_farend_def Let_def split: if_splits prod.splits)

lemma decoder_verify_order: "ds_decoder (verify_order p ds) = ds_decoder ds"
  by (simp add: verify_order_def Let_def)

text \<open>Decoding gives at least one block and no fault if the packet is not short.\<close>

lemma decodeAndAecBufferFarend_total:
  assumes "opus_contract opus" and "\<not> short_packet opus p ds" and "farend_ok far"
    and "decoder (ds_decoder ds) \<noteq> None" and "length pcm = blockSize"
  shows "\<exists>pcm' ds'. decodeAndAecBufferFarend opus far p pcm ds = Inr (pcm', ds') \<and>
    blockSize \<le> length pcm' \<and> decoder (ds_decoder ds') \<noteq> None"
proof -
  obtain d where d: "decoder (ds_decoder ds) = Some d"
    using assms(4) by blast
  obtain r out d' where o: "opus_decode opus d (payload p) MAX_FRAME_SIZE = (r, out, d')"
    by (metis surj_pair)
  have out: "length out = MAX_FRAME_SIZE" "r \<le> int MAX_FRAME_SIZE"
    using assms(1) o unfolding opus_contract_def by blast+
  have r: "r < 0 \<or> int blockSize \<le> r" if "payloadType p = pt_code AudioMessage"
    using assms(2) o d that by (auto simp: short_packet_def)
  have "\<exists>pcm' ds1. decode_payload opus far p pcm ds = Inr (pcm', ds1) \<and> blockSize \<le> length pcm'"
  proof -
    have "blockSize \<le> length (take (nat r) out)" if "\<not> r < 0" "payloadType p = pt_code AudioMessage"
      using that r out by simp
    moreover have "length (fst (cng_Generate far pcm b c)) = blockSize" for b c
      using assms(3,5) by (simp add: farend_ok_def)
    ultimately show ?thesis
      using OpusDec_decode_eq [OF assms(1) d o, of pcm] assms(5)
      by (auto simp: decode_payload_def Let_def case_prod_beta simp del: pt_code.simps)
  qed
  then obtain pcm' ds1 where p: "decode_payload opus far p pcm ds = Inr (pcm', ds1)"
      "blockSize \<le> length pcm'" by blast
  have "\<exists>ds2. buffer_farend far pcm' ds1 = Inr ds2"
    using p(2) assms(3) by (auto simp: buffer_farend_def farend_ok_def blockSize_160 Let_def case_prod_beta)
  then obtain ds2 where b: "buffer_farend far pcm' ds1 = Inr ds2" by blast
  show ?thesis
    using p b assms(4) decoder_decode_payload [OF p(1)] decoder_buffer_farend [OF b]
    by (auto simp: decodeAndAecBufferFarend_def decoder_verify_order)
qed

text \<open>
  A short packet is read past its end: by the echo canceller, which gets an array of floats of the decoded length, or
  else by the copy into the segment.
\<close>

lemma short_packet_faults:
  assumes "opus_contract opus" and "short_packet opus p ds"
  shows "DownstreamProcessor_append opus far qlib p ds = Inl (if ds_needAec ds then OutOfBounds else PastSize)"
proof -
  obtain d r out d' where d: "decoder (ds_decoder ds) = Some d" "payloadType p = pt_code AudioMessage"
    and o: "opus_decode opus d (payload p) MAX_FRAME_SIZE = (r, out, d')" and r: "0 \<le> r" "r < 160"
    using assms(2) by (auto simp: short_packet_def blockSize_160 Let_def simp del: pt_code.simps split: option.splits)
      (metis prod.collapse)
  let ?ds = "ds\<lparr>ds_decoder := (ds_decoder ds)\<lparr>decoder := Some d'\<rparr>, lastIsCnPacket := False\<rparr>"
  have dp: "decode_payload opus far p (replicate blockSize 0) ds = Inr (take (nat r) out, ?ds)"
    using OpusDec_decode_eq [OF assms(1) d(1) o, of "replicate blockSize 0"] d(2) r(1)
    by (simp add: decode_payload_def)
  have l: "length (take (nat r) out) < 160"
    using r by simp
  show ?thesis
  proof (cases "ds_needAec ds")
    case True
    then have "buffer_farend far (take (nat r) out) ?ds = Inl OutOfBounds"
      using l by (simp add: buffer_farend_def)
    then show ?thesis
      using dp True by (simp add: DownstreamProcessor_append_def decodeAndAecBufferFarend_def Let_def)
  next
    case False
    then have "buffer_farend far (take (nat r) out) ?ds = Inr ?ds"
      by (simp add: buffer_farend_def)
    then show ?thesis
      using dp l False by (simp add: DownstreamProcessor_append_def decodeAndAecBufferFarend_def Let_def
          make_segment_def blockSize_160)
  qed
qed

subsection \<open>The playback that the processor implements\<close>

text \<open>
  The abstract playback has no addresses: a list of decoded blocks and the two slots. A fetch with
  an empty list fades the block that it plays, once two blocks have been taken, and puts comfort
  noise behind it.
\<close>

type_synonym playback = "PcmSegment list \<times> PcmSegment option \<times> PcmSegment option"

abbreviation silence :: PcmSegment where
  "silence \<equiv> replicate 160 0"

abbreviation play :: "PcmSegment option \<Rightarrow> PcmSegment" where
  "play a \<equiv> (case a of Some x \<Rightarrow> x | None \<Rightarrow> silence)"

fun playback_fetch :: "PcmSegment \<Rightarrow> playback \<Rightarrow> PcmSegment \<times> playback" where
  "playback_fetch cn (x # xs, a, b) = (play a, xs, Some x, a)"
| "playback_fetch cn ([], Some x, Some y) = (faded 0 x, [], Some cn, Some (faded 0 x))"
| "playback_fetch cn ([], a, b) = (play a, [], Some silence, a)"

fun playback_append :: "PcmSegment \<Rightarrow> playback \<Rightarrow> playback" where
  "playback_append seg (xs, a, b) = (if length xs < 100 then xs @ [seg] else xs, a, b)"

definition view ::
    "store \<Rightarrow> (u32 \<times> nat) list \<Rightarrow> (u32 \<times> nat) option \<Rightarrow> (u32 \<times> nat) option \<Rightarrow> playback" where
  "view h xs a b =
     (map (\<lambda>d. h (snd d)) xs, map_option (\<lambda>d. h (snd d)) a, map_option (\<lambda>d. h (snd d)) b)"

definition playback_of ::
    "('q \<Rightarrow> (u32 \<times> nat) list) \<Rightarrow> ('q, 'd, 'c, 'a) DownstreamProcessor \<Rightarrow> playback" where
  "playback_of contents ds = view (heap ds) (contents (jitterBuffer ds)) (m1 ds) (m2 ds)"

lemma view_simps [simp]:
  "view h [] a b = ([], map_option (\<lambda>d. h (snd d)) a, map_option (\<lambda>d. h (snd d)) b)"
  "view h (d # xs) a b =
     (h (snd d) # map (\<lambda>d. h (snd d)) xs, map_option (\<lambda>d. h (snd d)) a, map_option (\<lambda>d. h (snd d)) b)"
  by (simp_all add: view_def)

lemma view_fresh:
  "p \<notin> set (map snd xs @ slot a @ slot b) \<Longrightarrow> view (h(p := v)) xs a b = view h xs a b"
  by (cases a; cases b) (auto simp: view_def)

lemma play_slot_fields:
  "fst (play_slot lib up d ds) = play (map_option (\<lambda>d. heap ds (snd d)) (m1 ds))"
  "heap (snd (play_slot lib up d ds)) = heap ds"
  "jitterBuffer (snd (play_slot lib up d ds)) = jitterBuffer ds"
  "m1 (snd (play_slot lib up d ds)) = Some d" "m2 (snd (play_slot lib up d ds)) = m1 ds"
  "next_addr (snd (play_slot lib up d ds)) = next_addr ds"
  "ds_decoder (snd (play_slot lib up d ds)) = ds_decoder ds"
  by (simp_all add: play_slot_def blockSize_160 Let_def split: option.splits)

text \<open>The noise block the next concealment inserts.\<close>

definition next_noise :: "('c, 'a) farend_ops \<Rightarrow> ('q, 'd, 'c, 'a) DownstreamProcessor \<Rightarrow> PcmSegment" where
  "next_noise far ds =
     take 160 (fst (cng_Generate far (replicate 160 0) (lastIsCnPacket ds) (cnDecoder ds)))"

locale segment_queue = spsc_queue lib contents capacity
  for lib :: "(u32 \<times> nat, 'q) spsc_ops" and contents and capacity
begin

lemma append_step:
  assumes "ds_inv contents capacity ds"
    and "decodeAndAecBufferFarend opus far p (replicate blockSize 0) ds = Inr (pcm, ds1)"
    and "blockSize \<le> length pcm"
  shows "\<exists>ds'. DownstreamProcessor_append opus far lib p ds = Inr ds' \<and>
    ds_inv contents capacity ds' \<and> ds_decoder ds' = ds_decoder ds1 \<and>
    playback_of contents ds' = playback_append (take blockSize pcm) (playback_of contents ds)"
proof -
  let ?n = "next_addr ds" and ?q = "jitterBuffer ds"
  have f: "jitterBuffer ds1 = ?q" "m1 ds1 = m1 ds" "m2 ds1 = m2 ds" "heap ds1 = heap ds"
    "next_addr ds1 = ?n"
    using decodeAndAecBufferFarend_frame [OF assms(2)] by (simp_all add: same_playback_def)
  have c: "capacity ?q = 100" and l: "distinct (live contents ds)"
    "\<forall>p \<in> set (live contents ds). p < ?n" "\<forall>p. length (heap ds p) = 160"
    using assms(1) by (simp_all add: ds_inv_def blockSize_160)
  let ?ds = "ds1\<lparr>heap := (heap ds)(?n := take blockSize pcm), next_addr := ?n + 1,
      jitterBuffer := JitterBuffer_append lib (timestamp p, ?n) ?q\<rparr>"
  have r: "DownstreamProcessor_append opus far lib p ds = Inr ?ds"
    using assms(2,3) f by (simp add: DownstreamProcessor_append_def make_segment_def Let_def)
  have q: "contents (JitterBuffer_append lib (timestamp p, ?n) ?q) =
      (if length (contents ?q) < 100 then contents ?q @ [(timestamp p, ?n)] else contents ?q)"
    "capacity (JitterBuffer_append lib (timestamp p, ?n) ?q) = 100"
    using jitter.append [OF c] jitter.usable_append [OF c] by blast+
  have "?n \<notin> set (live contents ds)"
    using l(2) by blast
  then have "ds_inv contents capacity ?ds"
    using l assms(3) f q by (auto simp: ds_inv_def live_def blockSize_160 less_Suc_eq)
  moreover have "playback_of contents ?ds = playback_append (take blockSize pcm) (playback_of contents ds)"
    using view_fresh [of ?n "contents ?q" "m1 ds" "m2 ds" "heap ds" "take blockSize pcm"] f q
      \<open>?n \<notin> set (live contents ds)\<close>
    by (auto simp: playback_of_def live_def view_def)
  ultimately show ?thesis
    using r by (intro exI [of _ ?ds]) simp
qed

lemma conceal_step:
  assumes "farend_ok far" and "m1 ds = Some (t1, s1)" and "m2 ds = Some (t2, s2)"
    and "s1 \<noteq> s2" and "p \<noteq> s1" and "p \<noteq> s2"
  shows "\<exists>ds'. conceal far p ds = Inr ds' \<and>
    heap ds' = (heap ds)(s1 := faded 0 (heap ds s1), s2 := faded 1 (heap ds s2), p := next_noise far ds) \<and>
    jitterBuffer ds' = jitterBuffer ds \<and> m1 ds' = m1 ds \<and> m2 ds' = m2 ds \<and>
    next_addr ds' = next_addr ds \<and> ds_decoder ds' = ds_decoder ds"
  using assms
  by (simp add: conceal_def ZeroInsertion_predict_def FadeExponential_fade_out_two next_noise_def
      blockSize_160 case_prod_beta)

lemma fetch_step:
  assumes "ds_inv contents capacity ds" and "farend_ok far"
  shows "\<exists>out ds'. DownstreamProcessor_fetch far lib up ds = Inr (out, ds') \<and>
    ds_inv contents capacity ds' \<and> ds_decoder ds' = ds_decoder ds \<and>
    (out, playback_of contents ds') = playback_fetch (next_noise far ds) (playback_of contents ds)"
proof -
  let ?q = "jitterBuffer ds" and ?n = "next_addr ds"
  have c: "capacity ?q = 100" and l: "distinct (live contents ds)"
    "\<forall>p \<in> set (live contents ds). p < ?n" "\<forall>p. length (heap ds p) = 160"
    using assms(1) by (simp_all add: ds_inv_def blockSize_160)
  obtain r q' where f: "JitterBuffer_fetch lib ?q = (r, q')"
    by fastforce
  have q': "capacity q' = 100" "contents q' = tl (contents ?q)"
    "r = (case contents ?q of [] \<Rightarrow> None | x # _ \<Rightarrow> Some x)"
    using jitter.usable_fetch [OF c] jitter.contents_fetch [OF c] jitter.fetch [OF c] by (simp_all add: f)
  show ?thesis
  proof (cases "contents ?q")
    case (Cons d rest)
    let ?r = "play_slot lib up d (ds\<lparr>jitterBuffer := q'\<rparr>)"
    have "DownstreamProcessor_fetch far lib up ds = Inr ?r"
      using Cons q' f by (simp add: DownstreamProcessor_fetch_def)
    moreover have "ds_inv contents capacity (snd ?r)"
    proof -
      have "live contents (snd ?r) = map snd rest @ [snd d] @ slot (m1 ds)"
        "live contents ds = snd d # map snd rest @ slot (m1 ds) @ slot (m2 ds)"
        using q' Cons by (simp_all add: live_def play_slot_fields split: prod.splits)
      then show ?thesis
        using l q'(1) by (auto simp: ds_inv_def play_slot_fields blockSize_160)
    qed
    moreover have "(fst ?r, playback_of contents (snd ?r)) = playback_fetch (next_noise far ds) (playback_of contents ds)"
      using q' Cons by (simp add: playback_of_def play_slot_fields) (simp add: view_def)
    moreover have "ds_decoder (snd ?r) = ds_decoder ds"
      by (simp add: play_slot_fields)
    ultimately show ?thesis
      by (metis prod.collapse)
  next
    case Nil
    let ?ds = "ds\<lparr>jitterBuffer := q', heap := (heap ds)(?n := silence), next_addr := ?n + 1\<rparr>"
    have q: "contents q' = []" "r = None"
      using q' Nil by simp_all
    have noise: "next_noise far ?ds = next_noise far ds" "length (next_noise far ds) = 160"
      using assms(2) by (simp_all add: next_noise_def farend_ok_def)
    have "\<exists>ds1. conceal far ?n ?ds = Inr ds1 \<and>
      jitterBuffer ds1 = q' \<and> m1 ds1 = m1 ds \<and> next_addr ds1 = ?n + 1 \<and> ds_decoder ds1 = ds_decoder ds \<and>
      (\<forall>p. length (heap ds1 p) = 160) \<and>
      (play (map_option (\<lambda>d. heap ds1 (snd d)) (m1 ds)), view (heap ds1) [] (Some (0, ?n)) (m1 ds)) =
        playback_fetch (next_noise far ds) (playback_of contents ds)"
    proof (cases "m1 ds = None \<or> m2 ds = None")
      case True
      then have "conceal far ?n ?ds = Inr ?ds"
        by (auto simp: conceal_def split: option.splits)
      moreover have "view (heap ?ds) [] None (m1 ds) = view (heap ds) [] None (m1 ds)"
        using view_fresh [of ?n "[]" None "m1 ds" "heap ds" silence] l
        by (auto simp: live_def split: option.splits)
      ultimately show ?thesis
        using l Nil True
        by (cases "m1 ds"; cases "m2 ds") (auto simp: playback_of_def)
    next
      case False
      then obtain t1 s1 t2 s2 where m: "m1 ds = Some (t1, s1)" "m2 ds = Some (t2, s2)"
        by auto
      have n: "s1 \<noteq> s2" "?n \<noteq> s1" "?n \<noteq> s2" "s1 < ?n"
        using l m by (auto simp: live_def)
      obtain ds1 where d: "conceal far ?n ?ds = Inr ds1"
          "heap ds1 = (heap ?ds)(s1 := faded 0 (heap ?ds s1), s2 := faded 1 (heap ?ds s2), ?n := next_noise far ?ds)"
          "jitterBuffer ds1 = q'" "m1 ds1 = m1 ds" "next_addr ds1 = ?n + 1" "ds_decoder ds1 = ds_decoder ds"
        using conceal_step [OF assms(2), of ?ds t1 s1 t2 s2 ?n] m n by auto
      with m n l Nil noise show ?thesis
        by (auto simp: playback_of_def)
    qed
    then obtain ds1 where d: "conceal far ?n ?ds = Inr ds1" "jitterBuffer ds1 = q'" "m1 ds1 = m1 ds"
        "next_addr ds1 = ?n + 1" "ds_decoder ds1 = ds_decoder ds" "\<forall>p. length (heap ds1 p) = 160"
        "(play (map_option (\<lambda>d. heap ds1 (snd d)) (m1 ds)), view (heap ds1) [] (Some (0, ?n)) (m1 ds)) =
          playback_fetch (next_noise far ds) (playback_of contents ds)"
      by blast
    let ?r = "play_slot lib up (0, ?n) ds1"
    have "DownstreamProcessor_fetch far lib up ds = Inr ?r"
      using q f d(1) by (simp add: DownstreamProcessor_fetch_def make_segment_def blockSize_160)
    moreover have "ds_inv contents capacity (snd ?r)"
    proof -
      have "live contents (snd ?r) = ?n # slot (m1 ds)"
        "live contents ds = slot (m1 ds) @ slot (m2 ds)"
        using q d Nil by (simp_all add: live_def play_slot_fields)
      then show ?thesis
        using l q'(1) d(2,4,6)
        by (cases "m1 ds") (auto simp: ds_inv_def play_slot_fields blockSize_160 less_Suc_eq)
    qed
    moreover have "(fst ?r, playback_of contents (snd ?r)) = playback_fetch (next_noise far ds) (playback_of contents ds)"
      using d q unfolding playback_of_def play_slot_fields by metis
    moreover have "ds_decoder (snd ?r) = ds_decoder ds"
      by (simp add: play_slot_fields d(5))
    ultimately show ?thesis
      by (metis prod.collapse)
  qed
qed

end

subsection \<open>Runs\<close>

text \<open>
  The calls of the two threads in the order in which they happen; the results are the blocks
  that the audio callback plays.
\<close>

datatype ds_call =
    Received NetPacket
  | Callback u32

fun ds_run ::
    "('d, 'e) opus_ops \<Rightarrow> ('c, 'a) farend_ops \<Rightarrow> (u32 \<times> nat, 'q) spsc_ops \<Rightarrow> ds_call list \<Rightarrow>
     ('q, 'd, 'c, 'a) DownstreamProcessor \<Rightarrow> fault + PcmSegment list \<times> ('q, 'd, 'c, 'a) DownstreamProcessor" where
  "ds_run opus far qlib [] ds = Inr ([], ds)"
| "ds_run opus far qlib (Received p # calls) ds =
     (case DownstreamProcessor_append opus far qlib p ds of
        Inl e \<Rightarrow> Inl e
      | Inr ds \<Rightarrow> ds_run opus far qlib calls ds)"
| "ds_run opus far qlib (Callback up # calls) ds =
     (case DownstreamProcessor_fetch far qlib up ds of
        Inl e \<Rightarrow> Inl e
      | Inr (out, ds) \<Rightarrow>
          (case ds_run opus far qlib calls ds of
             Inl e \<Rightarrow> Inl e
           | Inr (outs, ds) \<Rightarrow> Inr (out # outs, ds)))"

lemma length_playback_fetch:
  assumes "(out, y) = playback_fetch cn (xs, a, b)"
    and "\<forall>z. a = Some z \<longrightarrow> length z = 160"
  shows "length out = 160"
  using assms by (cases xs; cases a; cases b) auto

text \<open>A run that gets through, with full blocks, and one that ends at the first short packet.\<close>

definition full_run ::
    "('q \<Rightarrow> (u32 \<times> nat) list) \<Rightarrow> ('q \<Rightarrow> nat) \<Rightarrow> ('d, 'e) opus_ops \<Rightarrow> ('c, 'a) farend_ops \<Rightarrow> (u32 \<times> nat, 'q) spsc_ops \<Rightarrow>
     ds_call list \<Rightarrow> ('q, 'd, 'c, 'a) DownstreamProcessor \<Rightarrow> PcmSegment list \<Rightarrow> ('q, 'd, 'c, 'a) DownstreamProcessor \<Rightarrow> bool" where
  "full_run contents capacity opus far qlib calls ds outs ds' \<longleftrightarrow>
     ds_run opus far qlib calls ds = Inr (outs, ds') \<and> ds_inv contents capacity ds' \<and>
     (\<forall>out \<in> set outs. length out = blockSize)"

definition short_run ::
    "('q \<Rightarrow> (u32 \<times> nat) list) \<Rightarrow> ('q \<Rightarrow> nat) \<Rightarrow> ('d, 'e) opus_ops \<Rightarrow> ('c, 'a) farend_ops \<Rightarrow> (u32 \<times> nat, 'q) spsc_ops \<Rightarrow>
     ds_call list \<Rightarrow> ('q, 'd, 'c, 'a) DownstreamProcessor \<Rightarrow> bool" where
  "short_run contents capacity opus far qlib calls ds \<longleftrightarrow>
     (\<exists>pre p post outs ds'. calls = pre @ Received p # post \<and> full_run contents capacity opus far qlib pre ds outs ds' \<and>
       short_packet opus p ds' \<and>
       ds_run opus far qlib calls ds = Inl (if ds_needAec ds' then OutOfBounds else PastSize))"

context segment_queue
begin

lemma short_run_Received:
  assumes "DownstreamProcessor_append opus far lib p ds = Inr ds1" and "short_run contents capacity opus far lib calls ds1"
  shows "short_run contents capacity opus far lib (Received p # calls) ds"
proof -
  obtain pre q post outs ds' where c: "calls = pre @ Received q # post" "full_run contents capacity opus far lib pre ds1 outs ds'"
      "short_packet opus q ds'" "ds_run opus far lib calls ds1 = Inl (if ds_needAec ds' then OutOfBounds else PastSize)"
    using assms(2) by (auto simp: short_run_def)
  then show ?thesis
    unfolding short_run_def using assms(1)
    by (intro exI [of _ "Received p # pre"] exI [of _ q] exI [of _ post] exI [of _ outs] exI [of _ ds'])
      (simp add: full_run_def)
qed

lemma short_run_Callback:
  assumes "DownstreamProcessor_fetch far lib up ds = Inr (out, ds1)" and "length out = blockSize" and "short_run contents capacity opus far lib calls ds1"
  shows "short_run contents capacity opus far lib (Callback up # calls) ds"
proof -
  obtain pre q post outs ds' where c: "calls = pre @ Received q # post" "full_run contents capacity opus far lib pre ds1 outs ds'"
      "short_packet opus q ds'" "ds_run opus far lib calls ds1 = Inl (if ds_needAec ds' then OutOfBounds else PastSize)"
    using assms(3) by (auto simp: short_run_def)
  then show ?thesis
    unfolding short_run_def using assms(1,2)
    by (intro exI [of _ "Callback up # pre"] exI [of _ q] exI [of _ post] exI [of _ "out # outs"] exI [of _ ds'])
      (simp add: full_run_def)
qed

lemma run_cases:
  assumes "opus_contract opus" and "farend_ok far" and "ds_inv contents capacity ds" and "decoder (ds_decoder ds) \<noteq> None"
  shows "(\<exists>outs ds'. full_run contents capacity opus far lib calls ds outs ds') \<or> short_run contents capacity opus far lib calls ds"
  using assms(3,4)
proof (induction calls arbitrary: ds)
  case Nil
  then show ?case by (simp add: full_run_def)
next
  case (Cons call calls)
  show ?case
  proof (cases call)
    case (Received p)
    show ?thesis
    proof (cases "short_packet opus p ds")
      case True
      then have "full_run contents capacity opus far lib [] ds [] ds" "ds_run opus far lib (call # calls) ds =
          Inl (if ds_needAec ds then OutOfBounds else PastSize)"
        using short_packet_faults [OF assms(1) True, of far lib] Cons.prems(1) by (simp_all add: Received full_run_def)
      with True show ?thesis
        unfolding short_run_def Received by (metis append_Nil)
    next
      case False
      obtain pcm ds1 where d: "decodeAndAecBufferFarend opus far p (replicate blockSize 0) ds = Inr (pcm, ds1)"
          "blockSize \<le> length pcm" "decoder (ds_decoder ds1) \<noteq> None"
        using decodeAndAecBufferFarend_total [OF assms(1) False assms(2) Cons.prems(2) length_replicate] by blast
      obtain ds' where a: "DownstreamProcessor_append opus far lib p ds = Inr ds'"
          "ds_inv contents capacity ds'" "ds_decoder ds' = ds_decoder ds1"
        using append_step [OF Cons.prems(1) d(1,2)] by blast
      then show ?thesis
        using Cons.IH [OF a(2)] d(3) short_run_Received [OF a(1), of calls] by (auto simp: Received full_run_def)
    qed
  next
    case (Callback up)
    obtain out ds' where f: "DownstreamProcessor_fetch far lib up ds = Inr (out, ds')"
        "ds_inv contents capacity ds'" "ds_decoder ds' = ds_decoder ds"
        "(out, playback_of contents ds') = playback_fetch (next_noise far ds) (playback_of contents ds)"
      using fetch_step [OF Cons.prems(1) assms(2)] by blast
    have l: "length out = blockSize"
      using Cons.prems(1) f(4) unfolding playback_of_def view_def blockSize_160
      by (elim length_playback_fetch) (auto simp: ds_inv_def blockSize_160)
    then show ?thesis
      using Cons.IH [OF f(2)] f(1,3) Cons.prems(2) short_run_Callback [OF f(1) l, of opus calls]
      by (auto simp: Callback full_run_def)
  qed
qed

lemma run_total:
  assumes "opus_contract opus" and "\<And>p. Received p \<in> set calls \<Longrightarrow> full_packet opus p" and "farend_ok far"
    and "ds_inv contents capacity ds" and "decoder (ds_decoder ds) \<noteq> None"
  shows "\<exists>outs ds'. ds_run opus far lib calls ds = Inr (outs, ds') \<and> ds_inv contents capacity ds' \<and>
    (\<forall>out \<in> set outs. length out = 160)"
  using run_cases [OF assms(1,3-5), of calls] assms(2) full_not_short
  unfolding full_run_def short_run_def blockSize_160 by fastforce

lemma new_inv:
  "ds_inv contents capacity (DownstreamProcessor_new opus lib dec cng prof needAec aec path isOpen)"
  using jitter.empty by (simp add: ds_inv_def live_def DownstreamProcessor_new_def)

lemma drain:
  assumes "farend_ok far" and "ds_inv contents capacity ds" and "playback_of contents ds = (xs, a, b)"
    and "length ups = length xs"
  shows "\<exists>ds'. ds_run opus far lib (map Callback ups) ds = Inr (take (length xs) (play a # xs), ds') \<and>
    ds_inv contents capacity ds' \<and>
    playback_of contents ds' =
      ([], foldl (\<lambda>(a, b) x. (Some x, a)) (a, b) xs)"
  using assms(2-4)
proof (induction xs arbitrary: ds a b ups)
  case (Cons x xs)
  obtain up ups' where u: "ups = up # ups'" "length ups' = length xs"
    using Cons.prems(3) by (cases ups) auto
  obtain out ds' where f: "DownstreamProcessor_fetch far lib up ds = Inr (out, ds')"
      "ds_inv contents capacity ds'"
      "(out, playback_of contents ds') = playback_fetch (next_noise far ds) (playback_of contents ds)"
    using fetch_step [OF Cons.prems(1) assms(1)] by blast
  then have "out = play a" "playback_of contents ds' = (xs, Some x, a)"
    by (simp_all add: Cons.prems(2))
  then show ?case
    using Cons.IH [OF f(2) _ u(2), of "Some x" a] f(1) by (auto simp: u(1))
qed simp

lemma run_append:
  "ds_run opus far lib xs ds = Inr (outs, ds1) \<Longrightarrow>
   ds_run opus far lib (xs @ ys) ds =
     (case ds_run opus far lib ys ds1 of Inl e \<Rightarrow> Inl e | Inr (outs', ds2) \<Rightarrow> Inr (outs @ outs', ds2))"
proof (induction xs arbitrary: ds outs)
  case (Cons c xs)
  then show ?case
    by (cases c) (auto split: sum.splits prod.splits)
qed (auto split: sum.splits)

end

lemma foldl_slots:
  assumes "2 \<le> length xs"
  shows "foldl (\<lambda>(a, b) x. (Some x, a)) (a, b) xs = (Some (last xs), Some (last (butlast xs)))"
proof (cases xs rule: rev_cases)
  case (snoc ys z)
  then show ?thesis
    using assms by (cases ys rule: rev_cases) (simp_all add: case_prod_beta butlast_append)
qed (use assms in simp)

context segment_queue
begin

lemma burst:
  assumes "ds_inv contents capacity ds" and "farend_ok far"
    and "playback_of contents ds = (xs, None, None)" and "2 \<le> length xs"
    and "length ups = length xs"
  shows "\<exists>ds'. ds_run opus far lib (map Callback (ups @ [up])) ds =
    Inr (silence # butlast xs @ [faded 0 (last xs)], ds')"
proof -
  obtain ds1 where d: "ds_run opus far lib (map Callback ups) ds = Inr (take (length xs) (silence # xs), ds1)"
      "ds_inv contents capacity ds1" "playback_of contents ds1 = ([], Some (last xs), Some (last (butlast xs)))"
    using drain [OF assms(2,1,3,5), of opus] foldl_slots [OF assms(4), of None None] by auto
  obtain out ds' where f: "DownstreamProcessor_fetch far lib up ds1 = Inr (out, ds')"
      "(out, playback_of contents ds') = playback_fetch (next_noise far ds1) (playback_of contents ds1)"
    using fetch_step [OF d(2) assms(2)] by blast
  have "out = faded 0 (last xs)"
    using f(2) by (simp add: d(3))
  moreover have "take (length xs) (silence # xs) = silence # butlast xs"
    using assms(4) by (cases xs) (simp_all add: take_Cons' butlast_conv_take)
  ultimately show ?thesis
    using run_append [OF d(1), of "[Callback up]"] f(1) by simp
qed

end

interpretation list_segments: segment_queue list_queue snd fst
  by unfold_locales

text \<open>Libraries for concrete inputs: noise that fills with a constant, a canceller that accepts all.\<close>

definition toy_farend :: "(unit, unit) farend_ops" where
  "toy_farend =
     \<lparr>cng_UpdateSid = (\<lambda>_ c. c),
      cng_Generate = (\<lambda>pcm _ c. (map (\<lambda>_. 3) pcm, c)),
      aec_BufferFarend = (\<lambda>_ _ a. (0, a))\<rparr>"

definition toy_downstream :: "(nat \<times> (u32 \<times> nat) list, unit, unit, unit) DownstreamProcessor" where
  "toy_downstream =
     DownstreamProcessor_new (toy_opus 160) list_queue \<lparr>dec_err = 0, decoder = None\<rparr> ()
       (EventList_new True ''audioOutBufferSize_.csv'') False () [] False"

lemma farend_ok_toy [simp]: "farend_ok toy_farend"
  by (simp add: farend_ok_def toy_farend_def)

lemma full_packet_toy [simp]: "full_packet (toy_opus k) p" if "160 \<le> k"
  using that by (simp add: full_packet_def toy_opus_def blockSize_160 MAX_FRAME_SIZE_def)

subsection \<open>Properties of the processor\<close>

text \<open>
  C5: only a short packet can stop the processor. With a queue and an Opus library that meet their contracts, whatever
  packets are received, however they interleave with the audio callbacks: the calls on a new processor run to
  their end, every callback gets a block of 160 samples, and no segment has two owners in the final state, so that the
  in-place fading never changes a queued block; or the first audio packet that decodes to less than 160 samples is
  read past its end. Until then everything was as in the first case.
\<close>
theorem downstream_faults_on_short_packets:
  fixes dec and cng and prof and needAec and aec and path and isOpen
  assumes "spsc_queue qlib contents capacity" and "opus_contract opus"
    and "farend_ok far" and "fst (opus_decoder_create opus sampleRate 1) \<noteq> None"
  defines "ds \<equiv> DownstreamProcessor_new opus qlib dec cng prof needAec aec path isOpen"
  shows "(\<exists>outs ds'. ds_run opus far qlib calls ds = Inr (outs, ds') \<and>
      ds_inv contents capacity ds' \<and> (\<forall>out \<in> set outs. length out = blockSize)) \<or>
    (\<exists>pre p post outs ds'. calls = pre @ Received p # post \<and> ds_run opus far qlib pre ds = Inr (outs, ds') \<and>
      ds_inv contents capacity ds' \<and> (\<forall>out \<in> set outs. length out = blockSize) \<and> short_packet opus p ds' \<and>
      ds_run opus far qlib calls ds = Inl (if ds_needAec ds' then OutOfBounds else PastSize))"
proof -
  have q: "segment_queue qlib contents capacity"
    using assms(1) by (simp add: segment_queue_def)
  have inv: "ds_inv contents capacity ds"
    unfolding ds_def by (rule segment_queue.new_inv [OF q])
  have "decoder (ds_decoder ds) \<noteq> None"
    using assms(4) by (simp add: ds_def DownstreamProcessor_new_def OpusDec_reInit_def Let_def case_prod_beta)
  then show ?thesis
    using segment_queue.run_cases [OF q assms(2,3) inv, of calls] unfolding short_run_def full_run_def by blast
qed

theorem downstream_faults_on_short_packets_witness:
  "\<exists>outs ds. ds_run (toy_opus 160) toy_farend list_queue [Received (NetPacket_new 0 5 7 1), Callback 9]
     toy_downstream = Inr (outs, ds) \<and> (\<forall>out \<in> set outs. length out = 160)"
proof -
  have c: "fst (opus_decoder_create (toy_opus 160) sampleRate 1) \<noteq> None"
    by (simp add: toy_opus_def)
  have "\<not> short_packet (toy_opus 160) p ds" for p and ds :: "(nat \<times> (u32 \<times> nat) list, unit, unit, unit) DownstreamProcessor"
    by (rule full_not_short) simp
  with downstream_faults_on_short_packets [OF list_queue.spsc_queue_axioms opus_contract_toy farend_ok_toy c,
      of "[Received (NetPacket_new 0 5 7 1), Callback 9]" "\<lparr>dec_err = 0, decoder = None\<rparr>" "()"
      "EventList_new True ''audioOutBufferSize_.csv''" False "()" "[]" False]
  show ?thesis
    unfolding toy_downstream_def blockSize_160 by blast
qed

text \<open>
  C6: the audio callback refines the abstract playback. In every state without shared segments a
  fetch returns, keeps that invariant, and its block and new state are those of the playback over
  plain blocks: it plays what the previous fetch took out of the queue; with an empty queue it
  fades the block it plays, once two have been taken, and queues comfort noise behind it.
\<close>
theorem fetch_refines_playback:
  assumes "spsc_queue qlib contents capacity" and "ds_inv contents capacity ds" and "farend_ok far"
  shows "\<exists>out ds'. DownstreamProcessor_fetch far qlib up ds = Inr (out, ds') \<and>
    ds_inv contents capacity ds' \<and>
    (out, playback_of contents ds') = playback_fetch (next_noise far ds) (playback_of contents ds)"
proof -
  have "segment_queue qlib contents capacity"
    using assms(1) by (simp add: segment_queue_def)
  then show ?thesis
    using segment_queue.fetch_step [OF _ assms(2,3)] by blast
qed

theorem fetch_refines_playback_witness:
  "\<exists>out ds'. DownstreamProcessor_fetch toy_farend list_queue 7 toy_downstream = Inr (out, ds') \<and>
     out = replicate 160 0"
proof -
  have "ds_inv snd fst toy_downstream"
    unfolding toy_downstream_def by (rule list_segments.new_inv)
  moreover have "playback_of snd toy_downstream = ([], None, None)"
    by (simp add: toy_downstream_def playback_of_def DownstreamProcessor_new_def JitterBuffer_new_def
        list_queue_def)
  ultimately show ?thesis
    using fetch_refines_playback [OF list_queue.spsc_queue_axioms _ farend_ok_toy, of toy_downstream 7] by auto
qed

text \<open>
  C22: what is heard of a burst. If n received blocks (n at least 2) wait in the queue and nothing was
  taken yet, then n + 1 callbacks play silence, the first n - 1 blocks unchanged and in order, and
  then the last block faded out, since the queue has run dry: one block of delay, no loss, no
  reordering, and a faded end.
\<close>
theorem burst_playback:
  assumes "spsc_queue qlib contents capacity" and "ds_inv contents capacity ds" and "farend_ok far"
    and "playback_of contents ds = (xs, None, None)" and "2 \<le> length xs"
    and "length ups = length xs"
  shows "\<exists>ds'. ds_run opus far qlib (map Callback (ups @ [up])) ds =
    Inr (silence # butlast xs @ [faded 0 (last xs)], ds')"
  using segment_queue.burst [OF _ assms(2-6), of qlib opus] assms(1) by (simp add: segment_queue_def)

theorem burst_playback_witness:
  "\<exists>ds'. ds_run (toy_opus 160) toy_farend list_queue (map Callback ([0, 10] @ [20]))
     (toy_downstream\<lparr>jitterBuffer := (100, [(1, 0), (2, 1)]), next_addr := 2\<rparr>) =
     Inr (silence # butlast [silence, silence] @ [faded 0 (last [silence, silence])], ds')"
  by (rule burst_playback [OF list_queue.spsc_queue_axioms _ farend_ok_toy])
    (simp_all add: toy_downstream_def DownstreamProcessor_new_def ds_inv_def live_def playback_of_def
      view_def blockSize_160)

text \<open>A packet of frames of five milliseconds, in short.\<close>

lemma short_packet_faults_witness:
  "DownstreamProcessor_append (toy_opus 80) toy_farend list_queue (NetPacket_new 0 5 7 1)
     toy_downstream = Inl PastSize"
  using short_packet_faults [of "toy_opus 80" "NetPacket_new 0 5 7 1" toy_downstream toy_farend list_queue]
  by (simp add: short_packet_def packet_simps toy_downstream_def DownstreamProcessor_new_def OpusDec_reInit_def
      toy_opus_def MAX_FRAME_SIZE_def blockSize_160 opus_contract_toy [unfolded toy_opus_def])

text \<open>What a call logs and what becomes of the last serial number.\<close>

definition same_check :: "('q, 'd, 'c, 'a) DownstreamProcessor \<Rightarrow> ('q, 'd, 'c, 'a) DownstreamProcessor \<Rightarrow> bool" where
  "same_check ds ds' \<longleftrightarrow> ds_log ds' = ds_log ds \<and> lastReceivedAudioSn ds' = lastReceivedAudioSn ds"

lemma decode_payload_check: "decode_payload opus far p pcm ds = Inr (pcm', ds') \<Longrightarrow> same_check ds ds'"
  by (auto simp: decode_payload_def same_check_def Let_def split: if_splits sum.splits prod.splits)

lemma buffer_farend_check: "buffer_farend far pcm ds = Inr ds' \<Longrightarrow> same_check ds ds'"
  by (auto simp: buffer_farend_def same_check_def Let_def split: if_splits prod.splits)

lemma append_check:
  assumes "DownstreamProcessor_append opus far qlib p ds = Inr ds'"
  shows "ds_log ds' = ds_log (verify_order p ds)" and "lastReceivedAudioSn ds' = serialNumber p"
proof -
  obtain pcm ds1 ds2 where d: "decode_payload opus far p (replicate blockSize 0) ds = Inr (pcm, ds1)"
      "buffer_farend far pcm ds1 = Inr ds2"
    and e: "ds_log ds' = ds_log (verify_order p ds2)"
      "lastReceivedAudioSn ds' = lastReceivedAudioSn (verify_order p ds2)"
    using assms by (auto simp: DownstreamProcessor_append_def decodeAndAecBufferFarend_def make_segment_def
        Let_def split: sum.splits prod.splits if_splits)
  have "largestReceivedMediaDataTimestamp ds2 = largestReceivedMediaDataTimestamp ds"
    using d by (auto simp: decode_payload_def buffer_farend_def Let_def
        split: if_splits sum.splits prod.splits)
  then show "ds_log ds' = ds_log (verify_order p ds)" "lastReceivedAudioSn ds' = serialNumber p"
    using decode_payload_check [OF d(1)] buffer_farend_check [OF d(2)] e
    by (simp_all add: same_check_def verify_order_def Let_def)
qed

lemma fetch_check:
  "DownstreamProcessor_fetch far qlib up ds = Inr (out, ds') \<Longrightarrow> same_check ds ds'"
  by (auto simp: DownstreamProcessor_fetch_def play_slot_def make_segment_def conceal_def same_check_def
      Let_def split: sum.splits prod.splits option.splits)

lemma verify_order_log:
  "lastReceivedAudioSn ds \<noteq> 0 \<Longrightarrow>
   ds_log (verify_order p ds) = ds_log ds \<or> ds_log (verify_order p ds) = ds_log ds @ [TimestampDescends]"
  by (simp add: verify_order_def Let_def)

text \<open>
  The check of serial numbers is dead after the first packet. Once the last serial number is not
  zero, no sequence of received packets and callbacks in which no packet has the number zero makes the processor
  report a gap, whatever packets were lost in between: only the warnings for descending time stamps are
  added to the log. The test for a first packet is the negation of what it should be.
\<close>
lemma serial_gaps_unreported:
  assumes "ds_run opus far qlib calls ds = Inr (outs, ds')" and "lastReceivedAudioSn ds \<noteq> 0"
    and "\<And>p. Received p \<in> set calls \<Longrightarrow> serialNumber p \<noteq> 0"
  shows "\<exists>n. ds_log ds' = ds_log ds @ replicate n TimestampDescends"
  using assms
proof (induction calls arbitrary: ds outs)
  case Nil
  then show ?case
    by (auto intro: exI [of _ 0])
next
  case (Cons call calls)
  show ?case
  proof (cases call)
    case (Received p)
    obtain ds1 where a: "DownstreamProcessor_append opus far qlib p ds = Inr ds1"
        "ds_run opus far qlib calls ds1 = Inr (outs, ds')"
      using Cons.prems(1) by (auto simp: Received split: sum.splits)
    have sn: "lastReceivedAudioSn ds1 \<noteq> 0"
      using append_check(2) [OF a(1)] Cons.prems(3) [of p] by (simp add: Received)
    obtain n where "ds_log ds' = ds_log ds1 @ replicate n TimestampDescends"
      using Cons.IH [OF a(2) sn] Cons.prems(3) by auto
    moreover have "ds_log ds1 = ds_log ds \<or> ds_log ds1 = ds_log ds @ [TimestampDescends]"
      using verify_order_log [OF Cons.prems(2)] append_check(1) [OF a(1)] by simp
    ultimately show ?thesis
      by (metis append.assoc append_Cons append_Nil replicate_Suc)
  next
    case (Callback up)
    then obtain out ds1 outs' where f: "DownstreamProcessor_fetch far qlib up ds = Inr (out, ds1)"
        "ds_run opus far qlib calls ds1 = Inr (outs', ds')"
      using Cons.prems(1) by (auto split: sum.splits prod.splits)
    then show ?thesis
      using Cons.IH [OF f(2)] Cons.prems fetch_check [OF f(1)] by (auto simp: same_check_def)
  qed
qed

lemma serial_gaps_unreported_witness:
  "\<exists>outs ds'. ds_run (toy_opus 160) toy_farend list_queue
     [Received (NetPacket_new 0 5 7 1), Received (NetPacket_new 0 6 7 99)]
     (toy_downstream\<lparr>lastReceivedAudioSn := 1\<rparr>) = Inr (outs, ds') \<and>
     (\<exists>n. ds_log ds' = replicate n TimestampDescends)"
proof -
  let ?ds = "toy_downstream\<lparr>lastReceivedAudioSn := 1\<rparr>"
  let ?calls = "[Received (NetPacket_new 0 5 7 1), Received (NetPacket_new 0 6 7 99)]"
  have "ds_inv snd fst ?ds" "decoder (ds_decoder ?ds) \<noteq> None"
    by (simp_all add: toy_downstream_def DownstreamProcessor_new_def ds_inv_def live_def blockSize_160
        JitterBuffer_new_def list_queue_def OpusDec_reInit_def toy_opus_def)
  from list_segments.run_total [OF opus_contract_toy full_packet_toy farend_ok_toy this]
  obtain outs ds' where r: "ds_run (toy_opus 160) toy_farend list_queue ?calls ?ds = Inr (outs, ds')"
    by (meson order_refl)
  have "ds_log ?ds = []"
    by (simp add: toy_downstream_def DownstreamProcessor_new_def)
  then show ?thesis
  proof -
    have "serialNumber p \<noteq> 0" if "Received p \<in> set ?calls" for p
      using that by (auto simp: packet_simps)
    from serial_gaps_unreported [OF r _ this] \<open>ds_log ?ds = []\<close> show ?thesis
      using r by (intro exI [of _ outs] exI [of _ ds']) simp
  qed
qed

end
