(* ===== verification/Audio_In.thy ===== *)
theory Audio_In
  imports Concealment
begin

text \<open>
  The stub input: client_essential/audio_engine/AudioInStub.hpp plays a PCM file or a generated wave
  (GeneratedWave.hpp) in a loop instead of the microphone; include/FileUtils.hpp loads a PCM file.

  A file is None when it cannot be opened and its bytes otherwise; read_ok is whether the read of
  all of it succeeds. The wave is computed in real numbers; a sample of the code may
  differ from it by one where the double result rounds across an integer.
\<close>

subsection \<open>Generated waves\<close>

text \<open>pi is computed as four times the arctangent of one.\<close>

definition SineWave_pi :: real where
  "SineWave_pi = arctan 1 * 4"

definition SineWave_sample :: "nat \<Rightarrow> real \<Rightarrow> real \<Rightarrow> nat \<Rightarrow> i16" where
  "SineWave_sample rate freq maxAmplitude i =
     (let y = maxAmplitude * 32767 * sin (2 * SineWave_pi * freq / real rate * real i)
      in of_int (if 0 \<le> y then \<lfloor>y\<rfloor> else \<lceil>y\<rceil>))"

text \<open>
  The size is a double: the vector gets its integer part, and the loop runs over every index
  below the double, one more when it has a fraction.
\<close>

definition SineWave :: "nat \<Rightarrow> real \<Rightarrow> real \<Rightarrow> real \<Rightarrow> fault + PcmSegment" where
  "SineWave rate freq maxAmplitude durationSecond =
     (let size = real rate * durationSecond;
          n = nat \<lfloor>size\<rfloor>;
          rounds = nat \<lceil>size\<rceil>
      in if n < rounds then Inl OutOfBounds
         else Inr (map (SineWave_sample rate freq maxAmplitude) [0..<n]))"

subsection \<open>Loading a file\<close>

text \<open>Half as many samples as bytes are allocated and all bytes are read: an odd size overruns by one byte.\<close>

definition load_samples :: "byte list \<Rightarrow> fault + PcmSegment" where
  "load_samples bs =
     (if length bs mod 2 \<noteq> 0 then Inl OutOfBounds
      else Inr (map (\<lambda>i. rd16 bs (2 * i)) [0..<length bs div 2]))"

definition loadPcmFile :: "bool \<Rightarrow> byte list option \<Rightarrow> fault + PcmSegment" where
  "loadPcmFile read_ok file =
     (case file of
        None \<Rightarrow> Inr []
      | Some bs \<Rightarrow>
          if length bs \<le> 0 then Inr []
          else (case load_samples bs of
              Inl e \<Rightarrow> Inl e
            | Inr wholePcm \<Rightarrow> if \<not> read_ok then Inr [] else Inr wholePcm))"

subsection \<open>The looped input\<close>

record AudioInStub =
  wholePcm :: PcmSegment
  stub_size :: nat
  stub_pos :: nat

definition AudioInStub_new :: "PcmSegment \<Rightarrow> AudioInStub" where
  "AudioInStub_new pcm = \<lparr>wholePcm = pcm, stub_size = length pcm, stub_pos = 0\<rparr>"

text \<open>get returns a pointer into the samples, here its offset.\<close>

definition AudioInStub_get :: "AudioInStub \<Rightarrow> nat \<times> AudioInStub" where
  "AudioInStub_get s =
     (let s = (if stub_pos s + blockSize \<ge> stub_size s then s\<lparr>stub_pos := 0\<rparr> else s);
          ret = stub_pos s
      in (ret, s\<lparr>stub_pos := stub_pos s + blockSize\<rparr>))"

text \<open>What the audio callback reads through the pointer: one block.\<close>

definition block_at :: "AudioInStub \<Rightarrow> nat \<Rightarrow> fault + PcmSegment" where
  "block_at s off =
     (if length (wholePcm s) < off + blockSize then Inl OutOfBounds
      else Inr (take blockSize (drop off (wholePcm s))))"

definition AudioInStub_loadFile :: "bool \<Rightarrow> byte list option \<Rightarrow> fault + AudioInStub option" where
  "AudioInStub_loadFile read_ok file =
     (case file of
        None \<Rightarrow> Inr None
      | Some bs \<Rightarrow>
          if length bs \<le> 0 then Inr None
          else (case load_samples bs of
              Inl e \<Rightarrow> Inl e
            | Inr pcm \<Rightarrow> if \<not> read_ok then Inr None else Inr (Some (AudioInStub_new pcm))))"

definition AudioInStub_create :: "bool \<Rightarrow> (string \<Rightarrow> byte list option) \<Rightarrow> string \<Rightarrow> fault + AudioInStub option" where
  "AudioInStub_create read_ok files filePathOrTag =
     (case AudioInStub_loadFile read_ok (files filePathOrTag) of
        Inl e \<Rightarrow> Inl e
      | Inr (Some ret) \<Rightarrow> Inr (Some ret)
      | Inr None \<Rightarrow>
          if filePathOrTag = ''sine'' then
            (case SineWave sampleRate 440 (8 / 10) 10 of
               Inl e \<Rightarrow> Inl e
             | Inr pcm \<Rightarrow> Inr (Some (AudioInStub_new pcm)))
          else Inr None)"

text \<open>The offsets of the next n calls.\<close>

fun stub_offsets :: "nat \<Rightarrow> AudioInStub \<Rightarrow> nat list" where
  "stub_offsets 0 s = []"
| "stub_offsets (Suc n) s = (let (off, s') = AudioInStub_get s in off # stub_offsets n s')"

definition stub_after :: "nat \<Rightarrow> PcmSegment \<Rightarrow> AudioInStub" where
  "stub_after k pcm =
     (AudioInStub_new pcm)\<lparr>stub_pos := (if k = 0 then 0
        else 160 * ((k - 1) mod ((length pcm - 1) div 160)) + 160)\<rparr>"

lemma get_stub_after:
  assumes "160 < length pcm"
  shows "AudioInStub_get (stub_after k pcm) =
    (160 * (k mod ((length pcm - 1) div 160)), stub_after (Suc k) pcm)"
proof (cases k)
  case 0
  then show ?thesis
    using assms by (simp add: AudioInStub_get_def stub_after_def AudioInStub_new_def blockSize_160)
next
  case (Suc j)
  define c where "c = (length pcm - 1) div 160"
  define r where "r = j mod c"
  have c: "0 < c"
    using assms by (simp add: c_def div_greater_zero_iff)
  have wrap: "160 * r + 320 \<ge> length pcm \<longleftrightarrow> c \<le> Suc r"
  proof -
    have "c < Suc (Suc r) \<longleftrightarrow> length pcm - 1 < Suc (Suc r) * 160"
      unfolding c_def by (rule div_less_iff_less_mult) simp
    then show ?thesis
      using assms by (auto simp: less_Suc_eq_le)
  qed
  have "r < c"
    using c by (simp add: r_def)
  have m: "Suc j mod c = (if c \<le> Suc r then 0 else Suc r)"
    using \<open>r < c\<close> by (auto simp: r_def mod_Suc)
  have a: "stub_after k pcm = (AudioInStub_new pcm)\<lparr>stub_pos := 160 * r + 160\<rparr>"
    "stub_after (Suc k) pcm = (AudioInStub_new pcm)\<lparr>stub_pos := 160 * (k mod c) + 160\<rparr>"
    by (simp_all add: stub_after_def Suc r_def c_def)
  show ?thesis
    using wrap m unfolding a AudioInStub_get_def c_def [symmetric]
    by (auto simp: Let_def AudioInStub_new_def blockSize_160 Suc)
qed

lemma stub_offsets_after:
  assumes "160 < length pcm"
  shows "stub_offsets n (stub_after k pcm) =
    map (\<lambda>i. 160 * (i mod ((length pcm - 1) div 160))) [k..<k + n]"
proof (induction n arbitrary: k)
  case (Suc n)
  have "[k..<k + Suc n] = k # [Suc k..<Suc k + n]"
    by (simp add: upt_conv_Cons)
  then show ?case
    using Suc.IH [of "Suc k"] by (simp add: get_stub_after [OF assms] del: upt_Suc)
qed simp

text \<open>
  The stub input plays whole blocks in a cycle. For more than 160 samples the k-th call returns
  the block number k modulo (size - 1) div 160, and every block it returns lies inside the
  samples. So what remains after the last full block is never played, and when the size is a
  multiple of 160 neither is the last full block.
\<close>
lemma stub_input_cycles:
  assumes "blockSize < length pcm"
  shows "stub_offsets n (AudioInStub_new pcm) =
      map (\<lambda>k. blockSize * (k mod ((length pcm - 1) div blockSize))) [0..<n] \<and>
    (\<forall>off \<in> set (stub_offsets n (AudioInStub_new pcm)).
      block_at (AudioInStub_new pcm) off = Inr (take blockSize (drop off pcm)) \<and> off + blockSize < length pcm)"
proof -
  define c where "c = (length pcm - 1) div 160"
  have l: "160 < length pcm"
    using assms by (simp add: blockSize_160)
  have new: "AudioInStub_new pcm = stub_after 0 pcm"
    by (simp add: stub_after_def AudioInStub_new_def)
  have o: "stub_offsets n (AudioInStub_new pcm) = map (\<lambda>k. 160 * (k mod c)) [0..<n]"
    using stub_offsets_after [OF l, of n 0] by (simp add: new c_def)
  have c: "0 < c"
    using l by (simp add: c_def div_greater_zero_iff)
  have "160 * (k mod c) + 160 < length pcm" for k
  proof -
    have "k mod c + 1 \<le> c"
      using c by (simp add: Suc_leI)
    then have "160 * (k mod c + 1) \<le> 160 * c"
      by (rule mult_le_mono2)
    also have "\<dots> \<le> length pcm - 1"
      by (simp add: c_def)
    finally show ?thesis
      using l by simp
  qed
  then have "block_at (AudioInStub_new pcm) (160 * (k mod c)) = Inr (take 160 (drop (160 * (k mod c)) pcm)) \<and>
      160 * (k mod c) + 160 < length pcm" for k
    by (simp add: block_at_def AudioInStub_new_def blockSize_160 less_imp_le not_less)
  with o show ?thesis
    by (auto simp: blockSize_160 c_def)
qed

lemma stub_input_cycles_witness:
  "stub_offsets 3 (AudioInStub_new (replicate 480 5)) = [0, 160, 0]"
  using stub_input_cycles [of "replicate 480 5" 3] by (simp add: blockSize_160 upt_conv_Cons numeral_3_eq_3)

text \<open>
  The generated wave. A wave whose rate times duration is a natural number n has n samples,
  each at most the amplitude times 32767 in absolute value, and the sine of the stub input (0.8,
  10 seconds) is one of them; when the product has a fraction the loop writes behind the vector.
\<close>
lemma sine_wave_samples:
  assumes "0 \<le> a" and "a \<le> 1" and "real n = real rate * d"
  shows "(\<exists>pcm. SineWave rate freq a d = Inr pcm \<and> length pcm = n \<and>
      (\<forall>x \<in> set pcm. real_of_int \<bar>sint x\<bar> \<le> a * 32767)) \<and>
    SineWave rate freq a (d + 1 / (2 * real (rate + 1))) = (if rate = 0 then Inr [] else Inl OutOfBounds)"
proof -
  have b: "real_of_int \<bar>sint (SineWave_sample rate freq a i)\<bar> \<le> a * 32767" for i
  proof -
    define y where "y = a * 32767 * sin (2 * SineWave_pi * freq / real rate * real i)"
    define t where "t = (if 0 \<le> y then \<lfloor>y\<rfloor> else \<lceil>y\<rceil>)"
    have "\<bar>y\<bar> \<le> a * 32767"
      using assms(1) by (simp add: y_def abs_mult mult_left_le)
    moreover have t: "\<bar>real_of_int t\<bar> \<le> \<bar>y\<bar>"
      by (simp add: t_def split: abs_split; linarith)
    ultimately have "\<bar>real_of_int t\<bar> \<le> 32767"
      using assms(2) by linarith
    then have "sint (of_int t :: i16) = t"
      by (intro sint_of_int_i16) linarith+
    then show ?thesis
      using t \<open>\<bar>y\<bar> \<le> a * 32767\<close>
      unfolding SineWave_sample_def Let_def y_def [symmetric] t_def [symmetric] by simp
  qed
  have "SineWave rate freq a d = Inr (map (SineWave_sample rate freq a) [0..<n])"
    unfolding SineWave_def Let_def assms(3) [symmetric] by simp
  moreover have "SineWave rate freq a (d + 1 / (2 * real (rate + 1))) = Inl OutOfBounds" if "rate \<noteq> 0"
  proof -
    define e where "e = real rate * (1 / (2 * real (rate + 1)))"
    have e: "0 < e" "e < 1"
      using that by (simp_all add: e_def field_simps)
    have "real rate * (d + 1 / (2 * real (rate + 1))) = real n + e"
      by (simp add: assms(3) e_def distrib_left)
    moreover have "\<lfloor>real n + e\<rfloor> = int n" "\<lceil>real n + e\<rceil> = int n + 1"
      using e by linarith+
    moreover have "0 < real n + e"
      using e by linarith
    ultimately show ?thesis
      by (simp add: SineWave_def Let_def nat_add_distrib)
  qed
  ultimately show ?thesis
    using b by (cases "rate = 0") (auto simp: SineWave_def [of 0])
qed

lemma sine_wave_samples_witness:
  "\<exists>pcm. SineWave 16000 440 (8 / 10) 10 = Inr pcm \<and> length pcm = 160000"
  using sine_wave_samples [of "8 / 10" 160000 16000 10 440] by auto

end
