(* ===== verification/Endpoint.thy ===== *)
theory Endpoint
  imports Volume_Meter
begin

text \<open>
  The audio endpoints: client_essential/CallbackStyleAudioEndpointStub.hpp, CallbackStylePortaudioEndpoint.hpp,
  CallbackStyleAAudioEndpoint.hpp and the factory CallbackStyleAudioEndpoint.cpp.

  A callback gets the input block, the output array and the number of frames and returns the
  filled output array with the new state of the program. PortAudio is a library: the results of
  its calls are the record pa_ops.
\<close>

type_synonym 's callback = "PcmSegment \<Rightarrow> PcmSegment \<Rightarrow> u32 \<Rightarrow> 's \<Rightarrow> PcmSegment \<times> 's"

subsection \<open>The stub endpoint\<close>

record 's StubEndpoint =
  stub_callbackFunc :: "'s callback option"
  stub_started :: bool
  audioIn :: PcmSegment
  audioOut :: PcmSegment

definition StubEndpoint_new :: "PcmSegment \<Rightarrow> PcmSegment \<Rightarrow> 's StubEndpoint" where
  "StubEndpoint_new uninitIn uninitOut =
     \<lparr>stub_callbackFunc = None, stub_started = False, audioIn = uninitIn, audioOut = uninitOut\<rparr>"

definition StubEndpoint_init :: "'s callback \<Rightarrow> 's StubEndpoint \<Rightarrow> ReturnType \<times> 's StubEndpoint" where
  "StubEndpoint_init callbackFunc e = (ReturnType_int 0, e\<lparr>stub_callbackFunc := Some callbackFunc\<rparr>)"

text \<open>
  The loop reads the flag, sleeps ten milliseconds and calls back. Another thread may clear the
  flag at any time, so the readings are a list; when they are used up the loop still runs, and the
  call has no result.
\<close>

fun stub_rounds :: "bool list \<Rightarrow> 's callback \<Rightarrow> 's StubEndpoint \<Rightarrow> 's \<Rightarrow> ('s StubEndpoint \<times> 's) option" where
  "stub_rounds [] cb e s = None"
| "stub_rounds (started # readings) cb e s =
     (if \<not> started then Some (e, s)
      else
        let (out, s) = cb (audioIn e) (audioOut e) (of_nat blockSize) s
        in stub_rounds readings cb (e\<lparr>audioOut := out\<rparr>) s)"

text \<open>asyncStart calls its lambda at once, in the calling thread.\<close>

definition StubEndpoint_asyncStart ::
    "bool list \<Rightarrow> 's callback \<Rightarrow> 's StubEndpoint \<Rightarrow> 's \<Rightarrow> (ReturnType \<times> 's StubEndpoint \<times> 's) option" where
  "StubEndpoint_asyncStart readings cb e s =
     map_option (\<lambda>(e, s). (ReturnType_int 0, e, s)) (stub_rounds readings cb (e\<lparr>stub_started := True\<rparr>) s)"

definition StubEndpoint_syncStop :: "'s StubEndpoint \<Rightarrow> ReturnType \<times> 's StubEndpoint" where
  "StubEndpoint_syncStop e = (ReturnType_int 0, e\<lparr>stub_started := False\<rparr>)"

definition StubEndpoint_getEndpointName :: "string \<times> string" where
  "StubEndpoint_getEndpointName = ('''', '''')"

subsection \<open>The PortAudio endpoint\<close>

record pa_ops =
  Pa_Initialize :: int
  Pa_OpenDefaultStream :: "nat \<Rightarrow> nat \<Rightarrow> nat \<Rightarrow> nat \<Rightarrow> int"
  Pa_StartStream :: int
  Pa_StopStream :: int
  Pa_GetErrorText :: "int \<Rightarrow> string"

record 's PortaudioEndpoint =
  pa_streamOpen :: bool
  pa_callbackFunc :: "'s callback option"

definition sFuncPaStreamCallback ::
    "'s PortaudioEndpoint \<Rightarrow> PcmSegment \<Rightarrow> PcmSegment \<Rightarrow> nat \<Rightarrow> 's \<Rightarrow> int \<times> PcmSegment \<times> 's" where
  "sFuncPaStreamCallback self input outp frameCount s =
     (case pa_callbackFunc self of
        Some cb \<Rightarrow> let (outp, s) = cb input outp (of_nat frameCount) s in (0, outp, s)
      | None \<Rightarrow> (0, outp, s))"

definition PortaudioEndpoint_init ::
    "pa_ops \<Rightarrow> 's callback \<Rightarrow> 's PortaudioEndpoint \<Rightarrow> ReturnType \<times> 's PortaudioEndpoint" where
  "PortaudioEndpoint_init pa callbackFunc e =
     (let err = Pa_Initialize pa in
      if err \<noteq> 0 then (ReturnType_str (Pa_GetErrorText pa err), e)
      else
        let err = Pa_OpenDefaultStream pa 1 1 sampleRate blockSize in
        if err \<noteq> 0 then (ReturnType_str (Pa_GetErrorText pa err), e)
        else (ReturnType_int 0, e\<lparr>pa_streamOpen := True, pa_callbackFunc := Some callbackFunc\<rparr>))"

definition PortaudioEndpoint_getEndpointName :: "string \<times> string" where
  "PortaudioEndpoint_getEndpointName = ('''', '''')"

definition PortaudioEndpoint_asyncStart :: "pa_ops \<Rightarrow> ReturnType" where
  "PortaudioEndpoint_asyncStart pa =
     (let err = Pa_StartStream pa in if err \<noteq> 0 then ReturnType_int err else ReturnType_int 0)"

definition PortaudioEndpoint_syncStop :: "pa_ops \<Rightarrow> ReturnType" where
  "PortaudioEndpoint_syncStop pa = (let err = Pa_StopStream pa in ReturnType_int 0)"

subsection \<open>The endpoint of Android and the factory\<close>

definition AAudioEndpoint_init :: "'s callback \<Rightarrow> ReturnType" where
  "AAudioEndpoint_init callbackFunc = ReturnType_int 0"

definition AAudioEndpoint_getEndpointName :: "string \<times> string" where
  "AAudioEndpoint_getEndpointName = ('''', '''')"

definition AAudioEndpoint_asyncStart :: ReturnType where
  "AAudioEndpoint_asyncStart = ReturnType_int 0"

definition AAudioEndpoint_syncStop :: ReturnType where
  "AAudioEndpoint_syncStop = ReturnType_int 0"

datatype endpoint_kind = AAudio | Portaudio | Stub

definition CallbackStyleAudioEndpoint_create :: "bool \<Rightarrow> bool \<Rightarrow> endpoint_kind" where
  "CallbackStyleAudioEndpoint_create android realDevice =
     (if realDevice then (if android then AAudio else Portaudio) else Stub)"

subsection \<open>Properties of the stub endpoint\<close>

fun iterate_callback :: "nat \<Rightarrow> 's callback \<Rightarrow> 's StubEndpoint \<Rightarrow> 's \<Rightarrow> 's StubEndpoint \<times> 's" where
  "iterate_callback 0 cb e s = (e, s)"
| "iterate_callback (Suc n) cb e s =
     (let (out, s) = cb (audioIn e) (audioOut e) (of_nat blockSize) s
      in iterate_callback n cb (e\<lparr>audioOut := out\<rparr>) s)"

lemma stub_rounds_iterate:
  "stub_rounds readings cb e s =
    (if False \<in> set readings then Some (iterate_callback (length (takeWhile id readings)) cb e s) else None)"
  by (induction readings arbitrary: e s) (auto simp: case_prod_beta Let_def)

text \<open>
  AsyncStart of the stub endpoint is synchronous. It returns only after another thread has
  cleared the flag, and then it has called back exactly once for each reading of the flag that
  was still set; as long as every reading is set it has no result. A caller that waits for it,
  as the worker does, gets no further before the stop.
\<close>
lemma stub_asyncStart_blocks:
  "StubEndpoint_asyncStart readings cb e s =
    (if False \<in> set readings then
       (case iterate_callback (length (takeWhile id readings)) cb (e\<lparr>stub_started := True\<rparr>) s of
          (e', s') \<Rightarrow> Some (ReturnType_int 0, e', s'))
     else None)"
  by (simp add: StubEndpoint_asyncStart_def stub_rounds_iterate split: prod.split)

end
