(* ===== verification/Worker.thy ===== *)
theory Worker
  imports Downstream Audio_In Endpoint
begin

text \<open>
  The worker (client_essential/Worker.hpp, Worker.cpp): the client's pipeline from microphone to network and from
  network to loudspeaker, and its life cycle (init, syncStart, syncStop).

  The WebRTC modules are libraries: webrtc_ops holds their functions over one state 'w. What the
  worker does to its surroundings is the list of events of a call, in order. The two function-local static time
  stamps belong to the process: they are fields that a new worker takes over from the worker before it (statics), None until their
  first use; the programs have one worker at a time. The flags that other threads set (isConnected of
  the client, isLogin, gotoStop) are read repeatedly; a run is given by the readings.
\<close>

record 'w webrtc_ops =
  Nsx_Process :: "PcmSegment \<Rightarrow> 'w \<Rightarrow> PcmSegment \<times> 'w"
  Aec_Process :: "real list \<Rightarrow> 'w \<Rightarrow> int \<times> real list \<times> 'w"
  Vad_Process :: "nat \<Rightarrow> PcmSegment \<Rightarrow> nat \<Rightarrow> 'w \<Rightarrow> int \<times> 'w"
  Cn_Encode :: "PcmSegment \<Rightarrow> bool \<Rightarrow> 'w \<Rightarrow> nat \<times> byte list \<times> 'w"

datatype NetworkState = Disconnected | Connecting | Connected

datatype worker_event =
    SendPacket NetPacket
  | ReportVolume AudioIoVolume
  | ReportVad bool
  | ReportDuration u32
  | ToggleState NetworkState string
  | EndpointStart
  | EndpointStop
  | TimerStart
  | SleepMs nat
  | JoinNetThread
  | JoinDurationTimer

record ('e, 'w) Worker =
  w_encoder :: "'e OpusEnc"
  w_gotoStop :: bool
  w_volumeReporter :: bool
  w_vadReporter :: bool
  w_durationReporter :: bool
  w_needAec :: bool
  w_vadCounter :: u8
  w_mute :: bool
  w_sendOpus :: bool
  w_volumeMeterIn :: AudioVolumeMeter_Peak
  w_volumeMeterOut :: AudioVolumeMeter_Peak
  w_sn_sendingAudio :: u32
  w_sn_sendingHeartBeat :: u32
  w_webrtc :: 'w
  w_audioInStub :: "AudioInStub option"
  w_endpoint :: "endpoint_kind option"
  w_netThread :: bool
  w_durationTimer :: bool
  w_useTcp :: bool
  w_voiceTimeStamp :: "timepoint option"
  w_heartbeatTimeStamp :: "timepoint option"

definition Worker_new ::
    "'e OpusEnc \<Rightarrow> 'w \<Rightarrow> timepoint \<Rightarrow> timepoint \<Rightarrow> timepoint option \<times> timepoint option \<Rightarrow> ('e, 'w) Worker" where
  "Worker_new enc w nowIn nowOut statics =
     \<lparr>w_encoder = enc, w_gotoStop = False,
      w_volumeReporter = False, w_vadReporter = False, w_durationReporter = False,
      w_needAec = False, w_vadCounter = 0, w_mute = False, w_sendOpus = True,
      w_volumeMeterIn = AudioVolumeMeter_Peak_new In nowIn,
      w_volumeMeterOut = AudioVolumeMeter_Peak_new Out nowOut,
      w_sn_sendingAudio = 0, w_sn_sendingHeartBeat = 0, w_webrtc = w,
      w_audioInStub = None, w_endpoint = None, w_netThread = False, w_durationTimer = False,
      w_useTcp = False, w_voiceTimeStamp = fst statics, w_heartbeatTimeStamp = snd statics\<rparr>"

definition Worker_setDurationReporter :: "bool \<Rightarrow> ('e, 'w) Worker \<Rightarrow> ('e, 'w) Worker" where
  "Worker_setDurationReporter given w = w\<lparr>w_durationReporter := given\<rparr>"

definition Worker_setMute :: "bool \<Rightarrow> ('e, 'w) Worker \<Rightarrow> ('e, 'w) Worker" where
  "Worker_setMute mute w = w\<lparr>w_mute := mute\<rparr>"

subsection \<open>The sending pipeline\<close>

text \<open>The clock readings of one call, in the order in which the code makes them.\<close>

record send_clock =
  ck_meter :: "timepoint \<times> timepoint \<times> timepoint"
  ck_init :: timepoint
  ck_now :: timepoint
  ck_reset :: timepoint
  ck_ver :: u32
  ck_up :: u32

text \<open>
  Echo cancellation of the denoised block. A float sample of the canceller is converted to short;
  outside the range of short that conversion is undefined.
\<close>

definition to_short :: "real \<Rightarrow> i16 option" where
  "to_short f =
     (let t = (if 0 \<le> f then \<lfloor>f\<rfloor> else \<lceil>f\<rceil>) in if - 32768 \<le> t \<and> t < 32768 then Some (of_int t) else None)"

fun shorts :: "real list \<Rightarrow> PcmSegment option" where
  "shorts [] = Some []"
| "shorts (f # fs) =
     (case to_short (f * 2 ^ 15) of
        None \<Rightarrow> None
      | Some x \<Rightarrow> map_option (\<lambda>xs. x # xs) (shorts fs))"

definition cancel_echo ::
    "'w webrtc_ops \<Rightarrow> PcmSegment \<Rightarrow> ('e, 'w) Worker \<Rightarrow> fault + PcmSegment \<times> ('e, 'w) Worker" where
  "cancel_echo rtc denoisedBuffer w =
     (if w_needAec w then
        let floatNearend = map (\<lambda>x. real_of_int (sint x) / 2 ^ 15) denoisedBuffer;
            (ret, out, lib) = Aec_Process rtc floatNearend (w_webrtc w)
        in if ret \<noteq> 0 then Inl Terminate
           else (case shorts out of
               None \<Rightarrow> Inl BadConversion
             | Some tobeSend \<Rightarrow> Inr (tobeSend, w\<lparr>w_webrtc := lib\<rparr>))
      else Inr (replicate blockSize 0, w))"

definition report_volume_in ::
    "timepoint \<times> timepoint \<times> timepoint \<Rightarrow> PcmSegment \<Rightarrow> ('e, 'w) Worker \<Rightarrow>
     worker_event list \<times> ('e, 'w) Worker" where
  "report_volume_in clock seg w =
     (if w_volumeReporter w then
        let (m, v) = AudioVolumeMeter_Peak_calculate seg clock (w_volumeMeterIn w)
        in ([ReportVolume v], w\<lparr>w_volumeMeterIn := m\<rparr>)
      else ([], w))"

definition detect_voice ::
    "'w webrtc_ops \<Rightarrow> PcmSegment \<Rightarrow> ('e, 'w) Worker \<Rightarrow> worker_event list \<times> ('e, 'w) Worker" where
  "detect_voice rtc denoisedBuffer w =
     (let (r, lib) = Vad_Process rtc sampleRate denoisedBuffer (sampleRate div 100) (w_webrtc w);
          haveVoice = (1 = r);
          w = w\<lparr>w_webrtc := lib\<rparr>;
          w = (if haveVoice then w\<lparr>w_vadCounter := w_vadCounter w + 1, w_sendOpus := True\<rparr> else w)
      in (if w_vadReporter w then [ReportVad haveVoice] else [], w))"

definition update_voice_window :: "send_clock \<Rightarrow> ('e, 'w) Worker \<Rightarrow> ('e, 'w) Worker" where
  "update_voice_window ck w =
     (let lastTimeStamp = (case w_voiceTimeStamp w of Some t \<Rightarrow> t | None \<Rightarrow> ck_init ck);
          w = w\<lparr>w_voiceTimeStamp := Some lastTimeStamp\<rparr>;
          elapsed = ck_now ck - lastTimeStamp
      in if elapsed > one_second then
           let w = (if w_vadCounter w = 0 then w\<lparr>w_sendOpus := False\<rparr> else w)
           in w\<lparr>w_voiceTimeStamp := Some (ck_reset ck), w_vadCounter := 0\<rparr>
         else w)"

definition send_block ::
    "('d, 'e) opus_ops \<Rightarrow> 'w webrtc_ops \<Rightarrow> send_clock \<Rightarrow> PcmSegment \<Rightarrow> ('e, 'w) Worker \<Rightarrow>
     fault + worker_event list \<times> ('e, 'w) Worker" where
  "send_block opus rtc ck pcm w =
     (if w_sendOpus w then
        (case OpusEnc_encode opus pcm [] (w_encoder w) of
           Inl e \<Rightarrow> Inl e
         | Inr (retEncode, outData, enc) \<Rightarrow>
             if \<not> ok retEncode then Inl Terminate
             else
               let w = w\<lparr>w_encoder := enc, w_sn_sendingAudio := w_sn_sendingAudio w + 1\<rparr>
               in (case NetPacket_of_chars (ck_ver ck) (ck_up ck) (pt_code AudioMessage)
                     (w_sn_sendingAudio w) outData of
                     Inl _ \<Rightarrow> Inl Terminate
                   | Inr p \<Rightarrow> Inr ([SendPacket p], w)))
      else
        let (encoded_bytes_tmp, outp, lib) = Cn_Encode rtc pcm False (w_webrtc w);
            w = w\<lparr>w_webrtc := lib\<rparr>
        in if length outp \<noteq> encoded_bytes_tmp then Inl AssertionFailed
           else if encoded_bytes_tmp > 0 then
             let w = w\<lparr>w_sn_sendingAudio := w_sn_sendingAudio w + 1\<rparr>
             in (case NetPacket_of_int8 (ck_ver ck) (ck_up ck) (pt_code AudioMessage_CN)
                   (w_sn_sendingAudio w) outp of
                   Inl _ \<Rightarrow> Inl Terminate
                 | Inr p \<Rightarrow> Inr ([SendPacket p], w))
           else Inr ([], w))"

definition nsAecVolumeVadSend ::
    "('d, 'e) opus_ops \<Rightarrow> 'w webrtc_ops \<Rightarrow> send_clock \<Rightarrow> PcmSegment \<Rightarrow> ('e, 'w) Worker \<Rightarrow>
     fault + worker_event list \<times> ('e, 'w) Worker" where
  "nsAecVolumeVadSend opus rtc ck buffer w =
     (if w_mute w then Inr ([], w)
      else
        let (denoisedBuffer, lib) = Nsx_Process rtc buffer (w_webrtc w);
            w = w\<lparr>w_webrtc := lib\<rparr>
        in case cancel_echo rtc denoisedBuffer w of
             Inl e \<Rightarrow> Inl e
           | Inr (tobeSend, w) \<Rightarrow>
               let (ev1, w) = report_volume_in (ck_meter ck) denoisedBuffer w;
                   (ev2, w) = detect_voice rtc denoisedBuffer w;
                   w = update_voice_window ck w
               in (case send_block opus rtc ck (if w_needAec w then tobeSend else denoisedBuffer) w of
                     Inl e \<Rightarrow> Inl e
                   | Inr (ev3, w) \<Rightarrow> Inr (ev1 @ ev2 @ ev3, w)))"

text \<open>The callback that init gives to the endpoint: send a block, then play one.\<close>

definition Worker_audioCallback ::
    "('d, 'e) opus_ops \<Rightarrow> 'w webrtc_ops \<Rightarrow> ('c, 'a) farend_ops \<Rightarrow> (u32 \<times> nat, 'q) spsc_ops \<Rightarrow>
     send_clock \<Rightarrow> u32 \<Rightarrow> timepoint \<times> timepoint \<times> timepoint \<Rightarrow> PcmSegment \<Rightarrow>
     ('e, 'w) Worker \<times> ('q, 'd, 'c, 'a) DownstreamProcessor \<Rightarrow>
     fault + PcmSegment \<times> worker_event list \<times> ('e, 'w) Worker \<times> ('q, 'd, 'c, 'a) DownstreamProcessor" where
  "Worker_audioCallback opus rtc far qlib ck upOut ckOut inputBuffer st =
     (case st of (w, ds) \<Rightarrow>
       let input = (case w_audioInStub w of
               None \<Rightarrow> Inr (inputBuffer, w)
             | Some stub \<Rightarrow>
                 let (off, stub) = AudioInStub_get stub in
                 (case block_at stub off of
                    Inl e \<Rightarrow> Inl e
                  | Inr b \<Rightarrow> Inr (b, w\<lparr>w_audioInStub := Some stub\<rparr>)))
       in case input of
            Inl e \<Rightarrow> Inl e
          | Inr (finalInputBuffer, w) \<Rightarrow>
              (case nsAecVolumeVadSend opus rtc ck finalInputBuffer w of
                 Inl e \<Rightarrow> Inl e
               | Inr (evs, w) \<Rightarrow>
                   (case DownstreamProcessor_fetch far qlib upOut ds of
                      Inl e \<Rightarrow> Inl e
                    | Inr (outData, ds) \<Rightarrow>
                        if w_volumeReporter w then
                          let (m, v) = AudioVolumeMeter_Peak_calculate outData ckOut (w_volumeMeterOut w)
                          in Inr (outData, evs @ [ReportVolume v], w\<lparr>w_volumeMeterOut := m\<rparr>, ds)
                        else Inr (outData, evs, w, ds))))"

subsection \<open>Starting up\<close>

text \<open>A value of the property tree is None when it is missing or does not convert.\<close>

record config =
  cfg_needAec :: "bool option"
  cfg_audioOutDumpPath :: "string option"
  cfg_audioInStub :: "string option"
  cfg_needRealAudioEndpoint :: "bool option"
  cfg_protocol :: "string option"
  cfg_host :: "string option"
  cfg_port :: "string option"

definition get_or :: "'a option \<Rightarrow> 'a \<Rightarrow> 'a" where
  "get_or v d = (case v of Some x \<Rightarrow> x | None \<Rightarrow> d)"

text \<open>What the libraries return while init runs.\<close>

record init_env =
  env_aecInit :: int
  env_vadInit :: int
  env_vadMode :: int
  env_nsInit :: int
  env_nsPolicy :: int
  env_stub :: "fault + AudioInStub option"
  env_endpointInit :: ReturnType

text \<open>The constructor of the processor runs outside the try block; a fault of the stub is undefined.\<close>

datatype 'r outcome = Returns 'r | Throws string | Faults fault

definition Worker_initCodec :: "('d, 'e) opus_ops \<Rightarrow> ('e, 'w) Worker \<Rightarrow> bool \<times> ('e, 'w) Worker" where
  "Worker_initCodec opus w =
     (let (ret, enc) = OpusEnc_reInit opus (w_encoder w)
      in (if ok ret then True else False, w\<lparr>w_encoder := enc\<rparr>))"

definition Worker_init ::
    "('d, 'e) opus_ops \<Rightarrow> bool \<Rightarrow> init_env \<Rightarrow> config \<Rightarrow> bool \<Rightarrow> bool \<Rightarrow> bool \<Rightarrow> ('e, 'w) Worker \<Rightarrow>
     ReturnType outcome \<times> ('e, 'w) Worker" where
  "Worker_init opus android env cfg reportInfo reportVolume vadReporter w =
     (let w = w\<lparr>w_needAec := get_or (cfg_needAec cfg) (w_needAec w)\<rparr> in
      if w_needAec w \<and> env_aecInit env \<noteq> 0 then (Throws ''WebRtcAec_Init failed'', w)
      else if env_vadInit env \<noteq> 0 then (Returns (ReturnType_str ''WebRtcVad_Init failed''), w)
      else if env_vadMode env \<noteq> 0 then (Returns (ReturnType_str ''WebRtcVad_set_mode failed''), w)
      else if env_nsInit env \<noteq> 0 then (Returns (ReturnType_str ''WebRtcNsx_Init failed''), w)
      else if env_nsPolicy env \<noteq> 0 then (Returns (ReturnType_str ''WebRtcNsx_set_policy failed''), w)
      else
        let (codec, w) = Worker_initCodec opus w in
        if \<not> codec then (Returns (ReturnType_str ''initCodec fail''), w)
        else
          (case env_stub env of
             Inl e \<Rightarrow> (Faults e, w)
           | Inr stub \<Rightarrow>
               let w = w\<lparr>w_audioInStub := stub,
                         w_endpoint := Some (CallbackStyleAudioEndpoint_create android
                           (get_or (cfg_needRealAudioEndpoint cfg) True))\<rparr>;
                   ret = env_endpointInit env
               in if \<not> ok ret then (Returns ret, w)
                  else
                    let protocol = get_or (cfg_protocol cfg) '''' in
                    if protocol = ''raw_udp'' then
                      (Returns (ReturnType_int 0), w\<lparr>w_useTcp := False, w_volumeReporter := reportVolume\<rparr>)
                    else if protocol = ''raw_tcp'' then
                      (Returns (ReturnType_int 0), w\<lparr>w_useTcp := True, w_volumeReporter := reportVolume\<rparr>)
                    else (Throws (protocol @ '' :unknown protocol''), w)))"

subsection \<open>The life cycle\<close>

text \<open>The function that syncStart gives to the network client: reply, login flag, or playback.\<close>

definition Worker_onDataReceived ::
    "('d, 'e) opus_ops \<Rightarrow> ('c, 'a) farend_ops \<Rightarrow> (u32 \<times> nat, 'q) spsc_ops \<Rightarrow> u32 \<Rightarrow> u32 \<Rightarrow> NetPacket \<Rightarrow>
     bool \<times> ('q, 'd, 'c, 'a) DownstreamProcessor \<Rightarrow>
     fault + worker_event list \<times> bool \<times> ('q, 'd, 'c, 'a) DownstreamProcessor" where
  "Worker_onDataReceived opus far qlib ver up netPacket st =
     (case st of (isLogin, ds) \<Rightarrow>
       case pt_of_code (payloadType netPacket) of
         Some HeartBeatRequest \<Rightarrow>
           Inr ([SendPacket (NetPacket_new ver up (pt_code HeartBeatResponse) 0)], isLogin, ds)
       | Some LoginResponse \<Rightarrow> Inr ([], True, ds)
       | Some AudioMessage_CN \<Rightarrow>
           map_sum id (\<lambda>ds. ([], isLogin, ds)) (DownstreamProcessor_append opus far qlib netPacket ds)
       | Some AudioMessage \<Rightarrow>
           map_sum id (\<lambda>ds. ([], isLogin, ds)) (DownstreamProcessor_append opus far qlib netPacket ds)
       | _ \<Rightarrow> Inr ([], isLogin, ds))"

text \<open>Clock readings of sendHeartbeat: the one that initialises the static, now, and the reset.\<close>

definition Worker_sendHeartbeat ::
    "u32 \<Rightarrow> u32 \<Rightarrow> timepoint \<times> timepoint \<times> timepoint \<Rightarrow> ('e, 'w) Worker \<Rightarrow>
     worker_event list \<times> ('e, 'w) Worker" where
  "Worker_sendHeartbeat ver up clock w =
     (case clock of (now0, now, now2) \<Rightarrow>
       let lastTimeStamp = (case w_heartbeatTimeStamp w of Some t \<Rightarrow> t | None \<Rightarrow> now0);
           w = w\<lparr>w_heartbeatTimeStamp := Some lastTimeStamp\<rparr>;
           elapsed = now - lastTimeStamp
       in if elapsed > 10 * one_second then
            let w = w\<lparr>w_sn_sendingHeartBeat := w_sn_sendingHeartBeat w + 1\<rparr>
            in ([SendPacket (NetPacket_new ver up (pt_code HeartBeatRequest) (w_sn_sendingHeartBeat w))],
                w\<lparr>w_heartbeatTimeStamp := Some now2\<rparr>)
          else ([], w))"

text \<open>A polling loop: at most n readings of a flag, the i-th being readings i, with a sleep after each that is not set.\<close>

fun poll :: "nat \<Rightarrow> nat \<Rightarrow> (nat \<Rightarrow> bool) \<Rightarrow> bool \<times> worker_event list" where
  "poll ms 0 readings = (False, [])"
| "poll ms (Suc n) readings =
     (if readings 0 then (True, []) else let (b, evs) = poll ms n (\<lambda>i. readings (Suc i)) in (b, SleepMs ms # evs))"

text \<open>
  The sending loop: each round reads gotoStop; a round that goes on sends the heartbeat when it
  is due and sleeps. When the rounds are used up the loop still runs.
\<close>

record heartbeat_round =
  hr_stop :: bool
  hr_clock :: "timepoint \<times> timepoint \<times> timepoint"
  hr_up :: u32

fun heartbeat_loop ::
    "u32 \<Rightarrow> heartbeat_round list \<Rightarrow> ('e, 'w) Worker \<Rightarrow> bool \<times> worker_event list \<times> ('e, 'w) Worker" where
  "heartbeat_loop ver [] w = (False, [], w)"
| "heartbeat_loop ver (r # rs) w =
     (if hr_stop r then (True, [], w)
      else
        let (ev, w) = Worker_sendHeartbeat ver (hr_up r) (hr_clock r) w;
            (fin, evs, w) = heartbeat_loop ver rs w
        in (fin, ev @ [SleepMs 3000] @ evs, w))"

text \<open>
  What syncStart observes: the exception of the client's init if it throws, the readings of
  isConnected, of isLogin in the login loop and after it, whether asyncStart of the endpoint
  returns, and the rounds of the sending loop.
\<close>

record start_env =
  st_initThrows :: "string option"
  st_connected :: "nat \<Rightarrow> bool"
  st_login :: "nat \<Rightarrow> bool"
  st_loginAfter :: bool
  st_endpointReturns :: bool
  st_rounds :: "heartbeat_round list"
  st_ver :: u32
  st_upLogin :: u32
  st_upLogout :: u32

text \<open>The result is None while the call has not returned.\<close>

definition Worker_syncStart ::
    "start_env \<Rightarrow> ('e, 'w) Worker \<Rightarrow> ReturnType option \<times> worker_event list \<times> ('e, 'w) Worker" where
  "Worker_syncStart env w =
     (let w = w\<lparr>w_gotoStop := False\<rparr> in
      case st_initThrows env of
        Some what \<Rightarrow> (Some (ReturnType_str what), [], w)
      | None \<Rightarrow>
          let (isOK, ev1) = poll 10 10 (st_connected env) in
          if \<not> isOK then
            (Some (ReturnType_str ''Could not connect to Server...''),
             ev1 @ [ToggleState Disconnected ''Could not connect to Server...''] @
               (if w_durationReporter w then [ReportDuration 0] else []), w)
          else
            let login = SendPacket (NetPacket_new (st_ver env) (st_upLogin env) (pt_code LoginRequest) 0);
                (_, ev2) = poll 30 10 (st_login env)
            in if \<not> st_loginAfter env then
                 (Some (ReturnType_str ''Could not Login to Server...''),
                  ev1 @ [login] @ ev2 @ [ToggleState Disconnected ''Could not Login to Server...''], w)
               else if \<not> st_endpointReturns env then
                 (None, ev1 @ [login] @ ev2 @ [ToggleState Connected '''', EndpointStart], w)
               else
                 let (ev3, w) = (if w_durationReporter w then ([TimerStart], w\<lparr>w_durationTimer := True\<rparr>)
                                 else ([], w));
                     (fin, ev4, w) = heartbeat_loop (st_ver env) (st_rounds env) w;
                     evs = ev1 @ [login] @ ev2 @ [ToggleState Connected '''', EndpointStart] @ ev3 @ ev4
                 in if \<not> fin then (None, evs, w)
                    else (Some (ReturnType_int 0),
                      evs @ [SendPacket (NetPacket_new (st_ver env) (st_upLogout env) (pt_code LogoutRequest) 0)], w))"

definition Worker_asyncStart :: "('e, 'w) Worker \<Rightarrow> ('e, 'w) Worker" where
  "Worker_asyncStart w = w\<lparr>w_netThread := True\<rparr>"

text \<open>The timer thread: the seconds it reports until it reads gotoStop.\<close>

fun duration_timer :: "bool list \<Rightarrow> u32 \<Rightarrow> worker_event list" where
  "duration_timer [] s = []"
| "duration_timer (stop # readings) s =
     (if stop then [] else [SleepMs 1000, ReportDuration s] @ duration_timer readings (s + 1))"

definition Worker_syncStop :: "('e, 'w) Worker \<Rightarrow> worker_event list \<times> ('e, 'w) Worker" where
  "Worker_syncStop w =
     (let w = w\<lparr>w_gotoStop := True\<rparr>;
          ev1 = (if w_endpoint w \<noteq> None then [EndpointStop] else []);
          ev2 = (if w_netThread w then [JoinNetThread] else []);
          ev3 = (if w_durationTimer w then [JoinDurationTimer] else [])
      in (ev1 @ ev2 @ ev3, w\<lparr>w_endpoint := None, w_netThread := False, w_durationTimer := False\<rparr>))"

definition Worker_destroy :: "('e, 'w) Worker \<Rightarrow> Profiler \<Rightarrow> worker_event list \<times> ('e, 'w) Worker \<times> Profiler" where
  "Worker_destroy w prof = (let (evs, w) = Worker_syncStop w in (evs, w, Profiler_dump prof))"

end
