(* ===== verification/Network.thy ===== *)
theory Network
  imports Raw_Udp_Server Net_Client Worker
begin

text \<open>
  The whole system over UDP: any number of clients, the server, and a network between them that may lose, repeat, delay
  and reorder datagrams. What has been sent is kept for ever, and a reception takes any of it. Endpoints that
  run the client program (client_essential/net_engine/RawUdpClient.cpp) send packets; every other endpoint may send the
  server (server/RawUdpServer.cpp) any bytes it likes. The source of a datagram is its sender's endpoint.
\<close>

subsection \<open>The system\<close>

record 'ep network =
  nw_server :: "'ep RawUdpServer"
  to_server :: "('ep \<times> byte list) list"
  to_clients :: "('ep \<times> byte list) list"
  spoken :: "('ep \<times> NetPacket) list"
  handed :: "('ep \<times> NetPacket) list"

definition network_start :: "bool \<Rightarrow> byte list \<Rightarrow> 'ep network" where
  "network_start echo buf =
     \<lparr>nw_server = RawUdpServer_start echo buf, to_server = [], to_clients = [], spoken = [], handed = []\<rparr>"

text \<open>
  The clients are the set C. The flag tells whether strangers can reach the ports of the clients as well: the receiver
  thread does not look at where a datagram comes from.
\<close>

inductive network_step :: "u32 \<Rightarrow> 'ep set \<Rightarrow> bool \<Rightarrow> 'ep network \<Rightarrow> 'ep network \<Rightarrow> bool" for ver C injection where
  client_sends: "a \<in> C \<Longrightarrow> packet_wf p \<Longrightarrow> RawUdpClient_send send_to p (impl :: 'ep RawUdpClientImpl) = (ret, sent) \<Longrightarrow>
    network_step ver C injection n
      (n\<lparr>to_server := to_server n @ map (\<lambda>x. (a, snd x)) sent, spoken := spoken n @ [(a, p)]\<rparr>)"
| stranger_sends: "a \<notin> C \<Longrightarrow> network_step ver C injection n (n\<lparr>to_server := to_server n @ [(a, bs)]\<rparr>)"
| server_receives: "(a, bs) \<in> set (to_server n) \<Longrightarrow>
    udp_step ver (nw_server n) \<lparr>ev_ec = ec, ev_from = a, ev_bytes = bs, ev_addr = k, ev_up = up\<rparr> out s' \<Longrightarrow>
    network_step ver C injection n (n\<lparr>nw_server := s', to_clients := to_clients n @ out\<rparr>)"
| stranger_injects: "injection \<Longrightarrow> network_step ver C injection n (n\<lparr>to_clients := to_clients n @ [(b, bs)]\<rparr>)"
| client_receives: "(b, bs) \<in> set (to_clients n) \<Longrightarrow> length reply = client_max_length \<Longrightarrow>
    receiver_loop cver [\<lparr>going_on = True, received = Some bs, round_up = up\<rparr>] reply = ps \<Longrightarrow>
    network_step ver C injection n (n\<lparr>handed := handed n @ map (Pair b) ps\<rparr>)"

inductive_cases network_stepE: "network_step ver C injection n n'"

inductive network_reachable :: "u32 \<Rightarrow> bool \<Rightarrow> 'ep set \<Rightarrow> bool \<Rightarrow> 'ep network \<Rightarrow> bool" for ver echo C injection where
  init: "length buf = max_length \<Longrightarrow> network_reachable ver echo C injection (network_start echo buf)"
| later: "network_reachable ver echo C injection n \<Longrightarrow> network_step ver C injection n n' \<Longrightarrow>
    network_reachable ver echo C injection n'"

subsection \<open>What a datagram for a client can be\<close>

text \<open>An endpoint has sent the server a packet of a type, or exactly this packet.\<close>

definition sent_type :: "'ep network \<Rightarrow> 'ep \<Rightarrow> PayloadType \<Rightarrow> bool" where
  "sent_type n a t \<longleftrightarrow>
     (\<exists>bs q. (a, bs) \<in> set (to_server n) \<and> datagram_packet bs = Some q \<and> payloadType q = pt_code t)"

definition sent_packet :: "'ep network \<Rightarrow> 'ep \<Rightarrow> NetPacket \<Rightarrow> bool" where
  "sent_packet n a p \<longleftrightarrow> (\<exists>bs. (a, bs) \<in> set (to_server n) \<and> datagram_packet bs = Some p)"

text \<open>Why the server sends a packet to an endpoint.\<close>

definition cause :: "bool \<Rightarrow> 'ep network \<Rightarrow> 'ep \<Rightarrow> NetPacket \<Rightarrow> bool" where
  "cause echo n b p \<longleftrightarrow>
     (if isMediaType p then \<exists>a. (if echo then a = b else a \<noteq> b) \<and> sent_packet n a p
      else if payloadType p = pt_code LoginResponse then
        sent_type n b LoginRequest \<and> (b \<in> endpoints (nw_server n) \<or> sent_type n b LogoutRequest)
      else payloadType p = pt_code HeartBeatResponse \<and> sent_type n b HeartBeatRequest)"

definition network_inv :: "u32 \<Rightarrow> bool \<Rightarrow> 'ep set \<Rightarrow> bool \<Rightarrow> 'ep network \<Rightarrow> bool" where
  "network_inv ver echo C injection n \<longleftrightarrow>
     udp_reachable ver echo (nw_server n) \<and>
     (\<forall>b \<in> endpoints (nw_server n). \<exists>bs. (b, bs) \<in> set (to_server n)) \<and>
     (\<forall>a bs. (a, bs) \<in> set (to_server n) \<longrightarrow> a \<in> C \<longrightarrow> (\<exists>p. (a, p) \<in> set (spoken n) \<and> packet_wf p \<and> bs = wholePacket p)) \<and>
     (\<not> injection \<longrightarrow> (\<forall>b bs. (b, bs) \<in> set (to_clients n) \<longrightarrow>
        (\<exists>p. datagram_packet bs = Some p \<and> cause echo n b p) \<and> (\<exists>bs'. (b, bs') \<in> set (to_server n)))) \<and>
     (\<forall>b p. (b, p) \<in> set (handed n) \<longrightarrow> (\<exists>bs. (b, bs) \<in> set (to_clients n) \<and> datagram_packet bs = Some p))"

text \<open>The receiver thread hands over the packet in the datagram, if there is one.\<close>

lemma receiver_round:
  assumes "length reply = client_max_length"
  shows "receiver_loop ver [\<lparr>going_on = True, received = Some bs, round_up = up\<rparr>] reply =
    (case datagram_packet bs of None \<Rightarrow> [] | Some p \<Rightarrow> [p])"
  using receiver_loop_packets [OF assms, of ver "[(bs, up)]"]
  by (simp add: map_filter_simps split: option.split)

lemma announced_max [simp]: "announced (take max_length bs) = announced bs"
  by (rule announced_take) (simp add: max_length_def)

lemma datagram_packet_again:
  assumes "datagram_packet bs = Some p"
  shows "datagram_packet (wholePacket p) = Some p"
proof (rule datagram_packet_wf)
  have p: "wholePacket p = take (announced bs) (take max_length bs)" and le: "announced bs \<le> length (take max_length bs)"
    using assms by (auto simp: datagram_packet_def Let_def split: if_splits)
  then have l: "length (wholePacket p) = announced bs" "length (wholePacket p) \<le> max_length"
    by simp_all
  have "20 \<le> announced bs"
    by (simp add: announced_def)
  then have "announced (wholePacket p) = announced bs"
    unfolding p by (subst announced_take) simp_all
  with l(1) \<open>20 \<le> announced bs\<close> show "packet_wf p"
    by (simp add: packet_wf_def announced_def)
  show "length (wholePacket p) \<le> max_length"
    by (rule l(2))
qed

lemma datagram_of_client: "packet_wf p \<Longrightarrow> datagram_packet (wholePacket p) = Some q \<Longrightarrow> q = p"
  by (auto simp: datagram_packet_def announced_wf Let_def split: if_splits)

subsection \<open>The invariant\<close>

lemma cause_mono:
  assumes "cause echo n b p" and "set (to_server n) \<subseteq> set (to_server n')"
    and "b \<in> endpoints (nw_server n) \<Longrightarrow> b \<in> endpoints (nw_server n') \<or> sent_type n' b LogoutRequest"
  shows "cause echo n' b p"
proof -
  have "sent_type n a t \<Longrightarrow> sent_type n' a t" "sent_packet n a q \<Longrightarrow> sent_packet n' a q" for a t q
    using assms(2) by (auto simp: sent_type_def sent_packet_def)
  with assms(1,3) show ?thesis
    unfolding cause_def by (metis (no_types, lifting))
qed

lemma relay_spec_cause:
  assumes "relay_spec ver up echo a (datagram_packet bs) (E, c) = ((E', c'), out)" and "(b, bs') \<in> out"
  shows "(b = a \<or> b \<in> E) \<and> (\<exists>q p. datagram_packet bs = Some q \<and> datagram_packet bs' = Some p \<and>
    (if isMediaType p then p = q \<and> (if echo then a = b else a \<noteq> b)
     else if payloadType p = pt_code LoginResponse then b = a \<and> b \<in> E' \<and> payloadType q = pt_code LoginRequest
     else payloadType p = pt_code HeartBeatResponse \<and> b = a \<and> payloadType q = pt_code HeartBeatRequest))"
proof -
  have new: "datagram_packet (wholePacket (NetPacket_new ver up t 0)) = Some (NetPacket_new ver up t 0)" for t
    by (rule datagram_packet_wf) (simp_all add: NetPacket_new_layout max_length_def)
  from assms obtain q where q: "datagram_packet bs = Some q"
    by (auto simp: relay_spec_def split: option.splits)
  show ?thesis
  proof (cases "isMediaType q")
    case True
    then show ?thesis
      using assms q datagram_packet_again [OF q] by (auto simp: relay_spec_def split: if_splits)
  next
    case False
    then consider (heartbeat) "pt_of_code (payloadType q) = Some HeartBeatRequest" "b = a" "a \<in> E'"
          "bs' = wholePacket (NetPacket_new ver up (pt_code HeartBeatResponse) 0)"
      | (login) "pt_of_code (payloadType q) = Some LoginRequest" "b = a" "a \<in> E'"
          "bs' = wholePacket (NetPacket_new ver up (pt_code LoginResponse) 0)"
      using assms q by (auto simp: relay_spec_def split: option.splits PayloadType.splits)
    then show ?thesis
    proof cases
      case heartbeat
      then show ?thesis
        using q new [of "pt_code HeartBeatResponse"]
        by (auto simp: packet_simps isMediaType_iff pt_of_code_Some simp del: pt_code.simps)
    next
      case login
      then show ?thesis
        using q new [of "pt_code LoginResponse"]
        by (auto simp: packet_simps isMediaType_iff pt_of_code_Some simp del: pt_code.simps)
    qed
  qed
qed

text \<open>One receive of the server.\<close>

lemma receive_cause:
  assumes "udp_reachable ver echo s" and "(a, bs) \<in> set (to_server n)" and "s = nw_server n"
    and "udp_step ver s \<lparr>ev_ec = ec, ev_from = a, ev_bytes = bs, ev_addr = k, ev_up = up\<rparr> out s'"
    and "n' = n\<lparr>nw_server := s', to_clients := to_clients n @ out\<rparr>"
  shows "endpoints s' \<subseteq> insert a (endpoints s)" and "endpoints s \<subseteq> endpoints s' \<union> {b. sent_type n' b LogoutRequest}"
    and "(b, bs') \<in> set out \<Longrightarrow> (b = a \<or> b \<in> endpoints s) \<and> (\<exists>p. datagram_packet bs' = Some p \<and> cause echo n' b p)"
proof -
  let ?e = "\<lparr>ev_ec = ec, ev_from = a, ev_bytes = bs, ev_addr = k, ev_up = up\<rparr>"
  have "endpoints s' \<subseteq> insert a (endpoints s) \<and> endpoints s \<subseteq> endpoints s' \<union> {b. sent_type n' b LogoutRequest} \<and>
    ((b, bs') \<in> set out \<longrightarrow> (b = a \<or> b \<in> endpoints s) \<and> (\<exists>p. datagram_packet bs' = Some p \<and> cause echo n' b p))"
  proof (cases "ec \<or> bs = []")
    case True
    then have "out = []" "endpoints s' = endpoints s"
      using udp_step_spec_event [OF assms(1,4)] by (simp_all add: spec_event_def)
    then show ?thesis
      by auto
  next
    case False
    then have r: "relay_spec ver up echo a (datagram_packet bs) (endpoints s, counterUserMessage s) =
        ((endpoints s', counterUserMessage s'), set out)"
      using udp_step_spec_event [OF assms(1,4)] by (simp add: spec_event_def)
    then have e: "endpoints s' \<subseteq> insert a (endpoints s)"
        "x \<in> endpoints s \<Longrightarrow> x \<in> endpoints s' \<or>
          x = a \<and> (\<exists>q. datagram_packet bs = Some q \<and> payloadType q = pt_code LogoutRequest)" for x
      by (auto simp: relay_spec_def pt_of_code_Some simp del: pt_code.simps
          split: option.splits PayloadType.splits if_splits)
    have sent: "sent_type n' a t" if "datagram_packet bs = Some q" "payloadType q = pt_code t" for q t
      using that assms(2,5) by (auto simp: sent_type_def)
    have "(b, bs') \<in> set out \<longrightarrow> (b = a \<or> b \<in> endpoints s) \<and> (\<exists>p. datagram_packet bs' = Some p \<and> cause echo n' b p)"
    proof
      assume "(b, bs') \<in> set out"
      from relay_spec_cause [OF r this] obtain q p where m: "b = a \<or> b \<in> endpoints s" "datagram_packet bs = Some q"
          "datagram_packet bs' = Some p"
        and c: "if isMediaType p then p = q \<and> (if echo then a = b else a \<noteq> b)
          else if payloadType p = pt_code LoginResponse then b = a \<and> b \<in> endpoints s' \<and> payloadType q = pt_code LoginRequest
          else payloadType p = pt_code HeartBeatResponse \<and> b = a \<and> payloadType q = pt_code HeartBeatRequest"
        by blast
      have "sent_packet n' a q"
        using m(2) assms(2,5) by (auto simp: sent_packet_def)
      then have "cause echo n' b p"
        using c sent [OF m(2)] assms(5) unfolding cause_def
        by (auto simp del: pt_code.simps split: if_splits)
      then show "(b = a \<or> b \<in> endpoints s) \<and> (\<exists>p. datagram_packet bs' = Some p \<and> cause echo n' b p)"
        using m by blast
    qed
    then show ?thesis
      using e sent by blast
  qed
  then show "endpoints s' \<subseteq> insert a (endpoints s)" "endpoints s \<subseteq> endpoints s' \<union> {b. sent_type n' b LogoutRequest}"
      "(b, bs') \<in> set out \<Longrightarrow> (b = a \<or> b \<in> endpoints s) \<and> (\<exists>p. datagram_packet bs' = Some p \<and> cause echo n' b p)"
    by blast+
qed

lemma client_send_bytes: "RawUdpClient_send send_to p impl = (ret, sent) \<Longrightarrow> snd ` set sent \<subseteq> {wholePacket p}"
  by (auto simp: RawUdpClient_send_def RawUdpClientImpl_send_def RawUdpClientImpl_sendUdp_def header_def
      wholePackLength_def Let_def split: option.splits)

text \<open>The part of the invariant about what reaches the clients is kept when the histories grow.\<close>

definition clients_ok :: "bool \<Rightarrow> 'ep network \<Rightarrow> bool" where
  "clients_ok echo n \<longleftrightarrow> (\<forall>b bs. (b, bs) \<in> set (to_clients n) \<longrightarrow>
     (\<exists>p. datagram_packet bs = Some p \<and> cause echo n b p) \<and> (\<exists>bs'. (b, bs') \<in> set (to_server n)))"

lemma clients_ok_sent:
  assumes "clients_ok echo n" and "to_clients n' = to_clients n" and "nw_server n' = nw_server n"
    and "set (to_server n) \<subseteq> set (to_server n')"
  shows "clients_ok echo n'"
proof -
  have "cause echo n b p \<Longrightarrow> cause echo n' b p" for b p
    using assms(3,4) by (elim cause_mono) simp_all
  with assms show ?thesis
    unfolding clients_ok_def by (simp add: subset_iff) blast
qed

lemma network_inv_sends:
  assumes "network_inv ver echo C injection n"
    and "n' = n\<lparr>to_server := to_server n @ map (Pair a) bss, spoken := spoken n @ ps\<rparr>"
    and "\<And>bs. a \<in> C \<Longrightarrow> bs \<in> set bss \<Longrightarrow> \<exists>p. (a, p) \<in> set ps \<and> packet_wf p \<and> bs = wholePacket p"
  shows "network_inv ver echo C injection n'"
proof -
  have "\<not> injection \<Longrightarrow> clients_ok echo n'"
    using assms(1,2) clients_ok_sent [of echo n n'] by (auto simp: network_inv_def clients_ok_def)
  moreover have "(x, bs) \<in> set (to_server n') \<Longrightarrow> x \<in> C \<Longrightarrow> \<exists>p. (x, p) \<in> set (spoken n') \<and> packet_wf p \<and> bs = wholePacket p" for x bs
    using assms by (fastforce simp: network_inv_def)
  ultimately show ?thesis
    using assms(1,2) by (fastforce simp: network_inv_def clients_ok_def)
qed

lemma network_inv_receives:
  assumes inv: "network_inv ver echo C injection n" and mem: "(a, bs) \<in> set (to_server n)"
    and st: "udp_step ver (nw_server n) \<lparr>ev_ec = ec, ev_from = a, ev_bytes = bs, ev_addr = k, ev_up = up\<rparr> out s'"
    and n': "n' = n\<lparr>nw_server := s', to_clients := to_clients n @ out\<rparr>"
  shows "network_inv ver echo C injection n'"
proof -
  have r: "udp_reachable ver echo (nw_server n)" and known: "b \<in> endpoints (nw_server n) \<Longrightarrow> \<exists>bs. (b, bs) \<in> set (to_server n)" for b
    using inv by (simp_all add: network_inv_def)
  note c = receive_cause [OF r mem refl st n']
  have "clients_ok echo n'" if "\<not> injection"
  proof -
    have "clients_ok echo n"
      using that inv by (simp add: network_inv_def clients_ok_def)
    moreover have "cause echo n b p \<Longrightarrow> cause echo n' b p" for b p
      using c(2) by (elim cause_mono) (auto simp: n')
    ultimately have "(b, bs') \<in> set (to_clients n) \<Longrightarrow>
        (\<exists>p. datagram_packet bs' = Some p \<and> cause echo n' b p) \<and> (\<exists>bs''. (b, bs'') \<in> set (to_server n'))" for b bs'
      unfolding clients_ok_def by (fastforce simp: n')
    moreover have "(b, bs') \<in> set out \<Longrightarrow>
        (\<exists>p. datagram_packet bs' = Some p \<and> cause echo n' b p) \<and> (\<exists>bs''. (b, bs'') \<in> set (to_server n'))" for b bs'
      using c(3) [of b bs'] known [of b] mem by (auto simp: n')
    ultimately show ?thesis
      unfolding clients_ok_def by (fastforce simp: n')
  qed
  moreover have "b \<in> endpoints s' \<Longrightarrow> \<exists>bs. (b, bs) \<in> set (to_server n)" for b
    using c(1) known mem by blast
  ultimately show ?thesis
    using inv udp_reachable.step [OF r st] unfolding network_inv_def clients_ok_def by (fastforce simp: n')
qed

lemma network_inv_handed:
  assumes "network_inv ver echo C injection n" and "(b, bs) \<in> set (to_clients n)"
    and "length reply = client_max_length"
    and "receiver_loop cver [\<lparr>going_on = True, received = Some bs, round_up = up\<rparr>] reply = ps"
  shows "network_inv ver echo C injection (n\<lparr>handed := handed n @ map (Pair b) ps\<rparr>)"
proof -
  have "set ps \<subseteq> {p. datagram_packet bs = Some p}"
    unfolding assms(4) [symmetric] receiver_round [OF assms(3)] by (auto split: option.split)
  moreover have "cause echo (n\<lparr>handed := h\<rparr>) = cause echo n" for h
    by (simp add: fun_eq_iff cause_def sent_type_def sent_packet_def)
  ultimately show ?thesis
    using assms(1,2) by (auto simp: network_inv_def)
qed

lemma network_step_inv:
  assumes "network_step ver C injection n n'" and "network_inv ver echo C injection n"
  shows "network_inv ver echo C injection n'"
  using assms(1)
proof (cases rule: network_step.cases)
  case (client_sends a p send_to impl ret sent)
  then have "map (\<lambda>x. (a, snd x)) sent = map (Pair a) (map snd sent)" "snd ` set sent \<subseteq> {wholePacket p}"
    using client_send_bytes [OF client_sends(4)] by simp_all
  then show ?thesis
    using client_sends by (intro network_inv_sends [OF assms(2), where a = a and bss = "map snd sent" and ps = "[(a, p)]"]) auto
next
  case (stranger_sends a bs)
  then show ?thesis
    by (intro network_inv_sends [OF assms(2), where a = a and bss = "[bs]" and ps = "[]"]) auto
next
  case (server_receives a bs ec k up out s')
  then show ?thesis
    by (intro network_inv_receives [OF assms(2)]) auto
next
  case (stranger_injects b bs)
  then show ?thesis
    using assms(2) by (fastforce simp: network_inv_def)
next
  case (client_receives b bs reply cver up ps)
  then show ?thesis
    using network_inv_handed [OF assms(2)] by simp
qed

lemma network_reachable_inv: "network_reachable ver echo C injection n \<Longrightarrow> network_inv ver echo C injection n"
proof (induction rule: network_reachable.induct)
  case (init buf)
  then show ?case
    using udp_reachable.start [OF init, of ver echo]
    by (simp add: network_inv_def network_start_def endpoints_def RawUdpServer_start_def)
next
  case (later n n')
  then show ?case
    by (rule_tac network_step_inv)
qed

subsection \<open>Everything that is heard was said\<close>

lemma handed_cause:
  assumes "network_reachable ver echo C False n" and "(b, p) \<in> set (handed n)"
  shows "cause echo n b p" and "\<exists>bs. (b, bs) \<in> set (to_server n)"
proof -
  have "network_inv ver echo C False n"
    by (rule network_reachable_inv [OF assms(1)])
  then obtain bs where "(b, bs) \<in> set (to_clients n)" "datagram_packet bs = Some p"
      "\<exists>p. datagram_packet bs = Some p \<and> cause echo n b p" "\<exists>bs'. (b, bs') \<in> set (to_server n)"
    using assms(2) unfolding network_inv_def by blast
  then show "cause echo n b p" "\<exists>bs. (b, bs) \<in> set (to_server n)"
    by auto
qed

text \<open>What a client has sent, it has spoken.\<close>

lemma client_sent_spoken:
  assumes "network_reachable ver echo C injection n" and "a \<in> C"
  shows "sent_packet n a p \<Longrightarrow> (a, p) \<in> set (spoken n)"
    and "sent_type n a t \<Longrightarrow> \<exists>q. (a, q) \<in> set (spoken n) \<and> payloadType q = pt_code t"
proof -
  have "(a, bs) \<in> set (to_server n) \<Longrightarrow> datagram_packet bs = Some q \<Longrightarrow> (a, q) \<in> set (spoken n)" for bs q
    using network_reachable_inv [OF assms(1)] assms(2) by (auto simp: network_inv_def dest: datagram_of_client)
  then show "sent_packet n a p \<Longrightarrow> (a, p) \<in> set (spoken n)"
      "sent_type n a t \<Longrightarrow> \<exists>q. (a, q) \<in> set (spoken n) \<and> payloadType q = pt_code t"
    unfolding sent_packet_def sent_type_def by blast+
qed

text \<open>
  C3: everything that is heard was said. The server is in broadcast mode, the network loses, repeats, delays and
  reorders as it likes, endpoints without the client program send the server whatever they like, and
  nothing but the server sends to the clients. Then every voice, comfort noise or text packet that the
  receiver thread of an endpoint hands over was sent by another endpoint, byte for byte, and the program made it if that
  endpoint runs the client program; and nobody is handed anything before having sent something itself.
\<close>
theorem heard_was_said:
  assumes "network_reachable ver False C False n" and "(b, p) \<in> set (handed n)" and "isMediaType p"
  shows "(\<exists>a. a \<noteq> b \<and>
      (if a \<in> C then (a, p) \<in> set (spoken n)
       else \<exists>bs. (a, bs) \<in> set (to_server n) \<and> datagram_packet bs = Some p)) \<and>
    (\<exists>bs. (b, bs) \<in> set (to_server n))"
proof -
  obtain a where "a \<noteq> b" "sent_packet n a p"
    using handed_cause(1) [OF assms(1,2)] assms(3) by (auto simp: cause_def)
  then show ?thesis
    using client_sent_spoken(1) [OF assms(1)] handed_cause(2) [OF assms(1,2)]
    by (auto simp: sent_packet_def)
qed

text \<open>The callback of the worker sets the login flag for a login response only.\<close>

lemma onDataReceived_login:
  "Worker_onDataReceived opus far qlib ver up p (False, ds) = Inr (ev, True, ds') \<Longrightarrow>
     payloadType p = pt_code LoginResponse"
  by (auto simp: Worker_onDataReceived_def map_sum_def pt_of_code_Some simp del: pt_code.simps
      split: option.splits PayloadType.splits sum.splits)

text \<open>
  C18: who is logged in is a member. In the same network, in either mode of the server: when a packet that was handed
  over makes the callback of a client's worker set the login flag, that client has asked for the login, and
  the server knows its endpoint, so that voice is relayed to it, unless it has sent a logout.
\<close>
theorem login_means_member:
  assumes "network_reachable ver echo C False n" and "(b, p) \<in> set (handed n)" and "b \<in> C"
    and "Worker_onDataReceived opus far qlib ver' up p (False, ds) = Inr (ev, True, ds')"
  shows "(\<exists>q. (b, q) \<in> set (spoken n) \<and> payloadType q = pt_code LoginRequest) \<and>
    (b \<in> endpoints (nw_server n) \<or> (\<exists>q. (b, q) \<in> set (spoken n) \<and> payloadType q = pt_code LogoutRequest))"
proof -
  have t: "payloadType p = pt_code LoginResponse"
    by (rule onDataReceived_login [OF assms(4)])
  then have "\<not> isMediaType p"
    by (simp add: isMediaType_iff del: pt_code.simps)
  then have "sent_type n b LoginRequest" "b \<in> endpoints (nw_server n) \<or> sent_type n b LogoutRequest"
    using handed_cause(1) [OF assms(1,2)] t by (simp_all add: cause_def del: pt_code.simps)
  then show ?thesis
    using client_sent_spoken(2) [OF assms(1,3)] by blast
qed

subsection \<open>Runs\<close>

text \<open>The server can receive what was sent, and a client what the server sent.\<close>

lemma run_server:
  assumes "network_reachable ver echo C injection n" and "(a, bs) \<in> set (to_server n)"
  shows "\<exists>n' out. network_reachable ver echo C injection n' \<and>
    spec_event ver echo \<lparr>ev_ec = False, ev_from = a, ev_bytes = bs, ev_addr = k', ev_up = up\<rparr>
      (endpoints (nw_server n), counterUserMessage (nw_server n)) =
      ((endpoints (nw_server n'), counterUserMessage (nw_server n')), set out) \<and>
    to_server n' = to_server n \<and> to_clients n' = to_clients n @ out \<and> spoken n' = spoken n \<and> handed n' = handed n"
proof -
  obtain k out s' where st: "udp_step ver (nw_server n)
      \<lparr>ev_ec = False, ev_from = a, ev_bytes = bs, ev_addr = k, ev_up = up\<rparr> out s'"
    by (meson udp_can_receive)
  let ?n = "n\<lparr>nw_server := s', to_clients := to_clients n @ out\<rparr>"
  have r: "udp_reachable ver echo (nw_server n)"
    using network_reachable_inv [OF assms(1)] by (simp add: network_inv_def)
  have "spec_event ver echo \<lparr>ev_ec = False, ev_from = a, ev_bytes = bs, ev_addr = k', ev_up = up\<rparr>
      (endpoints (nw_server n), counterUserMessage (nw_server n)) = ((endpoints s', counterUserMessage s'), set out)"
    using udp_step_spec_event [OF r st] by (cases "bs = []") (simp_all add: spec_event_def)
  moreover have "network_reachable ver echo C injection ?n"
    by (rule network_reachable.later [OF assms(1) server_receives [OF assms(2) st]])
  ultimately show ?thesis
    by (intro exI [of _ ?n] exI [of _ out]) simp
qed

lemma run_client:
  assumes "network_reachable ver echo C injection n" and "(b, bs) \<in> set (to_clients n)" and "datagram_packet bs = Some p"
  shows "network_reachable ver echo C injection (n\<lparr>handed := handed n @ [(b, p)]\<rparr>)"
proof -
  have l: "length (replicate client_max_length (0 :: byte)) = client_max_length"
    by simp
  have "receiver_loop 0 [\<lparr>going_on = True, received = Some bs, round_up = 0\<rparr>] (replicate client_max_length 0) = [p]"
    unfolding receiver_round [OF l] by (simp add: assms(3))
  from network_reachable.later [OF assms(1) client_receives [OF assms(2) l this]] show ?thesis
    by simp
qed

lemma run_clients:
  assumes "network_reachable ver echo C injection n" and "datagram_packet bs = Some p"
    and "finite S" and "\<And>b. b \<in> S \<Longrightarrow> (b, bs) \<in> set (to_clients n)"
  shows "\<exists>n'. network_reachable ver echo C injection n' \<and> (\<forall>b \<in> S. (b, p) \<in> set (handed n')) \<and>
    to_clients n' = to_clients n \<and> nw_server n' = nw_server n \<and> spoken n' = spoken n \<and> to_server n' = to_server n"
  using assms(3,4)
proof (induction S rule: finite_induct)
  case empty
  then show ?case
    using assms(1) by blast
next
  case (insert b S)
  then obtain n' where n': "network_reachable ver echo C injection n'" "\<forall>b \<in> S. (b, p) \<in> set (handed n')"
      "to_clients n' = to_clients n" "nw_server n' = nw_server n" "spoken n' = spoken n" "to_server n' = to_server n"
    by auto
  have "(b, bs) \<in> set (to_clients n')"
    using insert.prems n'(3) by simp
  from run_client [OF n'(1) this assms(2)] n'(2-6) show ?case
    by (intro exI [of _ "n'\<lparr>handed := handed n' @ [(b, p)]\<rparr>"]) simp
qed

lemma run_relay:
  assumes "network_reachable ver False C injection n" and "(a, bs) \<in> set (to_server n)"
    and "datagram_packet bs = Some p" and "isMediaType p"
  shows "\<exists>n'. network_reachable ver False C injection n' \<and>
    (\<forall>b \<in> endpoints (nw_server n) - {a}. (b, p) \<in> set (handed n')) \<and>
    to_server n' = to_server n \<and> spoken n' = spoken n"
proof -
  have "bs \<noteq> []"
    using assms(3) by (auto simp: datagram_packet_def announced_def)
  with run_server [OF assms(1,2), of 0 0] assms(3,4) obtain n2 out where n2: "network_reachable ver False C injection n2"
      "set out = (\<lambda>r. (r, wholePacket p)) ` (endpoints (nw_server n) - {a})" "to_clients n2 = to_clients n @ out"
      "to_server n2 = to_server n" "spoken n2 = spoken n"
    by (auto simp: spec_event_def relay_spec_def)
  have "finite (endpoints (nw_server n) - {a})"
    by (simp add: endpoints_def)
  from run_clients [OF n2(1) datagram_packet_again [OF assms(3)] this] n2(2-5) show ?thesis
    by fastforce
qed

text \<open>A client sends a packet, and logs in.\<close>

lemma run_send:
  assumes "network_reachable ver echo C injection n" and "a \<in> C" and "packet_wf p"
  shows "network_reachable ver echo C injection
    (n\<lparr>to_server := to_server n @ [(a, wholePacket p)], spoken := spoken n @ [(a, p)]\<rparr>)"
proof -
  have "RawUdpClient_send (\<lambda>_ _. None) p \<lparr>udp_endpoints = [a], isGoingOn = True\<rparr> = (ReturnType_int 0, [(a, wholePacket p)])"
    by (simp add: RawUdpClient_send_def RawUdpClientImpl_send_def RawUdpClientImpl_sendUdp_def header_def
        wholePackLength_def Let_def)
  from network_reachable.later [OF assms(1) client_sends [OF assms(2,3) this]] show ?thesis
    by simp
qed

lemma run_login:
  assumes "network_reachable ver echo C injection n" and "b \<in> C"
  shows "\<exists>n'. network_reachable ver echo C injection n' \<and> endpoints (nw_server n') = insert b (endpoints (nw_server n)) \<and>
    (b, NetPacket_new ver 0 (pt_code LoginResponse) 0) \<in> set (handed n')"
proof -
  let ?p = "NetPacket_new ver 0 (pt_code LoginRequest) 0" and ?q = "NetPacket_new ver 0 (pt_code LoginResponse) 0"
  let ?n = "n\<lparr>to_server := to_server n @ [(b, wholePacket ?p)], spoken := spoken n @ [(b, ?p)]\<rparr>"
  have d: "datagram_packet (wholePacket ?p) = Some ?p" "datagram_packet (wholePacket ?q) = Some ?q"
    by (rule datagram_packet_wf; simp add: NetPacket_new_layout max_length_def)+
  have n: "network_reachable ver echo C injection ?n"
    by (rule run_send [OF assms packet_wf_new])
  have "relay_spec ver 0 echo b (Some ?p) (E, c) = ((insert b E, c), {(b, wholePacket ?q)})" for E c
    by (simp add: relay_spec_def packet_simps isMediaType_iff del: pt_code.simps)
  moreover have "wholePacket ?p \<noteq> []"
    using packet_wf_nonempty [OF packet_wf_new] .
  ultimately obtain n2 out where n2: "network_reachable ver echo C injection n2" "set out = {(b, wholePacket ?q)}"
      "to_clients n2 = to_clients n @ out" "endpoints (nw_server n2) = insert b (endpoints (nw_server n))"
    using run_server [OF n, of b "wholePacket ?p" 0 0] d(1) by (auto simp: spec_event_def)
  then have "(b, wholePacket ?q) \<in> set (to_clients n2)"
    by simp
  from run_client [OF n2(1) this d(2)] n2(4) show ?thesis
    by (intro exI [of _ "n2\<lparr>handed := handed n2 @ [(b, ?q)]\<rparr>"]) simp
qed

lemma run_two_clients:
  "\<exists>n :: nat network. network_reachable ver echo {1, 2} injection n \<and> endpoints (nw_server n) = {1, 2} \<and>
     (2, NetPacket_new ver 0 (pt_code LoginResponse) 0) \<in> set (handed n)"
proof -
  have "network_reachable ver echo {1, 2 :: nat} injection (network_start echo (replicate max_length 0))"
    by (rule network_reachable.init) simp
  from run_login [OF this, of 1] obtain n1 :: "nat network" where
    n1: "network_reachable ver echo {1, 2} injection n1" "endpoints (nw_server n1) = {1}"
    by (auto simp: network_start_def RawUdpServer_start_def endpoints_def)
  from run_login [OF n1(1), of 2] n1(2) show ?thesis
    by (auto simp: insert_commute)
qed

text \<open>
  C29: one datagram makes every listener read past a decoded block. Whatever has happened before, any endpoint, even one that
  has never logged in and does not run the client program, can send a single datagram with an audio packet whose payload decodes
  to less than a block (a shorter Opus frame): there is then a run in which the receiver thread of every member but the
  sender hands it over, and the callback of its worker reads past the end of the decoded block, in whatever state it is. With
  echo cancelling the read leaves the array of floats; without, it copies what lies behind the size of the vector of samples, inside
  its storage, into the block to be played.
\<close>
theorem one_packet_overreads_listeners:
  assumes "network_reachable ver False C injection n" and "a \<notin> C"
    and "datagram_packet bs = Some p" and "payloadType p = pt_code AudioMessage"
    and "opus_contract opus" and "decoder (ds_decoder ds) = Some d"
    and "opus_decode opus d (payload p) MAX_FRAME_SIZE = (r, out, d')" and "0 \<le> r" and "r < 160"
  shows "(\<exists>n'. network_reachable ver False C injection n' \<and>
      to_server n' = to_server n @ [(a, bs)] \<and> spoken n' = spoken n \<and>
      (\<forall>b \<in> endpoints (nw_server n) - {a}. (b, p) \<in> set (handed n'))) \<and>
    Worker_onDataReceived opus far qlib ver' up' p (login, ds) =
      Inl (if ds_needAec ds then OutOfBounds else PastSize)"
proof
  have t: "pt_of_code (payloadType p) = Some AudioMessage" "isMediaType p"
    using assms(4) by (simp_all add: isMediaType_iff del: pt_code.simps)
  show "\<exists>n'. network_reachable ver False C injection n' \<and>
      to_server n' = to_server n @ [(a, bs)] \<and> spoken n' = spoken n \<and>
      (\<forall>b \<in> endpoints (nw_server n) - {a}. (b, p) \<in> set (handed n'))"
  proof -
    have "network_reachable ver False C injection (n\<lparr>to_server := to_server n @ [(a, bs)]\<rparr>)"
      by (rule network_reachable.later [OF assms(1) stranger_sends [OF assms(2)]])
    from run_relay [OF this _ assms(3) t(2), of a] show ?thesis
      by auto
  qed
  show "Worker_onDataReceived opus far qlib ver' up' p (login, ds) =
      Inl (if ds_needAec ds then OutOfBounds else PastSize)"
    using short_packet_faults [OF assms(5), of p ds far qlib] assms(4,6-9) t
    by (simp add: Worker_onDataReceived_def short_packet_def blockSize_160 Let_def)
qed

text \<open>
  Nor does a datagram have to come from the server: the receiver thread does not compare its source, so that whoever can
  reach the port of a client is heard by it.
\<close>

lemma stranger_is_heard:
  assumes "network_reachable ver echo C True n" and "datagram_packet bs = Some p"
  shows "\<exists>n'. network_reachable ver echo C True n' \<and> (b, p) \<in> set (handed n') \<and>
    to_server n' = to_server n \<and> spoken n' = spoken n"
proof -
  let ?n = "n\<lparr>to_clients := to_clients n @ [(b, bs)]\<rparr>"
  have "network_reachable ver echo C True ?n"
    by (rule network_reachable.later [OF assms(1) stranger_injects]) simp
  from run_client [OF this _ assms(2), of b] show ?thesis
    by (intro exI [of _ "?n\<lparr>handed := handed ?n @ [(b, p)]\<rparr>"]) simp
qed

subsection \<open>Witnesses\<close>

theorem heard_was_said_witness:
  "\<exists>n :: nat network. network_reachable 0 False {1, 2} False n \<and> (2, talk) \<in> set (handed n) \<and>
     (\<exists>a. a \<noteq> 2 \<and> (if a \<in> {1, 2} then (a, talk) \<in> set (spoken n)
        else \<exists>bs. (a, bs) \<in> set (to_server n) \<and> datagram_packet bs = Some talk))"
proof -
  obtain n :: "nat network" where n: "network_reachable 0 False {1, 2} False n" "endpoints (nw_server n) = {1, 2}"
    using run_two_clients by blast
  have "network_reachable 0 False {1, 2} False
      (n\<lparr>to_server := to_server n @ [(1, wholePacket talk)], spoken := spoken n @ [(1, talk)]\<rparr>)"
    by (rule run_send [OF n(1) _ talk_wf(1)]) simp
  from run_relay [OF this, of 1 "wholePacket talk" talk] n(2) obtain n' :: "nat network" where
    n': "network_reachable 0 False {1, 2} False n'" "(2, talk) \<in> set (handed n')"
    using datagram_packet_wf [OF talk_wf(1,2)] talk_wf(3) by auto
  from heard_was_said [OF n' talk_wf(3)] n' show ?thesis
    by blast
qed

theorem login_means_member_witness:
  "\<exists>n :: nat network. network_reachable 0 True {1, 2} False n \<and> 2 \<in> endpoints (nw_server n) \<and>
     (\<exists>q. (2, q) \<in> set (spoken n) \<and> payloadType q = pt_code LoginRequest)"
proof -
  let ?q = "NetPacket_new 0 0 (pt_code LoginResponse) 0"
  obtain n :: "nat network" where n: "network_reachable 0 True {1, 2} False n" "endpoints (nw_server n) = {1, 2}"
      "(2, ?q) \<in> set (handed n)"
    using run_two_clients by blast
  have "Worker_onDataReceived (toy_opus 160) toy_farend list_queue 0 0 ?q (False, toy_downstream) = Inr ([], True, toy_downstream)"
    by (simp add: Worker_onDataReceived_def packet_simps del: pt_code.simps)
  from login_means_member [OF n(1,3) _ this] n(1,2) show ?thesis
    by blast
qed

theorem one_packet_overreads_listeners_witness:
  "\<exists>n' :: nat network. network_reachable 0 False {1, 2} False n' \<and> {(1, talk), (2, talk)} \<subseteq> set (handed n') \<and>
     Worker_onDataReceived (toy_opus 80) toy_farend list_queue 0 0 talk (True, toy_downstream) = Inl PastSize"
proof -
  obtain n :: "nat network" where n: "network_reachable 0 False {1, 2} False n" "endpoints (nw_server n) = {1, 2}"
    using run_two_clients by blast
  have d: "decoder (ds_decoder toy_downstream) = Some ()"
    by (simp add: toy_downstream_def DownstreamProcessor_new_def OpusDec_reInit_def toy_opus_def)
  have o: "\<exists>out. opus_decode (toy_opus 80) () (payload talk) MAX_FRAME_SIZE = (80, out, ())"
    by (simp add: toy_opus_def MAX_FRAME_SIZE_def)
  then obtain out where o: "opus_decode (toy_opus 80) () (payload talk) MAX_FRAME_SIZE = (80, out, ())" ..
  have "\<not> ds_needAec toy_downstream"
    by (simp add: toy_downstream_def DownstreamProcessor_new_def)
  moreover have "payloadType talk = pt_code AudioMessage"
    by (simp add: packet_simps del: pt_code.simps)
  ultimately show ?thesis
    using one_packet_overreads_listeners [OF n(1) _ datagram_packet_wf [OF talk_wf(1,2)] _ opus_contract_toy d o,
        where a = 3 and far = toy_farend and qlib = list_queue and ver' = 0 and up' = 0 and login = True] n(2)
    by fastforce
qed

end
