(* ===== verification/Send_Buffers.thy ===== *)
theory Send_Buffers
  imports Raw_Udp_Server
begin

text \<open>
  The memory behind the sends of the UDP server (server/RawUdpServer.cpp). async_send_to is given a pointer and a length,
  and the socket library wants the bytes to stay valid until the operation has completed. The packet belongs to
  the handler that sends it: it is an object that makePacket allocates, or a temporary of one statement. The theory
  Raw_Udp_Server sends the bytes at once; here they stay in an explicit memory, and the library reads them
  at once or later, as it likes.
\<close>

subsection \<open>Operations of the socket\<close>

text \<open>A freed object is None. An operation is an endpoint, an address and a length.\<close>

record 'ep send_state =
  memory :: "nat \<Rightarrow> byte list option"
  pending_sends :: "('ep \<times> nat \<times> nat) list"
  wire :: "'ep sends"
  calls_made :: nat

text \<open>The library reads the buffer; None is a read of freed memory.\<close>

definition transmit :: "'ep \<times> nat \<times> nat \<Rightarrow> 'ep send_state \<Rightarrow> 'ep send_state option" where
  "transmit op st =
     (case op of (ep, buf, len) \<Rightarrow>
       map_option (\<lambda>bs. st\<lparr>wire := wire st @ [(ep, take len bs)]\<rparr>) (memory st buf))"

text \<open>Whether the i-th operation is performed in the call that starts it.\<close>

definition async_send_to :: "(nat \<Rightarrow> bool) \<Rightarrow> 'ep \<Rightarrow> nat \<Rightarrow> nat \<Rightarrow> 'ep send_state \<Rightarrow> 'ep send_state option" where
  "async_send_to at_once ep buf len st =
     (let now = at_once (calls_made st); st = st\<lparr>calls_made := calls_made st + 1\<rparr>
      in if now then transmit (ep, buf, len) st
         else Some (st\<lparr>pending_sends := pending_sends st @ [(ep, buf, len)]\<rparr>))"

subsection \<open>The handlers on objects in memory\<close>

definition sendUdp_buffer ::
    "(nat \<Rightarrow> bool) \<Rightarrow> 'ep RawUdpConnection \<Rightarrow> nat \<Rightarrow> nat \<Rightarrow> 'ep send_state \<Rightarrow> 'ep send_state option" where
  "sendUdp_buffer at_once c buf len st = async_send_to at_once (remote_endpoint c) buf len st"

definition send_buffer ::
    "(nat \<Rightarrow> bool) \<Rightarrow> 'ep RawUdpConnection \<Rightarrow> nat \<Rightarrow> 'ep send_state \<Rightarrow> 'ep send_state option" where
  "send_buffer at_once c msg st =
     (case memory st msg of None \<Rightarrow> None | Some bs \<Rightarrow> sendUdp_buffer at_once c msg (length bs) st)"

text \<open>A packet that lives for one statement, at the address tmp.\<close>

definition send_temporary ::
    "(nat \<Rightarrow> bool) \<Rightarrow> 'ep RawUdpConnection \<Rightarrow> nat \<Rightarrow> NetPacket \<Rightarrow> 'ep send_state \<Rightarrow> 'ep send_state option" where
  "send_temporary at_once c tmp p st =
     (let st = st\<lparr>memory := (memory st)(tmp \<mapsto> wholePacket p)\<rparr>
      in map_option (\<lambda>st. st\<lparr>memory := (memory st)(tmp := None)\<rparr>) (send_buffer at_once c tmp st))"

fun send_others ::
    "(nat \<Rightarrow> bool) \<Rightarrow> 'ep RawUdpConnection \<Rightarrow> nat \<Rightarrow> 'ep RawUdpConnection list \<Rightarrow> 'ep send_state \<Rightarrow> 'ep send_state option" where
  "send_others at_once sender msg [] st = Some st"
| "send_others at_once sender msg (participant # rest) st =
     (if caddr participant = caddr sender then send_others at_once sender msg rest st
      else (case send_buffer at_once participant msg st of
              None \<Rightarrow> None | Some st \<Rightarrow> send_others at_once sender msg rest st))"

definition process_buffer ::
    "(nat \<Rightarrow> bool) \<Rightarrow> u32 \<Rightarrow> u32 \<Rightarrow> bool \<Rightarrow> nat \<Rightarrow> NetPacket \<Rightarrow> nat \<Rightarrow> 'ep RawUdpConnection \<Rightarrow> 'ep RawUdpRoom \<times> u32 \<Rightarrow>
     'ep send_state \<Rightarrow> (('ep RawUdpRoom \<times> u32) \<times> 'ep send_state) option" where
  "process_buffer at_once ver up echo obj msg tmp sender rc st =
     (case rc of (room, counter) \<Rightarrow>
       let media = map_option (Pair (room, counter + 1))
             (if echo then send_buffer at_once sender obj st else send_others at_once sender obj room st)
       in case pt_of_code (payloadType msg) of
         Some HeartBeatRequest \<Rightarrow> map_option (Pair (room, counter))
           (send_temporary at_once sender tmp (NetPacket_new ver up (pt_code HeartBeatResponse) 0) st)
       | Some TextMessage \<Rightarrow> media
       | Some AudioMessage \<Rightarrow> media
       | Some AudioMessage_CN \<Rightarrow> media
       | Some LoginRequest \<Rightarrow> map_option (Pair (room, counter))
           (send_temporary at_once sender tmp (NetPacket_new ver up (pt_code LoginResponse) 0) st)
       | Some LogoutRequest \<Rightarrow> Some ((RawUdpRoom_kickMeOut sender room, counter), st)
       | _ \<Rightarrow> Some ((room, counter), st))"

text \<open>The shared pointer newPacket is the only owner of the object at obj; the end of the handler frees it.\<close>

definition onReceived_buffer ::
    "(nat \<Rightarrow> bool) \<Rightarrow> u32 \<Rightarrow> u32 \<Rightarrow> bool \<Rightarrow> nat \<Rightarrow> nat \<Rightarrow> 'ep RawUdpConnection \<Rightarrow> byte list \<Rightarrow> nat \<Rightarrow>
     'ep RawUdpRoom \<times> u32 \<Rightarrow> 'ep send_state \<Rightarrow> (('ep RawUdpRoom \<times> u32) \<times> 'ep send_state) option" where
  "onReceived_buffer at_once ver up echo obj tmp self data bytes_recvd rc st =
     (case RawUdpConnection_makePacket ver up data bytes_recvd of
        None \<Rightarrow> Some (rc, st)
      | Some newPacket \<Rightarrow>
          let st = st\<lparr>memory := (memory st)(obj \<mapsto> wholePacket newPacket)\<rparr>
          in map_option (\<lambda>(rc, st). (rc, st\<lparr>memory := (memory st)(obj := None)\<rparr>))
               (process_buffer at_once ver up echo obj newPacket tmp self rc st))"

subsection \<open>What is sent and what is left over\<close>

text \<open>The sends of a handler that are performed at once, and the operations that stay, from the k-th call on.\<close>

fun sent_now :: "(nat \<Rightarrow> bool) \<Rightarrow> nat \<Rightarrow> 'a list \<Rightarrow> 'a list" where
  "sent_now at_once k [] = []"
| "sent_now at_once k (x # xs) = (if at_once k then [x] else []) @ sent_now at_once (Suc k) xs"

abbreviation sent_later :: "(nat \<Rightarrow> bool) \<Rightarrow> nat \<Rightarrow> 'a list \<Rightarrow> 'a list" where
  "sent_later at_once \<equiv> sent_now (\<lambda>i. \<not> at_once i)"

lemma sent_now_map: "sent_now at_once k (map f xs) = map f (sent_now at_once k xs)"
  by (induction xs arbitrary: k) simp_all

lemma sent_now_all [simp]: "sent_now (\<lambda>_. True) k xs = xs" "sent_now (\<lambda>_. False) k xs = []"
  by (induction xs arbitrary: k) simp_all

text \<open>After the calls for a list of receivers with one live object.\<close>

definition after_sends ::
    "(nat \<Rightarrow> bool) \<Rightarrow> nat \<Rightarrow> byte list \<Rightarrow> 'ep RawUdpConnection list \<Rightarrow> 'ep send_state \<Rightarrow> 'ep send_state" where
  "after_sends at_once obj bs cs st =
     st\<lparr>calls_made := calls_made st + length cs,
        wire := wire st @ map (\<lambda>c. (remote_endpoint c, bs)) (sent_now at_once (calls_made st) cs),
        pending_sends := pending_sends st @
          map (\<lambda>c. (remote_endpoint c, obj, length bs)) (sent_later at_once (calls_made st) cs)\<rparr>"

lemma send_buffer_eq:
  "memory st obj = Some bs \<Longrightarrow> send_buffer at_once c obj st = Some (after_sends at_once obj bs [c] st)"
  by (simp add: send_buffer_def sendUdp_buffer_def async_send_to_def transmit_def after_sends_def Let_def)

lemma send_others_eq:
  "memory st obj = Some bs \<Longrightarrow>
   send_others at_once sender obj room st =
     Some (after_sends at_once obj bs (filter (\<lambda>c. caddr c \<noteq> caddr sender) room) st)"
proof (induction room arbitrary: st)
  case Nil
  then show ?case
    by (simp add: after_sends_def)
next
  case (Cons c room)
  have "memory (after_sends at_once obj bs [c] st) obj = Some bs"
    using Cons.prems by (simp add: after_sends_def)
  from Cons.IH [OF this] Cons.IH [OF Cons.prems] show ?case
    by (simp add: send_buffer_eq [OF Cons.prems]) (simp add: after_sends_def)
qed

lemma send_temporary_eq:
  "memory st tmp = None \<Longrightarrow> send_temporary at_once c tmp p st = Some (after_sends at_once tmp (wholePacket p) [c] st)"
  by (simp add: send_temporary_def send_buffer_eq Let_def after_sends_def fun_upd_idem)

text \<open>
  A handler that makes the sends out: the memory is as before, some sends are done, and the others are operations on
  the objects at some addresses.
\<close>

definition handled ::
    "(nat \<Rightarrow> bool) \<Rightarrow> nat set \<Rightarrow> 'ep sends \<Rightarrow> 'ep send_state \<Rightarrow> 'ep send_state \<Rightarrow> bool" where
  "handled at_once addrs out st st' \<longleftrightarrow>
     memory st' = memory st \<and> wire st' = wire st @ sent_now at_once (calls_made st) out \<and>
     (\<exists>xs. pending_sends st' = pending_sends st @ xs \<and> map fst xs = map fst (sent_later at_once (calls_made st) out) \<and>
        (\<forall>(ep, buf, len) \<in> set xs. buf \<in> addrs))"

lemma handled_none: "handled at_once addrs [] st st"
  by (simp add: handled_def)

lemma handled_after_sends:
  "obj \<in> addrs \<Longrightarrow>
   handled at_once addrs (map (\<lambda>c. (remote_endpoint c, bs)) cs) st (after_sends at_once obj bs cs st)"
  by (auto simp: handled_def after_sends_def sent_now_map)

lemma concat_others:
  "concat (map (\<lambda>c. if caddr c = k then [] else [(c, msg)]) room) = map (\<lambda>c. (c, msg)) (filter (\<lambda>c. caddr c \<noteq> k) room)"
  by (induction room) simp_all

lemma process_buffer_handled:
  assumes "memory st obj = Some (wholePacket msg)" and "memory st tmp = None"
    and "processClientMessagePayload ver up echo msg sender rc = (rc', calls)"
  shows "\<exists>st'. process_buffer at_once ver up echo obj msg tmp sender rc st = Some (rc', st') \<and>
    handled at_once {obj, tmp} (map (\<lambda>(c, msg). (remote_endpoint c, wholePacket msg)) calls) st st'"
proof -
  obtain room counter where rc: "rc = (room, counter)"
    by (metis surj_pair)
  have obj: "handled at_once {obj, tmp} (map (\<lambda>c. (remote_endpoint c, bs)) cs) st (after_sends at_once obj bs cs st)"
    and tmp: "handled at_once {obj, tmp} (map (\<lambda>c. (remote_endpoint c, bs)) cs) st (after_sends at_once tmp bs cs st)"
    for bs cs
    by (rule handled_after_sends; simp)+
  note eqs = process_buffer_def processClientMessagePayload_def rc Let_def send_buffer_eq [OF assms(1)]
    send_others_eq [OF assms(1)] send_temporary_eq [OF assms(2)] concat_others handled_none comp_def
  show ?thesis
    using assms(3) tmp [of _ "[sender]"] obj [of _ "[sender]"] obj
    by (cases "pt_of_code (payloadType msg)"; cases "the (pt_of_code (payloadType msg))"; cases echo)
      (auto simp: eqs simp del: pt_code.simps)
qed

subsection \<open>Deferred operations\<close>

text \<open>
  C30: a deferred send reads freed memory. However the socket library divides the sends of one received datagram into
  operations that it performs in the call and operations that it defers, the handler returns with the state that the
  receive loop has, and with exactly the sends of the receive loop that were not deferred on the wire; if it deferred none, these are all. For
  each of the others an operation for the same endpoint is left, and every one of them reads a buffer that has been freed.
\<close>
theorem deferred_sends_read_freed_memory:
  assumes "memory st obj = None" and "memory st tmp = None" and "obj \<noteq> tmp"
    and "RawUdpConnection_onReceived ver up echo self data n rc = (rc', out)"
  shows "\<exists>st' xs. onReceived_buffer at_once ver up echo obj tmp self data n rc st = Some (rc', st') \<and>
    memory st' = memory st \<and> wire st' = wire st @ sent_now at_once (calls_made st) out \<and>
    ((\<forall>i. at_once i) \<longrightarrow> wire st' = wire st @ out) \<and>
    pending_sends st' = pending_sends st @ xs \<and> map fst xs = map fst (sent_later at_once (calls_made st) out) \<and>
    (\<forall>x \<in> set xs. transmit x st' = None)"
proof (cases "RawUdpConnection_makePacket ver up data n")
  case None
  then show ?thesis
    using assms(4) by (simp add: RawUdpConnection_onReceived_def onReceived_buffer_def)
next
  case (Some p)
  let ?st = "st\<lparr>memory := (memory st)(obj \<mapsto> wholePacket p)\<rparr>"
  obtain calls where calls: "processClientMessagePayload ver up echo p self rc = (rc', calls)"
      "out = map (\<lambda>(c, msg). (remote_endpoint c, wholePacket msg)) calls"
    using assms(4) Some by (auto simp: RawUdpConnection_onReceived_def concat_sends split: prod.splits)
  obtain st1 where st1: "process_buffer at_once ver up echo obj p tmp self rc ?st = Some (rc', st1)"
      "handled at_once {obj, tmp} out ?st st1"
    using process_buffer_handled [of ?st obj p tmp, OF _ _ calls(1)] assms(2,3) calls(2) by auto
  then obtain xs where xs: "pending_sends st1 = pending_sends st @ xs"
      "map fst xs = map fst (sent_later at_once (calls_made st) out)" "\<forall>(ep, buf, len) \<in> set xs. buf \<in> {obj, tmp}"
    by (auto simp: handled_def)
  have all: "sent_now at_once k out = out" if "\<forall>i. at_once i" for k
  proof -
    from that have "at_once = (\<lambda>_. True)"
      by (simp add: fun_eq_iff)
    then show ?thesis
      by (simp only: sent_now_all)
  qed
  let ?st' = "st1\<lparr>memory := (memory st1)(obj := None)\<rparr>"
  have m: "memory ?st' = memory st" "wire st1 = wire st @ sent_now at_once (calls_made st) out"
    using st1(2) assms(1) by (simp_all add: handled_def fun_upd_idem)
  have "onReceived_buffer at_once ver up echo obj tmp self data n rc st = Some (rc', ?st')"
    using st1(1) Some by (simp add: onReceived_buffer_def)
  moreover have "transmit x ?st' = None" if "x \<in> set xs" for x
    using that xs(3) m(1) assms(1,2) by (cases x) (auto simp: transmit_def)
  ultimately show ?thesis
    using m xs(1,2) all by (intro exI [of _ ?st'] exI [of _ xs]) simp
qed

text \<open>Two members of the room, voice from the first: the send to the second is deferred.\<close>

theorem deferred_sends_read_freed_memory_witness:
  "let room = [\<lparr>caddr = 1, remote_endpoint = 11 :: nat\<rparr>, \<lparr>caddr = 2, remote_endpoint = 12\<rparr>];
       st = \<lparr>memory = Map.empty, pending_sends = [], wire = [], calls_made = 0\<rparr>
   in \<exists>st' x. onReceived_buffer (\<lambda>_. False) 0 0 False 5 6 (hd room) (wholePacket talk) (length (wholePacket talk)) (room, 0) st =
       Some ((room, 1), st') \<and> wire st' = [] \<and> pending_sends st' = [x] \<and> fst x = 12 \<and> transmit x st' = None"
proof -
  let ?room = "[\<lparr>caddr = 1, remote_endpoint = 11 :: nat\<rparr>, \<lparr>caddr = 2, remote_endpoint = 12\<rparr>]"
  let ?st = "\<lparr>memory = Map.empty, pending_sends = [], wire = [], calls_made = 0\<rparr>"
  have "announced (wholePacket talk) = length (wholePacket talk)"
    using talk_wf(1) by (simp only: packet_wf_def announced_def)
  then have "RawUdpConnection_makePacket 0 0 (wholePacket talk) (length (wholePacket talk)) = Some talk"
    using server_parser.complete [of "wholePacket talk" "length (wholePacket talk)" 0 0] by simp
  then have "RawUdpConnection_onReceived 0 0 False (hd ?room) (wholePacket talk) (length (wholePacket talk)) (?room, 0) =
      ((?room, 1), [(12, wholePacket talk)])"
    by (simp add: RawUdpConnection_onReceived_def processClientMessagePayload_def packet_simps del: pt_code.simps)
  from deferred_sends_read_freed_memory [OF _ _ _ this, of ?st 5 6 "\<lambda>_. False"] show ?thesis
    by (auto simp: Let_def)
qed

end
