(* ===== verification/Alsa.thy ===== *)
theory Alsa
  imports Volume_Meter Return_Type
begin

text \<open>
  The ALSA device (client_essential/Alsa.hpp): opening and configuring the two PCM handles and the
  loops that read and write one buffer. The ALSA library is outside the repository: what its calls
  return is an argument, one entry per call in the order of the calls. A buffer is the list of its
  bytes. A loop that still runs when the entries are used up has the value None.
\<close>

subsection \<open>Opening and configuring\<close>

definition channelsPerFrame :: nat where
  "channelsPerFrame = 1"

definition bitsPerChannel :: nat where
  "bitsPerChannel = 16"

definition bytesPerFrame :: nat where
  "bytesPerFrame = channelsPerFrame * bitsPerChannel div 8"

text \<open>The buffer size asked for, in frames: the block size is divided as if it counted bytes.\<close>

definition nFragments :: nat where
  "nFragments = 3"

definition requested_frames :: nat where
  "requested_frames = blockSize div bytesPerFrame * nFragments"

text \<open>A sequence of calls of which the first negative result is returned as an error message.\<close>

fun first_error :: "(string \<times> int) list \<Rightarrow> ReturnType" where
  "first_error [] = ReturnType_int 0"
| "first_error ((what, err) # calls) = (if err < 0 then ReturnType_str what else first_error calls)"

record pcm_config =
  cf_malloc :: int
  cf_any :: int
  cf_access :: int
  cf_format :: int
  cf_rate :: int
  cf_channels :: int
  cf_periods :: int
  cf_buffer :: int
  cf_params :: int

definition configureDevice :: "pcm_config \<Rightarrow> ReturnType" where
  "configureDevice c = first_error
     [(''snd_pcm_hw_params_malloc != 0'', cf_malloc c),
      (''snd_pcm_hw_params_any != 0'', cf_any c),
      (''snd_pcm_hw_params_set_access != 0'', cf_access c),
      (''snd_pcm_hw_params_set_format != 0'', cf_format c),
      (''snd_pcm_hw_params_set_rate_near != 0'', cf_rate c),
      (''snd_pcm_hw_params_set_channels != 0'', cf_channels c),
      (''snd_pcm_hw_params_set_periods_near != 0'', cf_periods c),
      (''snd_pcm_hw_params_set_buffer_size_near != 0'', cf_buffer c),
      (''snd_pcm_hw_params != 0'', cf_params c)]"

text \<open>The handles that are open, and the results of the calls of init.\<close>

record Alsa =
  handlerCapture :: bool
  handlerPlay :: bool

record alsa_env =
  openCapture :: int
  configCapture :: pcm_config
  openPlay :: int
  configPlay :: pcm_config

definition Alsa_new :: Alsa where
  "Alsa_new = \<lparr>handlerCapture = False, handlerPlay = False\<rparr>"

text \<open>The result, the device, and the names of microphone and speaker if they are set.\<close>

definition Alsa_init :: "alsa_env \<Rightarrow> Alsa \<Rightarrow> ReturnType \<times> Alsa \<times> (string \<times> string) option" where
  "Alsa_init env a =
     (if openCapture env < 0 then (ReturnType_str ''snd_pcm_open != 0'', a, None)
      else
        let a = a\<lparr>handlerCapture := True\<rparr>; retInput = configureDevice (configCapture env)
        in if \<not> ok retInput then (retInput, a, None)
           else if openPlay env < 0 then (ReturnType_str ''snd_pcm_open != 0'', a, None)
           else
             let a = a\<lparr>handlerPlay := True\<rparr>; retOutput = configureDevice (configPlay env)
             in if \<not> ok retOutput then (retOutput, a, None)
                else (ReturnType_int 0, a, Some (''default'', ''default'')))"

text \<open>The destructor closes the handles that are open; the result is what it closed.\<close>

datatype pcm_handle = Capture | Playback

definition Alsa_destroy :: "Alsa \<Rightarrow> pcm_handle list" where
  "Alsa_destroy a = (if handlerCapture a then [Capture] else []) @ (if handlerPlay a then [Playback] else [])"

subsection \<open>The transfer loops\<close>

definition EAGAIN :: int where "EAGAIN = 11"
definition EPIPE :: int where "EPIPE = 32"
definition ESTRPIPE :: int where "ESTRPIPE = 86"

text \<open>
  One round of a loop: the number that snd_pcm_readi or snd_pcm_writei returns, the bytes readi
  stored, and what snd_pcm_prepare and the calls of snd_pcm_resume return if they are made.
\<close>

record pcm_round =
  pr_count :: int
  pr_data :: "byte list"
  pr_prepare :: int
  pr_resume :: "int list"

fun resume_loop :: "int list \<Rightarrow> int option" where
  "resume_loop [] = None"
| "resume_loop (err # errs) = (if err = - EAGAIN then resume_loop errs else Some err)"

text \<open>What the chain of conditions makes of a result: go on, return -1, or still resume.\<close>

datatype recovery = GoOn | GiveUp | Resuming

definition recover :: "int \<Rightarrow> pcm_round \<Rightarrow> recovery" where
  "recover nFrames r =
     (let n = pr_count r in
      if n = - EAGAIN \<or> 0 \<le> n \<and> n < nFrames then GoOn
      else if n = - EPIPE then (if pr_prepare r < 0 then GiveUp else GoOn)
      else if n = - ESTRPIPE then
        (case resume_loop (pr_resume r) of
           None \<Rightarrow> Resuming
         | Some err \<Rightarrow> if err < 0 then (if pr_prepare r < 0 then GiveUp else GoOn) else GoOn)
      else if n < 0 then GiveUp
      else GoOn)"

fun read_loop :: "pcm_round list \<Rightarrow> int \<Rightarrow> nat \<Rightarrow> byte list \<Rightarrow> (ReturnType \<times> byte list) option" where
  "read_loop [] nFrames off buffer = (if nFrames > 0 then None else Some (ReturnType_int 0, buffer))"
| "read_loop (r # rs) nFrames off buffer =
     (if nFrames > 0 then
        let buffer = write_at off (pr_data r) buffer in
        (case recover nFrames r of
           GiveUp \<Rightarrow> Some (ReturnType_int (- 1), buffer)
         | Resuming \<Rightarrow> None
         | GoOn \<Rightarrow>
             if pr_count r > 0
             then read_loop rs (nFrames - pr_count r) (off + nat (pr_count r) * bytesPerFrame) buffer
             else read_loop rs nFrames off buffer)
      else Some (ReturnType_int 0, buffer))"

definition Alsa_read :: "pcm_round list \<Rightarrow> byte list \<Rightarrow> (ReturnType \<times> byte list) option" where
  "Alsa_read rs buffer = read_loop rs (int (length buffer div bytesPerFrame)) 0 buffer"

text \<open>Writing: the bytes that the library took out of the buffer, call by call.\<close>

fun write_loop :: "pcm_round list \<Rightarrow> int \<Rightarrow> nat \<Rightarrow> byte list \<Rightarrow> (ReturnType \<times> byte list list) option" where
  "write_loop [] nFrames off buffer = (if nFrames > 0 then None else Some (ReturnType_int 0, []))"
| "write_loop (r # rs) nFrames off buffer =
     (if nFrames > 0 then
        (case recover nFrames r of
           GiveUp \<Rightarrow> Some (ReturnType_int (- 1), [])
         | Resuming \<Rightarrow> None
         | GoOn \<Rightarrow>
             if pr_count r > 0
             then map_option
               (\<lambda>(ret, out). (ret, take (nat (pr_count r) * bytesPerFrame) (drop off buffer) # out))
               (write_loop rs (nFrames - pr_count r) (off + nat (pr_count r) * bytesPerFrame) buffer)
             else write_loop rs nFrames off buffer)
      else Some (ReturnType_int 0, []))"

definition Alsa_write :: "pcm_round list \<Rightarrow> Alsa \<Rightarrow> byte list \<Rightarrow> (ReturnType \<times> byte list list) option" where
  "Alsa_write rs a buffer =
     (if \<not> handlerPlay a then Some (ReturnType_int (- 1), [])
      else write_loop rs (int (length buffer div bytesPerFrame)) 0 buffer)"

subsection \<open>What the loops transfer\<close>

text \<open>The documented contract: no more frames than asked for, and as many bytes as the count says.\<close>

fun rounds_ok :: "pcm_round list \<Rightarrow> int \<Rightarrow> bool" where
  "rounds_ok [] n = True"
| "rounds_ok (r # rs) n \<longleftrightarrow>
     pr_count r \<le> n \<and> length (pr_data r) = nat (pr_count r) * bytesPerFrame \<and>
     rounds_ok rs (n - max 0 (pr_count r))"

definition stored :: "pcm_round list \<Rightarrow> byte list" where
  "stored rs = concat (map pr_data rs)"

definition frames_of :: "pcm_round list \<Rightarrow> int" where
  "frames_of rs = sum_list (map (\<lambda>r. max 0 (pr_count r)) rs)"

lemma bytesPerFrame_2: "bytesPerFrame = 2"
  by (simp add: bytesPerFrame_def channelsPerFrame_def bitsPerChannel_def)

lemma recover_GiveUp: "recover n r = GiveUp \<Longrightarrow> pr_count r < 0"
  by (auto simp: recover_def EPIPE_def ESTRPIPE_def Let_def split: if_splits option.splits)

lemma stored_Cons [simp]: "stored (r # rs) = pr_data r @ stored rs" "stored [] = []"
  by (simp_all add: stored_def)

lemma frames_of_Cons [simp]: "frames_of (r # rs) = max 0 (pr_count r) + frames_of rs" "frames_of [] = 0"
  by (simp_all add: frames_of_def)

lemma frames_of_nonneg: "0 \<le> frames_of rs"
  by (induction rs) simp_all

lemma write_at_nil [simp]: "write_at off [] xs = xs"
  by (simp add: write_at_def)

text \<open>One round that goes on moves the offset and the remaining count by what it transferred.\<close>

lemma read_loop_step:
  "n > 0 \<Longrightarrow> length (pr_data r) = nat (pr_count r) * bytesPerFrame \<Longrightarrow>
   read_loop (r # rs) n off buffer =
     (case recover n r of
        GiveUp \<Rightarrow> Some (ReturnType_int (- 1), buffer)
      | Resuming \<Rightarrow> None
      | GoOn \<Rightarrow> read_loop rs (n - max 0 (pr_count r)) (off + length (pr_data r)) (write_at off (pr_data r) buffer)) \<or>
   recover n r = Resuming"
  using recover_GiveUp [of n r] by (cases "recover n r"; cases "pr_count r > 0") auto

lemma read_loop_stores:
  assumes "read_loop rs n off buffer = Some (ret, buffer')" and "rounds_ok rs n"
    and "0 \<le> n" and "length buffer = off + 2 * nat n"
  shows "\<exists>k. buffer' = take off buffer @ stored (take k rs) @ drop (off + length (stored (take k rs))) buffer \<and>
    length (stored (take k rs)) = 2 * nat (frames_of (take k rs)) \<and> frames_of (take k rs) \<le> n \<and>
    (ok ret \<longleftrightarrow> frames_of (take k rs) = n)"
  using assms
proof (induction rs arbitrary: n off buffer)
  case Nil
  then show ?case
    by (intro exI [of _ 0]) (auto split: if_splits)
next
  case (Cons r rs)
  let ?c = "max 0 (pr_count r)" and ?d = "pr_data r"
  have len: "length ?d = nat (pr_count r) * bytesPerFrame" and cn: "pr_count r \<le> n" and ok: "rounds_ok rs (n - ?c)"
    using Cons.prems(2) by simp_all
  show ?case
  proof (cases "n > 0")
    case False
    then show ?thesis
      using Cons.prems by (intro exI [of _ 0]) auto
  next
    case True
    note step = read_loop_step [OF True len, of rs off buffer]
    show ?thesis
    proof (cases "recover n r")
      case GiveUp
      then have "?d = []" "pr_count r < 0"
        using recover_GiveUp [OF GiveUp] len by simp_all
      then show ?thesis
        using Cons.prems(1) step GiveUp True by (intro exI [of _ 1]) auto
    next
      case Resuming
      then show ?thesis
        using Cons.prems(1) True by simp
    next
      case GoOn
      let ?b = "write_at off ?d buffer"
      have d2: "length ?d = 2 * nat ?c"
        using len by (simp add: bytesPerFrame_2 max_def)
      have b: "take (off + length ?d) ?b = take off buffer @ ?d" "drop (off + length ?d + j) ?b = drop (off + length ?d + j) buffer"
          "length ?b = off + length ?d + 2 * nat (n - ?c)" for j
        using Cons.prems(4) d2 cn True by (auto simp: write_at_def ac_simps)
      have l: "read_loop rs (n - ?c) (off + length ?d) ?b = Some (ret, buffer')"
        using Cons.prems(1) step GoOn by simp
      obtain k where k: "buffer' = take (off + length ?d) ?b @ stored (take k rs) @
            drop (off + length ?d + length (stored (take k rs))) ?b"
          "length (stored (take k rs)) = 2 * nat (frames_of (take k rs))" "frames_of (take k rs) \<le> n - ?c"
          "ok ret \<longleftrightarrow> frames_of (take k rs) = n - ?c"
        using Cons.IH [OF l ok _ b(3)] cn True by auto
      have "buffer' = take off buffer @ stored (take (Suc k) (r # rs)) @
          drop (off + length (stored (take (Suc k) (r # rs)))) buffer"
        unfolding k(1) b by (simp add: add.assoc)
      moreover have "length (stored (take (Suc k) (r # rs))) = 2 * nat (frames_of (take (Suc k) (r # rs)))"
        using k(2) d2 frames_of_nonneg [of "take k rs"] by (simp add: nat_add_distrib)
      ultimately show ?thesis
        using k(3,4) by (intro exI [of _ "Suc k"]) auto
    qed
  qed
qed

text \<open>A loop whose rounds all bring something returns, at the latest after as many rounds as frames.\<close>

lemma read_loop_returns:
  "rounds_ok rs n \<Longrightarrow> (\<And>r. r \<in> set rs \<Longrightarrow> 1 \<le> pr_count r) \<Longrightarrow> n \<le> int (length rs) \<Longrightarrow> 0 \<le> n \<Longrightarrow>
   \<exists>buffer'. read_loop rs n off buffer = Some (ReturnType_int 0, buffer')"
proof (induction rs arbitrary: n off buffer)
  case (Cons r rs)
  have "0 < pr_count r" "pr_count r \<le> n" "rounds_ok rs (n - pr_count r)"
    using Cons.prems(1) Cons.prems(2) [of r] by (simp_all add: max_def split: if_splits)
  moreover from this have "recover n r = GoOn"
    by (auto simp: recover_def EAGAIN_def EPIPE_def ESTRPIPE_def Let_def)
  ultimately show ?case
    using Cons.prems(2-4) Cons.IH [of "n - pr_count r"] by (auto simp: Let_def)
qed auto

lemma write_loop_plays:
  assumes "write_loop rs n off buffer = Some (ret, out)" and "rounds_ok rs n"
    and "0 \<le> n" and "length buffer = off + 2 * nat n"
  shows "(\<exists>j. concat out = take j (drop off buffer)) \<and> (ok ret \<longleftrightarrow> concat out = drop off buffer)"
  using assms
proof (induction rs arbitrary: n off out)
  case Nil
  then show ?case
    by (auto split: if_splits)
next
  case (Cons r rs)
  let ?w = "nat (pr_count r) * bytesPerFrame"
  show ?case
  proof (cases "n > 0 \<and> recover n r = GoOn \<and> pr_count r > 0")
    case False
    then show ?thesis
      using Cons.prems Cons.IH [of n off out] by (cases "recover n r") (auto split: if_splits)
  next
    case True
    then obtain out1 where o: "write_loop rs (n - pr_count r) (off + ?w) buffer = Some (ret, out1)"
        "out = take ?w (drop off buffer) # out1"
      using Cons.prems(1) by auto
    have b: "rounds_ok rs (n - pr_count r)" "pr_count r \<le> n" "length buffer = off + ?w + 2 * nat (n - pr_count r)"
      using Cons.prems(2,4) True by (auto simp: max_def bytesPerFrame_2)
    obtain j where j: "concat out1 = take j (drop (off + ?w) buffer)" "ok ret \<longleftrightarrow> concat out1 = drop (off + ?w) buffer"
      using Cons.IH [OF o(1) b(1) _ b(3)] b(2) by auto
    have "concat out = take (?w + j) (drop off buffer)"
      by (subst take_add) (simp add: o(2) j(1) add.commute)
    moreover have "concat out = drop off buffer \<longleftrightarrow> concat out1 = drop (off + ?w) buffer"
      using append_take_drop_id [of ?w "drop off buffer"] by (metis add.commute concat.simps(2) drop_drop o(2) same_append_eq)
    ultimately show ?thesis
      using j(2) by blast
  qed
qed

lemma write_loop_returns:
  "rounds_ok rs n \<Longrightarrow> (\<And>r. r \<in> set rs \<Longrightarrow> 1 \<le> pr_count r) \<Longrightarrow> n \<le> int (length rs) \<Longrightarrow> 0 \<le> n \<Longrightarrow>
   \<exists>out. write_loop rs n off buffer = Some (ReturnType_int 0, out)"
proof (induction rs arbitrary: n off)
  case (Cons r rs)
  have "0 < pr_count r" "pr_count r \<le> n" "rounds_ok rs (n - pr_count r)"
    using Cons.prems(1) Cons.prems(2) [of r] by (simp_all add: max_def split: if_splits)
  moreover from this have "recover n r = GoOn"
    by (auto simp: recover_def EAGAIN_def EPIPE_def ESTRPIPE_def Let_def)
  ultimately show ?case
    using Cons.prems(2-4) Cons.IH [of "n - pr_count r" "off + nat (pr_count r) * bytesPerFrame"] by auto
qed auto

subsection \<open>Properties of the device\<close>

text \<open>
  C39: whole buffers are read and written. For every sequence of results of a library that never transfers more
  than it was asked for, with interruptions, overruns and suspensions in between: a
  read that succeeds has replaced the whole buffer by the bytes of its calls, in order; a write
  that succeeds has handed over each byte of the buffer once, in order; one that fails has moved less
  than the buffer. Both return if every call moves a frame.
\<close>
theorem alsa_moves_whole_buffers:
  assumes "even (length buffer)" and "rounds_ok rs (int (length buffer div 2))"
  shows "(\<forall>ret buffer'. Alsa_read rs buffer = Some (ret, buffer') \<longrightarrow>
      (\<exists>k. let got = stored (take k rs) in
        buffer' = got @ drop (length got) buffer \<and> (ok ret \<longleftrightarrow> length got = length buffer) \<and> length got \<le> length buffer)) \<and>
    (\<forall>ret out. handlerPlay a \<and> Alsa_write rs a buffer = Some (ret, out) \<longrightarrow>
      (\<exists>j. concat out = take j buffer) \<and> (ok ret \<longleftrightarrow> concat out = buffer)) \<and>
    ((\<forall>r \<in> set rs. 1 \<le> pr_count r) \<and> length buffer div 2 \<le> length rs \<longrightarrow>
      Alsa_read rs buffer \<noteq> None \<and> Alsa_write rs a buffer \<noteq> None)"
proof (intro conjI allI impI)
  let ?n = "int (length buffer div 2)"
  have len: "length buffer = 0 + 2 * nat ?n"
    using assms(1) by simp
  fix ret buffer'
  assume "Alsa_read rs buffer = Some (ret, buffer')"
  then have "read_loop rs ?n 0 buffer = Some (ret, buffer')"
    by (simp add: Alsa_read_def bytesPerFrame_2)
  from read_loop_stores [OF this assms(2) _ len] obtain k where k:
    "buffer' = stored (take k rs) @ drop (length (stored (take k rs))) buffer"
    "length (stored (take k rs)) = 2 * nat (frames_of (take k rs))" "frames_of (take k rs) \<le> ?n"
    "ok ret \<longleftrightarrow> frames_of (take k rs) = ?n"
    by auto
  have "ok ret \<longleftrightarrow> length (stored (take k rs)) = length buffer" "length (stored (take k rs)) \<le> length buffer"
    using k(2,3) k(4) len frames_of_nonneg [of "take k rs"] by auto
  with k(1) show "\<exists>k. let got = stored (take k rs) in
      buffer' = got @ drop (length got) buffer \<and> (ok ret \<longleftrightarrow> length got = length buffer) \<and> length got \<le> length buffer"
    by (auto simp: Let_def)
next
  fix ret out
  assume "handlerPlay a \<and> Alsa_write rs a buffer = Some (ret, out)"
  then have "write_loop rs (int (length buffer div 2)) 0 buffer = Some (ret, out)"
    by (auto simp: Alsa_write_def bytesPerFrame_2)
  from write_loop_plays [OF this assms(2)] assms(1)
  show "\<exists>j. concat out = take j buffer" "ok ret \<longleftrightarrow> concat out = buffer"
    by auto
next
  assume "(\<forall>r \<in> set rs. 1 \<le> pr_count r) \<and> length buffer div 2 \<le> length rs"
  then show "Alsa_read rs buffer \<noteq> None" "Alsa_write rs a buffer \<noteq> None"
    using read_loop_returns [OF assms(2), of 0 buffer] write_loop_returns [OF assms(2), of 0 buffer]
    by (auto simp: Alsa_read_def Alsa_write_def bytesPerFrame_2)
qed

theorem alsa_moves_whole_buffers_witness:
  "Alsa_read
     [\<lparr>pr_count = 1, pr_data = [1, 2], pr_prepare = 0, pr_resume = []\<rparr>,
      \<lparr>pr_count = - EPIPE, pr_data = [], pr_prepare = 0, pr_resume = []\<rparr>,
      \<lparr>pr_count = 1, pr_data = [3, 4], pr_prepare = 0, pr_resume = []\<rparr>] [0, 0, 0, 0] =
   Some (ReturnType_int 0, [1, 2, 3, 4])"
proof -
  let ?rs = "[\<lparr>pr_count = 1, pr_data = [1, 2], pr_prepare = 0, pr_resume = []\<rparr>,
      \<lparr>pr_count = - EPIPE, pr_data = [], pr_prepare = 0, pr_resume = []\<rparr>,
      \<lparr>pr_count = 1, pr_data = [3, 4], pr_prepare = 0, pr_resume = []\<rparr>]"
  have "\<exists>k. let got = stored (take k ?rs) in [1, 2, 3, 4] = got @ drop (length got) [0, 0, 0, 0] \<and>
      (ok (ReturnType_int 0) \<longleftrightarrow> length got = length [0 :: byte, 0, 0, 0]) \<and> length got \<le> length [0 :: byte, 0, 0, 0]"
    if "Alsa_read ?rs [0, 0, 0, 0] = Some (ReturnType_int 0, [1, 2, 3, 4])"
    using alsa_moves_whole_buffers [of "[0, 0, 0, 0]" ?rs Alsa_new] that
    by (simp add: bytesPerFrame_2 EPIPE_def)
  then show ?thesis
    by (simp add: Alsa_read_def bytesPerFrame_2 recover_def EAGAIN_def EPIPE_def ESTRPIPE_def write_at_def Let_def)
qed

end
