(* ===== verification/Unit_Tests.thy ===== *)
theory Unit_Tests
  imports Alsa Codec
begin

text \<open>
  The loop-back programs of the unit tests that fit the present code: tests/unit_tests/AlsaLoopback.cpp and Opus.cpp.
\<close>

subsection \<open>Microphone to speaker\<close>

text \<open>
  One entry of the list holds the library results of one round, for the read and for the write. The result is what was played,
  block by block, and the exit code; None when the loop still runs.
\<close>

type_synonym alsa_turn = "pcm_round list \<times> pcm_round list"

abbreviation micBuffer :: "byte list" where
  "micBuffer \<equiv> replicate (2 * blockSize) 0"

fun loopback :: "Alsa \<Rightarrow> alsa_turn list \<Rightarrow> byte list list \<times> int option" where
  "loopback device [] = ([], None)"
| "loopback device ((reading, writing) # turns) =
     (case Alsa_read reading micBuffer of
        None \<Rightarrow> ([], None)
      | Some (retRead, block) \<Rightarrow>
          if ok retRead then
            (case Alsa_write writing device block of
               None \<Rightarrow> ([], None)
             | Some (retWrite, bytes) \<Rightarrow>
                 if \<not> ok retWrite then ([concat bytes], Some (- 1))
                 else let (rest, code) = loopback device turns in (concat bytes # rest, code))
          else loopback device turns)"

definition AlsaLoopback_main :: "alsa_env \<Rightarrow> alsa_turn list \<Rightarrow> byte list list \<times> int option" where
  "AlsaLoopback_main env turns =
     (let (ret, device, names) = Alsa_init env Alsa_new
      in if ok ret then loopback device turns else ([], Some 0))"

text \<open>The rounds that read a whole block, and what the library stored in them.\<close>

definition whole_read :: "alsa_turn \<Rightarrow> bool" where
  "whole_read t \<longleftrightarrow> (case Alsa_read (fst t) micBuffer of None \<Rightarrow> False | Some (ret, block) \<Rightarrow> ok ret)"

definition turn_ok :: "alsa_turn \<Rightarrow> bool" where
  "turn_ok t \<longleftrightarrow> rounds_ok (fst t) (int blockSize) \<and> rounds_ok (snd t) (int blockSize)"

lemma Alsa_read_block:
  assumes "rounds_ok rs (int blockSize)" and "Alsa_read rs micBuffer = Some (ret, block)" and "ok ret"
  shows "block = take (2 * blockSize) (stored rs)" and "length block = 2 * blockSize"
proof -
  have "read_loop rs (int blockSize) 0 micBuffer = Some (ret, block)"
    using assms(2) by (simp add: Alsa_read_def bytesPerFrame_2)
  from read_loop_stores [OF this assms(1)] assms(3) obtain k where k:
    "block = stored (take k rs)" "length (stored (take k rs)) = 2 * blockSize"
    by auto
  have "stored rs = stored (take k rs) @ stored (drop k rs)"
    by (simp add: stored_def flip: concat_append map_append)
  with k show "block = take (2 * blockSize) (stored rs)" "length block = 2 * blockSize"
    by simp_all
qed

lemma Alsa_write_block:
  assumes "rounds_ok rs (int blockSize)" and "length block = 2 * blockSize" and "handlerPlay device"
    and "Alsa_write rs device block = Some (ret, bytes)"
  shows "\<exists>j. concat bytes = take j block" and "ok ret \<Longrightarrow> concat bytes = block"
proof -
  have "write_loop rs (int blockSize) 0 block = Some (ret, bytes)"
    using assms(2-4) by (simp add: Alsa_write_def bytesPerFrame_2)
  from write_loop_plays [OF this assms(1)] assms(2)
  show "\<exists>j. concat bytes = take j block" "ok ret \<Longrightarrow> concat bytes = block"
    by auto
qed

text \<open>
  What is played is what was read, block after block, without the blocks whose read failed, and cut where a
  write fails or does not return.
\<close>

lemma loopback_plays:
  assumes "handlerPlay device" and "\<forall>t \<in> set turns. turn_ok t"
  shows "\<exists>rest. concat (fst (loopback device turns)) @ rest =
    concat (map (\<lambda>t. take (2 * blockSize) (stored (fst t))) (filter whole_read turns))"
  using assms(2)
proof (induction turns)
  case Nil
  then show ?case
    by simp
next
  case (Cons t turns)
  obtain reading writing where t: "t = (reading, writing)"
    by (metis surj_pair)
  have r: "rounds_ok reading (int blockSize)" "rounds_ok writing (int blockSize)"
    using Cons.prems by (simp_all add: t turn_ok_def)
  obtain rest where IH: "concat (fst (loopback device turns)) @ rest =
      concat (map (\<lambda>t. take (2 * blockSize) (stored (fst t))) (filter whole_read turns))"
    using Cons.IH Cons.prems by auto
  show ?case
  proof (cases "whole_read t")
    case False
    show ?thesis
    proof (cases "Alsa_read reading micBuffer")
      case None
      then show ?thesis
        by (simp add: t)
    next
      case (Some x)
      then have "\<not> ok (fst x)"
        using False by (auto simp: t whole_read_def)
      then show ?thesis
        using IH False Some by (auto simp: t split: prod.splits)
    qed
  next
    case True
    then obtain ret block where b: "Alsa_read reading micBuffer = Some (ret, block)" "ok ret"
      by (auto simp: t whole_read_def split: option.splits)
    note block = Alsa_read_block [OF r(1) b]
    show ?thesis
    proof (cases "Alsa_write writing device block")
      case None
      then show ?thesis
        using b by (simp add: t)
    next
      case (Some x)
      obtain retWrite bytes where x: "x = (retWrite, bytes)"
        by (metis surj_pair)
      obtain j where "concat bytes = take j block"
        using Alsa_write_block(1) [OF r(2) block(2) assms(1) Some [unfolded x]] by blast
      then have "\<exists>rest. concat bytes @ rest = block @ xs" for xs
        by (metis append.assoc append_take_drop_id)
      moreover have "ok retWrite \<Longrightarrow> concat bytes = block"
        using Alsa_write_block(2) [OF r(2) block(2) assms(1) Some [unfolded x]] .
      ultimately show ?thesis
        using b Some x IH True block(1) by (cases "ok retWrite") (auto simp: t split: prod.split)
    qed
  qed
qed

text \<open>A device that does not open leaves nothing played and still ends with success.\<close>

lemma AlsaLoopback_main_fails:
  "\<not> ok (fst (Alsa_init env Alsa_new)) \<Longrightarrow> AlsaLoopback_main env turns = ([], Some 0)"
  by (simp add: AlsaLoopback_main_def case_prod_beta Let_def)

subsection \<open>The codec\<close>

text \<open>compare prints the mean and the deviation of the differences; doubles are reals.\<close>

definition diffList :: "PcmSegment \<Rightarrow> PcmSegment \<Rightarrow> real list" where
  "diffList orig rcv = map2 (\<lambda>x y. of_int (sint x - sint y) / 2 ^ 15) orig rcv"

definition compare_mean :: "real list \<Rightarrow> real" where
  "compare_mean ds = sum_list ds / of_nat (length ds)"

definition compare_stdev :: "real list \<Rightarrow> real" where
  "compare_stdev ds =
     sqrt (sum_list (map (\<lambda>d. (d - compare_mean ds) * (d - compare_mean ds)) ds) / of_nat (length ds - 1))"

definition opus_compare :: "PcmSegment \<Rightarrow> PcmSegment \<Rightarrow> ReturnType \<times> (real \<times> real) option" where
  "opus_compare orig rcv =
     (if length orig \<noteq> length rcv then (ReturnType_int (- 1), None)
      else let ds = diffList orig rcv in (ReturnType_int 0, Some (compare_mean ds, compare_stdev ds)))"

text \<open>The program on some random samples; None when a step before the comparison fails. It ends with 0 in any case.\<close>

definition Opus_main ::
    "('d, 'e) opus_ops \<Rightarrow> 'd OpusDec \<Rightarrow> 'e OpusEnc \<Rightarrow> PcmSegment \<Rightarrow>
     fault + (ReturnType \<times> (real \<times> real) option) option" where
  "Opus_main lib dec enc origPcm =
     (let (ret, dec) = OpusDec_reInit lib dec in
      if \<not> ok ret then Inr None
      else let (ret, enc) = OpusEnc_reInit lib enc in
        if \<not> ok ret then Inr None
        else (case OpusEnc_encode lib origPcm [] enc of
          Inl e \<Rightarrow> Inl e
        | Inr (ret, opusData, enc) \<Rightarrow>
            if \<not> ok ret then Inr None
            else (case OpusDec_decode lib opusData [] dec of
              Inl e \<Rightarrow> Inl e
            | Inr (ret2, decodedData, dec) \<Rightarrow>
                Inr (if ok ret2 then Some (opus_compare origPcm decodedData) else None))))"

text \<open>For two or more samples both numbers are zero exactly if nothing was lost.\<close>

lemma sum_list_squares_0: "sum_list (map (\<lambda>d. (d - m) * (d - m)) ds) = 0 \<longleftrightarrow> (\<forall>d \<in> set ds. d = (m :: real))"
  by (subst sum_list_nonneg_eq_0_iff) auto

lemma diffList_0:
  "length orig = length rcv \<Longrightarrow> (\<forall>d \<in> set (diffList orig rcv). d = 0) \<longleftrightarrow> orig = rcv"
proof (induction orig rcv rule: list_induct2)
  case Nil
  then show ?case
    by (simp add: diffList_def)
next
  case (Cons x xs y ys)
  have "of_int (sint x - sint y) / 2 ^ 15 = (0 :: real) \<longleftrightarrow> x = y"
    by (auto simp del: of_int_diff intro: signed_word_eqI)
  with Cons show ?case
    by (simp add: diffList_def)
qed

lemma opus_compare_lossless:
  assumes "2 \<le> length orig"
  shows "opus_compare orig rcv = (ReturnType_int 0, Some (0, 0)) \<longleftrightarrow> orig = rcv"
proof (cases "length orig = length rcv")
  case False
  then show ?thesis
    by (auto simp: opus_compare_def)
next
  case True
  let ?ds = "diffList orig rcv"
  have l: "length ?ds = length orig"
    using True by (simp add: diffList_def)
  have z: "sum_list ?ds = 0" if "\<forall>d \<in> set ?ds. d = 0"
    using that by (metis map_idI map_replicate_const sum_list_0 map_cong)
  have "compare_mean ?ds = 0 \<and> compare_stdev ?ds = 0 \<longleftrightarrow> (\<forall>d \<in> set ?ds. d = 0)"
  proof
    assume m: "compare_mean ?ds = 0 \<and> compare_stdev ?ds = 0"
    then have "compare_mean ?ds = 0" "compare_stdev ?ds = 0"
      by simp_all
    then have "sqrt (sum_list (map (\<lambda>d. (d - 0) * (d - 0)) ?ds) / of_nat (length ?ds - 1)) = 0"
      by (simp only: compare_stdev_def)
    then have "sum_list (map (\<lambda>d. (d - 0) * (d - 0)) ?ds) = 0"
      using assms l by (simp only: real_sqrt_eq_zero_cancel_iff divide_eq_0_iff of_nat_eq_0_iff) simp
    then show "\<forall>d \<in> set ?ds. d = 0"
      by (simp only: sum_list_squares_0)
  next
    assume d: "\<forall>d \<in> set ?ds. d = 0"
    then have m: "compare_mean ?ds = 0"
      using z by (simp add: compare_mean_def)
    with d have "sum_list (map (\<lambda>d. (d - compare_mean ?ds) * (d - compare_mean ?ds)) ?ds) = 0"
      by (simp only: sum_list_squares_0)
    with m show "compare_mean ?ds = 0 \<and> compare_stdev ?ds = 0"
      by (simp add: compare_stdev_def)
  qed
  then show ?thesis
    using True by (simp add: opus_compare_def Let_def diffList_0)
qed

text \<open>
  With a library that keeps its contract the program faults only if the library hands out no codec without
  reporting an error; else the comparison, if it is reached, is with what the decoder made of the encoded packet.
\<close>

lemma Opus_main_compares:
  assumes "opus_contract lib" and "opus_decoder_create lib sampleRate 1 = (Some d, 0)"
    and "opus_encoder_create lib sampleRate 1 = (Some e, 0)"
    and "opus_encode lib e orig (length orig) MAX_PACKET_SIZE = (n, bs, e')"
    and "opus_decode lib d (take (nat n) bs) MAX_FRAME_SIZE = (k, pcm, d')"
  shows "Opus_main lib dec enc orig =
    Inr (if n < 0 \<or> k < 0 then None else Some (opus_compare orig (take (nat k) pcm)))"
proof -
  have "OpusDec_reInit lib dec = (ReturnType_int 0, dec\<lparr>decoder := Some d, dec_err := 0\<rparr>)"
    and "OpusEnc_reInit lib enc = (ReturnType_int 0, enc\<lparr>encoder := Some e, enc_err := 0\<rparr>)"
    using assms(2,3) by (simp_all add: OpusDec_reInit_def OpusEnc_reInit_def)
  then show ?thesis
    using OpusEnc_encode_eq(1) [OF assms(1) _ assms(4), of "enc\<lparr>encoder := Some e, enc_err := 0\<rparr>" "[]"]
      OpusDec_decode_eq [OF assms(1) _ assms(5), of "dec\<lparr>decoder := Some d, dec_err := 0\<rparr>" "[]"]
    by (simp add: Opus_main_def)
qed

end
