(* ===== verification/Server_Main.thy ===== *)
theory Server_Main
  imports Raw_Udp_Server Concealment
begin

text \<open>
  The entry point of the server (server/Server.cpp) and the echo server of the sanity checks
  (server/UdpServer.hpp). The arguments are the list argv. What the process does is a list of
  actions in order, and its exit code.
\<close>

subsection \<open>Reading a number\<close>

definition is_digit :: "char \<Rightarrow> bool" where
  "is_digit c \<longleftrightarrow> 48 \<le> (of_char c :: nat) \<and> (of_char c :: nat) \<le> 57"

text \<open>The result of atoi is undefined when the number does not fit into an int.\<close>

definition atoi :: "string \<Rightarrow> int option" where
  "atoi s =
     (let t = dropWhile is_space s;
          negative = (t \<noteq> [] \<and> hd t = CHR ''-'');
          t = (if t \<noteq> [] \<and> hd t \<in> {CHR ''-'', CHR ''+''} then tl t else t);
          n = int (digits_value 0 (takeWhile is_digit t));
          i = (if negative then - n else n)
      in if - (2 ^ 31) \<le> i \<and> i < 2 ^ 31 then Some i else None)"

subsection \<open>The entry point\<close>

datatype server_action =
    PrintUsage
  | ListenUdp u16 bool
  | ListenTcp u16 bool
  | LogUnknownProtocol string

text \<open>
  The constructor of the UDP server takes a short, the one of the TCP server an int; the endpoint
  takes an unsigned short. A constructor that throws is caught by the handler: bind says
  whether the port can be bound.
\<close>

definition udp_port :: "int \<Rightarrow> u16" where
  "udp_port port = (let p = of_int port :: i16 in ucast p)"

definition tcp_port :: "int \<Rightarrow> u16" where
  "tcp_port port = of_int port"

definition echo_argument :: "string \<Rightarrow> bool option" where
  "echo_argument a = (if a = ''broadcast'' then Some False else if a = ''echo'' then Some True else None)"

definition server_main :: "(u16 \<Rightarrow> bool) \<Rightarrow> string list \<Rightarrow> fault + server_action list \<times> int" where
  "server_main bind argv =
     (let argc = length argv in
      if argc \<noteq> 2 \<and> argc \<noteq> 3 then Inr ([PrintUsage], - 1)
      else
        (case (if argc = 3 then echo_argument (argv ! 2) else Some False) of
           None \<Rightarrow> Inr ([PrintUsage], - 1)
         | Some echo \<Rightarrow>
             (case atoi (argv ! 1) of
                None \<Rightarrow> Inl BadConversion
              | Some port \<Rightarrow>
                  if bind (udp_port port) then Inr ([ListenUdp (udp_port port) echo], 0)
                  else Inr ([], 0))))"

text \<open>The entry point of an earlier version, which chooses the protocol; nothing calls it.\<close>

definition server_main_old :: "(u16 \<Rightarrow> bool) \<Rightarrow> string list \<Rightarrow> fault + server_action list \<times> int" where
  "server_main_old bind argv =
     (if length argv \<noteq> 4 then Inr ([PrintUsage], - 1)
      else
        (case echo_argument (argv ! 3) of
           None \<Rightarrow> Inr ([PrintUsage], - 1)
         | Some echo \<Rightarrow>
             (case atoi (argv ! 2) of
                None \<Rightarrow> Inl BadConversion
              | Some port \<Rightarrow>
                  if argv ! 1 = ''raw_udp'' then
                    Inr (if bind (udp_port port) then [ListenUdp (udp_port port) echo] else [], 0)
                  else if argv ! 1 = ''raw_tcp'' then
                    Inr (if bind (tcp_port port) then [ListenTcp (tcp_port port) echo] else [], 0)
                  else Inr ([LogUnknownProtocol (argv ! 1)], 0))))"

definition usage_lines :: "string list" where
  "usage_lines = [''Usage: EvcServer <port>'', ''   or: EvcServer <port> <broadcast/echo>'']"

subsection \<open>The echo server\<close>

record 'ep UdpServer =
  us_data :: "byte list"
  us_sender :: "'ep option"
  us_lastEndpoint :: "'ep option"

datatype 'ep udp_op = ReceiveFrom | SendTo 'ep "byte list"

text \<open>
  The completion of a receive and that of a send, with the operation each starts; the flag says
  whether the log notes another sender. The static holds the first sender ever.
\<close>

definition UdpServer_received ::
    "bool \<Rightarrow> 'ep \<Rightarrow> byte list \<Rightarrow> 'ep UdpServer \<Rightarrow> 'ep UdpServer \<times> bool \<times> 'ep udp_op" where
  "UdpServer_received ec from datagram s =
     (let got = take max_length datagram;
          s = s\<lparr>us_data := write_at 0 got (us_data s), us_sender := Some from\<rparr>
      in if \<not> ec \<and> 0 < length got then
           let last_ep = (case us_lastEndpoint s of Some e \<Rightarrow> e | None \<Rightarrow> from);
               s = s\<lparr>us_lastEndpoint := Some last_ep\<rparr>
           in (s, last_ep \<noteq> from, SendTo from (take (length got) (us_data s)))
         else (s, False, ReceiveFrom))"

definition UdpServer_sent :: "'ep UdpServer \<Rightarrow> 'ep UdpServer \<times> 'ep udp_op" where
  "UdpServer_sent s = (s, ReceiveFrom)"

definition UdpServer_new :: "byte list \<Rightarrow> 'ep UdpServer \<times> 'ep udp_op" where
  "UdpServer_new uninitialised =
     (\<lparr>us_data = uninitialised, us_sender = None, us_lastEndpoint = None\<rparr>, ReceiveFrom)"

lemma UdpServer_echoes:
  assumes "length (us_data s) = max_length" and "datagram \<noteq> []"
  shows "\<exists>s' b. UdpServer_received False from datagram s = (s', b, SendTo from (take max_length datagram)) \<and>
    length (us_data s') = max_length"
  using assms by (simp add: UdpServer_received_def Let_def write_at_0 max_length_def min_def)

subsection \<open>Properties of the entry point\<close>

lemma is_digit_char_of: "k < 10 \<Longrightarrow> is_digit (char_of (48 + k :: nat))"
  by (simp add: is_digit_def)

lemma nat_to_string_digits: "c \<in> set (nat_to_string n) \<Longrightarrow> is_digit c"
proof (induction n rule: nat_to_string.induct)
  case (1 n)
  then show ?case
    by (subst (asm) (2) nat_to_string.simps) (auto split: if_splits simp: is_digit_char_of)
qed

lemma digit_no_sign: "is_digit c \<Longrightarrow> \<not> is_space c \<and> c \<noteq> CHR ''-'' \<and> c \<noteq> CHR ''+''"
  by (auto simp: is_digit_def is_space_def)

lemma atoi_nat_to_string:
  assumes "n < 2 ^ 31"
  shows "atoi (nat_to_string n) = Some (int n)"
proof -
  obtain c cs where c: "nat_to_string n = c # cs"
    by (cases "nat_to_string n") simp_all
  have d: "is_digit c" "\<forall>x \<in> set (nat_to_string n). is_digit x"
    using nat_to_string_digits [of _ n] by (simp_all add: c)
  have t: "takeWhile is_digit (nat_to_string n) = nat_to_string n"
    using d(2) by (simp add: takeWhile_eq_all_conv)
  have s: "dropWhile is_space (nat_to_string n) = nat_to_string n"
    using digit_no_sign [OF d(1)] by (simp add: c)
  have "hd (nat_to_string n) \<noteq> CHR ''-''" "hd (nat_to_string n) \<noteq> CHR ''+''"
    using digit_no_sign [OF d(1)] by (simp_all add: c)
  then show ?thesis
    using assms by (simp add: atoi_def Let_def s t digits_value_nat_to_string)
qed

text \<open>
  The server listens where its argument says. For every number n that fits an int, the command
  line with the decimal digits of n starts the UDP server on port n modulo 2^16, on n itself below
  65536 although the constructor takes a short; a third argument broadcast or echo chooses the
  mode and any other one prints the usage, as does any other number of arguments.
\<close>
lemma server_listens_on_port:
  assumes "n < 2 ^ 31" and "bind (of_nat n)"
  shows "server_main bind [prog, nat_to_string n] = Inr ([ListenUdp (of_nat n) False], 0) \<and>
    server_main bind [prog, nat_to_string n, mode] =
      (case echo_argument mode of
         Some echo \<Rightarrow> Inr ([ListenUdp (of_nat n) echo], 0)
       | None \<Rightarrow> Inr ([PrintUsage], - 1)) \<and>
    (n < 65536 \<longrightarrow> unat (of_nat n :: u16) = n) \<and>
    (\<forall>argv. length argv \<notin> {2, 3} \<longrightarrow> server_main bind argv = Inr ([PrintUsage], - 1))"
proof -
  have p: "udp_port (int n) = of_nat n"
    by (simp add: udp_port_def Let_def)
  show ?thesis
    using assms by (auto simp: server_main_def atoi_nat_to_string p unat_of_nat split: option.split)
qed

lemma server_listens_on_port_witness:
  "server_main (\<lambda>_. True) [''EvcServer'', nat_to_string 40000, ''echo''] = Inr ([ListenUdp 40000 True], 0)"
  using server_listens_on_port [of 40000 "\<lambda>_. True" "''EvcServer''" "''echo''"]
  by (simp add: echo_argument_def)

end
