(* ===== verification/Framing.thy ===== *)
theory Framing
  imports Net_Packet
begin

text \<open>
  The two interfaces that the TCP session of the server (server/TcpServer.hpp) and the TCP client
  (client_essential/TcpClient.hpp) both implement on their socket: a reader that alternates between a read
  of the fixed header and a read of the payload the header announces, and a writer with a queue of
  packets of which the front one is being written.
\<close>

subsection \<open>Reading frames from a stream\<close>

text \<open>
  async_read completes when exactly the requested number of bytes has arrived, however the network
  cut the stream. on_header and on_payload are what the completion handlers make of the
  message buffer; frames gives the buffer each time the payload is complete, and the bytes that
  are left when the stream ends.
\<close>

locale framed_reader =
  fixes on_header :: "byte list \<Rightarrow> NetPacket \<Rightarrow> NetPacket"
    and wanted :: "NetPacket \<Rightarrow> nat"
    and on_payload :: "byte list \<Rightarrow> NetPacket \<Rightarrow> NetPacket"
  assumes header_read: "length h = 20 \<Longrightarrow> 20 \<le> length (wholePacket m) \<Longrightarrow>
      take 20 (wholePacket (on_header h m)) = h \<and> length (wholePacket (on_header h m)) = announced h"
    and wanted: "wanted m = length (wholePacket m) - 20"
    and payload_read: "20 \<le> length (wholePacket m) \<Longrightarrow> length pl = length (wholePacket m) - 20 \<Longrightarrow>
      wholePacket (on_payload pl m) = take 20 (wholePacket m) @ pl"
begin

function frames :: "NetPacket \<Rightarrow> byte list \<Rightarrow> NetPacket list \<times> byte list" where
  "frames m bs =
     (if length bs < 20 then ([], bs)
      else
        let m = on_header (take 20 bs) m; n = wanted m in
        if length bs - 20 < n then ([], bs)
        else
          let m = on_payload (take n (drop 20 bs)) m; (ps, rest) = frames m (drop (20 + n) bs)
          in (m # ps, rest))"
  by pat_completeness auto

termination
  by (relation "measure (\<lambda>(m, bs). length bs)") auto

lemmas frames_simps = frames.simps [simp del]

lemma announced_20: "20 \<le> announced bs"
  by (simp add: announced_def)

lemma frames_first:
  assumes "20 \<le> length (wholePacket m)" and "20 \<le> length bs"
  shows "frames m bs =
    (if length bs < announced bs then ([], bs)
     else let p = \<lparr>wholePacket = take (announced bs) bs\<rparr>;
              (ps, rest) = frames p (drop (announced bs) bs)
          in (p # ps, rest))"
proof -
  let ?m = "on_header (take 20 bs) m"
  have h: "take 20 (wholePacket ?m) = take 20 bs" "length (wholePacket ?m) = announced bs"
    using header_read [of "take 20 bs" m] assms announced_take [of 20 bs] by simp_all
  have w: "wanted ?m = announced bs - 20"
    by (simp add: wanted h(2))
  show ?thesis
  proof (cases "length bs < announced bs")
    case True
    then have "length bs - 20 < announced bs - 20"
      using assms(2) by linarith
    then show ?thesis
      using True assms(2) by (simp add: frames_simps [of m bs] w Let_def)
  next
    case False
    have "wholePacket (on_payload (take (announced bs - 20) (drop 20 bs)) ?m) = take (announced bs) bs"
      using payload_read [of ?m "take (announced bs - 20) (drop 20 bs)"] h False announced_20 [of bs]
      by (simp add: take_add [symmetric])
    then have "on_payload (take (announced bs - 20) (drop 20 bs)) ?m = \<lparr>wholePacket = take (announced bs) bs\<rparr>"
      by simp
    moreover have "\<not> length bs - 20 < announced bs - 20"
      using False by linarith
    ultimately show ?thesis
      using False assms(2) announced_20 [of bs] by (simp add: frames_simps [of m bs] w Let_def)
  qed
qed

text \<open>Nothing is lost, duplicated or reordered, and every frame is a well-formed packet.\<close>

lemma frames_partition:
  assumes "20 \<le> length (wholePacket m)" and "frames m bs = (ps, rest)"
  shows "concat (map wholePacket ps) @ rest = bs \<and> (\<forall>p \<in> set ps. packet_wf p)"
  using assms
proof (induction "length bs" arbitrary: m bs ps rule: less_induct)
  case less
  show ?case
  proof (cases "length bs < 20")
    case True
    then show ?thesis
      using less.prems(2) by (simp add: frames_simps [of m bs])
  next
    case False
    let ?p = "\<lparr>wholePacket = take (announced bs) bs\<rparr>"
    have a: "20 \<le> announced bs"
      by (rule announced_20)
    show ?thesis
    proof (cases "length bs < announced bs")
      case True
      then show ?thesis
        using less.prems False by (simp add: frames_first)
    next
      case enough: False
      obtain qs where q: "frames ?p (drop (announced bs) bs) = (qs, rest)" "ps = ?p # qs"
        using less.prems False enough by (auto simp: frames_first Let_def split: prod.splits)
      have "concat (map wholePacket qs) @ rest = drop (announced bs) bs \<and> (\<forall>p \<in> set qs. packet_wf p)"
        using a enough False by (intro less.hyps [OF _ _ q(1)]) auto
      moreover have "packet_wf ?p"
        using a enough by (simp add: announced_wf announced_take)
      ultimately show ?thesis
        by (simp add: q(2))
    qed
  qed
qed

lemma frames_packets:
  assumes "20 \<le> length (wholePacket m)" and "\<forall>p \<in> set ps. packet_wf p" and "length rest < 20"
  shows "frames m (concat (map wholePacket ps) @ rest) = (ps, rest)"
  using assms(1,2)
proof (induction ps arbitrary: m)
  case Nil
  then show ?case
    using assms(3) by (simp add: frames_simps [of m rest])
next
  case (Cons p ps)
  let ?bs = "wholePacket p @ concat (map wholePacket ps) @ rest"
  have wf: "length (wholePacket p) = announced (wholePacket p)"
    using Cons.prems(2) by (simp add: announced_wf)
  then have l: "20 \<le> length (wholePacket p)"
    using announced_20 [of "wholePacket p"] by simp
  have a: "announced ?bs = length (wholePacket p)"
    using l wf by (simp add: announced_def rd16_append)
  have "frames p (concat (map wholePacket ps) @ rest) = (ps, rest)"
    using Cons.IH [OF l] Cons.prems(2) by simp
  moreover obtain w where "p = \<lparr>wholePacket = w\<rparr>"
    by (cases p) simp
  ultimately show ?case
    using frames_first [OF Cons.prems(1), of ?bs] l a by (simp add: Let_def)
qed

end

text \<open>What the two reads leave in the message buffer: the header sizes the packet, the payload fills it.\<close>

lemma header_filled:
  assumes "length bs = FixHeaderLength" and "FixHeaderLength \<le> length (wholePacket m)"
  shows "packet_wf (snd (checkHeader (m\<lparr>wholePacket := write_at 0 bs (wholePacket m)\<rparr>)))"
  using assms by (intro checkHeader_header(1)) (simp add: FixHeaderLength_20)

lemma payload_filled:
  assumes "packet_wf m" and "length bs = payloadLength m"
  shows "packet_wf (m\<lparr>wholePacket := write_at FixHeaderLength bs (wholePacket m)\<rparr>)"
proof -
  have "20 + length bs = length (wholePacket m)"
    using assms by (simp add: packet_wf_def payloadLength_def FixHeaderLength_20)
  then show ?thesis
    using assms(1) by (simp add: FixHeaderLength_20 packet_wf_def write_at_def rd16_append rd16_take_header)
qed

lemma packet_wf_header: "packet_wf p \<Longrightarrow> FixHeaderLength \<le> length (wholePacket p)"
  by (simp add: packet_wf_def FixHeaderLength_20)

subsection \<open>Writing packets in order\<close>

text \<open>
  deliver queues a packet and starts a write when none is in progress; written is the completion
  of the write of the front packet. Both give the bytes of the write they start, if any.
\<close>

datatype writer_call = Deliver NetPacket | Written

fun writer_delivered :: "writer_call list \<Rightarrow> NetPacket list" where
  "writer_delivered [] = []"
| "writer_delivered (Deliver m # calls) = m # writer_delivered calls"
| "writer_delivered (Written # calls) = writer_delivered calls"

definition writer_completions :: "writer_call list \<Rightarrow> nat" where
  "writer_completions calls = length (filter (\<lambda>c. c = Written) calls)"

locale write_queue =
  fixes deliver :: "NetPacket \<Rightarrow> NetPacket list \<Rightarrow> NetPacket list \<times> byte list option"
    and written :: "NetPacket list \<Rightarrow> NetPacket list \<times> byte list option"
  assumes deliver: "deliver msg q = (q @ [msg], if q = [] then Some (wholePacket msg) else None)"
    and written: "written (m # q) = (q, if q = [] then None else Some (wholePacket (hd q)))"
begin

text \<open>A completion can only happen while a write is in progress, that is with a queued packet.\<close>

fun run :: "writer_call list \<Rightarrow> NetPacket list \<Rightarrow> (NetPacket list \<times> byte list list) option" where
  "run [] q = Some (q, [])"
| "run (Deliver m # calls) q =
     (let (q1, w) = deliver m q in
      map_option (\<lambda>(q2, ws). (q2, (case w of Some b \<Rightarrow> b # ws | None \<Rightarrow> ws))) (run calls q1))"
| "run (Written # calls) q =
     (if q = [] then None
      else
        let (q1, w) = written q in
        map_option (\<lambda>(q2, ws). (q2, (case w of Some b \<Rightarrow> b # ws | None \<Rightarrow> ws))) (run calls q1))"

text \<open>The writes started are the packets in order; one is in progress while the queue is not empty.\<close>

lemma run_writes:
  assumes "run calls q = Some (q', ws)"
  shows "writer_completions calls \<le> length (q @ writer_delivered calls) \<and>
    q' = drop (writer_completions calls) (q @ writer_delivered calls) \<and>
    (if q = [] then [] else [wholePacket (hd q)]) @ ws =
      map wholePacket (take (writer_completions calls + (if q' = [] then 0 else 1)) (q @ writer_delivered calls))"
  using assms
proof (induction calls q arbitrary: q' ws rule: run.induct)
  case (1 q)
  then show ?case
    by (cases q) (auto simp: writer_completions_def)
next
  case (2 m calls q)
  obtain q1 w where d: "deliver m q = (q1, w)" by fastforce
  then have q1: "q1 = q @ [m]" "w = (if q = [] then Some (wholePacket m) else None)"
    by (simp_all add: deliver)
  obtain ws1 where r: "run calls q1 = Some (q', ws1)"
      "ws = (case w of Some b \<Rightarrow> b # ws1 | None \<Rightarrow> ws1)"
    using 2(2) by (auto simp: d)
  show ?case
    using 2(1) [OF d [symmetric] refl r(1)] r(2) by (cases q) (auto simp: q1 writer_completions_def)
next
  case (3 calls q)
  then obtain m q1 where q: "q = m # q1"
    by (cases q) auto
  let ?w = "if q1 = [] then None else Some (wholePacket (hd q1))"
  have w: "written q = (q1, ?w)"
    by (simp add: q written)
  obtain ws1 where r: "run calls q1 = Some (q', ws1)" "ws = (case ?w of Some b \<Rightarrow> b # ws1 | None \<Rightarrow> ws1)"
    using 3(2) by (auto simp: q written)
  have "q \<noteq> []"
    by (simp add: q)
  show ?case
    using 3(1) [OF \<open>q \<noteq> []\<close> w [symmetric] refl r(1)] r(2)
    by (cases q1) (auto simp: q writer_completions_def)
qed

end

end
