(* ===== verification/Tcp_Server.thy ===== *)
theory Tcp_Server
  imports Relay Framing "HOL-Library.Multiset"
begin

text \<open>
  The TCP server: the room (server/Room.hpp) and the sessions and the acceptor
  (server/TcpServer.hpp).

  A session is named by the address of its object; the room is the std::set of these addresses in
  iteration order. An asynchronous call of the socket library is a pending operation of its
  session, and its completion is an event with an error flag and the bytes read. Asking a
  socket that is no longer connected for its remote endpoint throws: the exception leaves
  the event loop and main returns, so it is the fault RemoteEndpointThrows of the whole server.
\<close>

datatype tcp_fault = RemoteEndpointThrows

subsection \<open>The room\<close>

definition Room_join :: "nat \<Rightarrow> nat list \<Rightarrow> ReturnType \<times> nat list" where
  "Room_join participant participants =
     (if length participants \<ge> 2 then (ReturnType_str ''participants_.count()>2'', participants)
      else (ReturnType_int 0, set_insert id participant participants))"

definition Room_leave :: "nat \<Rightarrow> nat list \<Rightarrow> nat list" where
  "Room_leave participant participants = set_erase id participant participants"

text \<open>The dispatch of a message: the new room and counter and the calls of deliver in order.\<close>

definition Room_dispatch ::
    "u32 \<Rightarrow> u32 \<Rightarrow> bool \<Rightarrow> NetPacket \<Rightarrow> nat \<Rightarrow> nat list \<times> u32 \<Rightarrow> (nat list \<times> u32) \<times> nat calls" where
  "Room_dispatch ver up echo msg sender st =
     (case st of (participants, counter) \<Rightarrow>
       let media =
         ((participants, counter + 1),
          if echo then [(sender, msg)]
          else concat (map (\<lambda>participant.
                 if participant = sender then [] else [(participant, msg)]) participants))
       in case pt_of_code (payloadType msg) of
         Some HeartBeatRequest \<Rightarrow>
           ((participants, counter), [(sender, NetPacket_new ver up (pt_code HeartBeatResponse) 0)])
       | Some TextMessage \<Rightarrow> media
       | Some AudioMessage \<Rightarrow> media
       | Some AudioMessage_CN \<Rightarrow> media
       | Some LoginRequest \<Rightarrow>
           ((participants, counter), [(sender, NetPacket_new ver up (pt_code LoginResponse) 0)])
       | Some LogoutRequest \<Rightarrow> ((Room_leave sender participants, counter), [])
       | _ \<Rightarrow> ((participants, counter), []))"

text \<open>After the dispatch the room prints the endpoint of the sender for all but most media messages.\<close>

definition Room_traces :: "NetPacket \<Rightarrow> u32 \<Rightarrow> bool" where
  "Room_traces msg counter \<longleftrightarrow> \<not> isMediaType msg \<or> unat counter mod 100 = 0"

interpretation tcp_room: relay_room id Room_dispatch
proof unfold_locales
  fix msg :: NetPacket and ver up c :: u32 and echo sender ms
  show "pt_of_code (payloadType msg) \<notin>
        Some ` {HeartBeatRequest, LoginRequest, LogoutRequest, TextMessage, AudioMessage, AudioMessage_CN} \<Longrightarrow>
      Room_dispatch ver up echo msg sender (ms, c) = ((ms, c), [])"
    by (cases "pt_of_code (payloadType msg)"; cases "the (pt_of_code (payloadType msg))")
      (simp_all add: Room_dispatch_def)
qed (auto simp: Room_dispatch_def Room_leave_def isMediaType_iff concat_map_if)

subsection \<open>Sessions and their pending operations\<close>

record TcpSession =
  read_msg :: NetPacket
  write_msgs :: "NetPacket list"

datatype io_op =
    AsyncReadHeader
  | AsyncReadPayload nat
  | AsyncWrite "byte list"
  | AsyncAccept

record TcpServer =
  sessions :: "nat \<Rightarrow> TcpSession option"
  participants :: "nat list"
  tcp_counter :: u32
  tcp_echo :: bool

text \<open>The operations a handler starts, with the session they belong to.\<close>

type_synonym io_ops = "(nat \<times> io_op) list"

definition TcpSession_new :: "u32 \<Rightarrow> u32 \<Rightarrow> TcpSession" where
  "TcpSession_new ver up =
     \<lparr>read_msg = NetPacket_new ver up (pt_code Undefined) 0, write_msgs = []\<rparr>"

definition TcpSession_write :: "NetPacket list \<Rightarrow> byte list" where
  "TcpSession_write q = take (wholePackLength (hd q)) (header (hd q))"

definition TcpSession_deliver :: "NetPacket \<Rightarrow> NetPacket list \<Rightarrow> NetPacket list \<times> byte list option" where
  "TcpSession_deliver msg q =
     (let write_in_progress = (q \<noteq> []);
          q = q @ [msg]
      in if \<not> write_in_progress then (q, Some (TcpSession_write q)) else (q, None))"

text \<open>The completion handler of write without an error.\<close>

definition TcpSession_written :: "NetPacket list \<Rightarrow> NetPacket list \<times> byte list option" where
  "TcpSession_written q =
     (let q = tl q in if q \<noteq> [] then (q, Some (TcpSession_write q)) else (q, None))"

interpretation session_writer: write_queue TcpSession_deliver TcpSession_written
  by unfold_locales
    (auto simp: TcpSession_deliver_def TcpSession_written_def TcpSession_write_def header_def
      wholePackLength_def)

text \<open>The bytes of a completed read in the message buffer.\<close>

definition TcpSession_headerRead :: "byte list \<Rightarrow> NetPacket \<Rightarrow> NetPacket" where
  "TcpSession_headerRead bs msg =
     snd (checkHeader (msg\<lparr>wholePacket := write_at 0 bs (wholePacket msg)\<rparr>))"

definition TcpSession_payloadRead :: "byte list \<Rightarrow> NetPacket \<Rightarrow> NetPacket" where
  "TcpSession_payloadRead bs msg = msg\<lparr>wholePacket := write_at FixHeaderLength bs (wholePacket msg)\<rparr>"

lemma checkHeader_written:
  assumes "length bs = 20" and "20 \<le> length (wholePacket m)"
  shows "take 20 (wholePacket (snd (checkHeader (m\<lparr>wholePacket := write_at 0 bs (wholePacket m)\<rparr>)))) = bs"
    and "length (wholePacket (snd (checkHeader (m\<lparr>wholePacket := write_at 0 bs (wholePacket m)\<rparr>)))) = announced bs"
  using assms checkHeader_header(2,3) [of "m\<lparr>wholePacket := write_at 0 bs (wholePacket m)\<rparr>"]
  by (simp_all add: write_at_0 announced_def rd16_append)

interpretation session_reader: framed_reader TcpSession_headerRead payloadLength TcpSession_payloadRead
proof (unfold_locales, goal_cases)
  case (1 h m)
  then show ?case
    by (simp add: TcpSession_headerRead_def checkHeader_written)
qed (auto simp: payloadLength_def FixHeaderLength_20 TcpSession_payloadRead_def write_at_def)

subsection \<open>The handlers\<close>

definition put_session :: "nat \<Rightarrow> TcpSession \<Rightarrow> TcpServer \<Rightarrow> TcpServer" where
  "put_session a x s = s\<lparr>sessions := (sessions s)(a := Some x)\<rparr>"

definition deliver_to :: "nat \<times> NetPacket \<Rightarrow> TcpServer \<times> io_ops \<Rightarrow> TcpServer \<times> io_ops" where
  "deliver_to call st =
     (case (call, st) of ((a, msg), (s, ops)) \<Rightarrow>
       case sessions s a of
         None \<Rightarrow> (s, ops)
       | Some x \<Rightarrow>
           let (q, w) = TcpSession_deliver msg (write_msgs x)
           in (put_session a (x\<lparr>write_msgs := q\<rparr>) s,
               ops @ (case w of Some bs \<Rightarrow> [(a, AsyncWrite bs)] | None \<Rightarrow> [])))"

definition Room_processClientMessagePayload ::
    "u32 \<Rightarrow> u32 \<Rightarrow> bool \<Rightarrow> NetPacket \<Rightarrow> nat \<Rightarrow> TcpServer \<Rightarrow> tcp_fault + TcpServer \<times> io_ops" where
  "Room_processClientMessagePayload ver up alive msg sender s =
     (let ((room, counter), calls) =
            Room_dispatch ver up (tcp_echo s) msg sender (participants s, tcp_counter s);
          s = s\<lparr>participants := room, tcp_counter := counter\<rparr>;
          (s, ops) = fold deliver_to calls (s, [])
      in if Room_traces msg counter \<and> \<not> alive then Inl RemoteEndpointThrows else Inr (s, ops))"

definition TcpSession_start ::
    "bool \<Rightarrow> nat \<Rightarrow> TcpServer \<Rightarrow> tcp_fault + ReturnType \<times> TcpServer \<times> io_ops" where
  "TcpSession_start alive a s =
     (let (ret, room) = Room_join a (participants s);
          s = s\<lparr>participants := room\<rparr>
      in if \<not> ok ret then Inr (ret, s, [])
         else if \<not> alive then Inl RemoteEndpointThrows
         else Inr (ReturnType_int 0, s, [(a, AsyncReadHeader)]))"

definition TcpSession_onHeader ::
    "bool \<Rightarrow> byte list \<Rightarrow> nat \<Rightarrow> TcpSession \<Rightarrow> TcpServer \<Rightarrow> TcpServer \<times> io_ops" where
  "TcpSession_onHeader ec bs a x s =
     (if \<not> ec then
        let (valid, m) = checkHeader ((read_msg x)\<lparr>wholePacket := write_at 0 bs (wholePacket (read_msg x))\<rparr>);
            s = put_session a (x\<lparr>read_msg := m\<rparr>) s
        in if valid then (s, [(a, AsyncReadPayload (payloadLength m))])
           else (s\<lparr>participants := Room_leave a (participants s)\<rparr>, [])
      else (s\<lparr>participants := Room_leave a (participants s)\<rparr>, []))"

text \<open>The check of the header never fails.\<close>

lemma TcpSession_onHeader_eq:
  "TcpSession_onHeader ec bs a x s =
     (if \<not> ec then
        let m = TcpSession_headerRead bs (read_msg x)
        in (put_session a (x\<lparr>read_msg := m\<rparr>) s, [(a, AsyncReadPayload (payloadLength m))])
      else (s\<lparr>participants := Room_leave a (participants s)\<rparr>, []))"
  by (simp add: TcpSession_onHeader_def TcpSession_headerRead_def checkHeader_def Let_def)

definition TcpSession_onPayload ::
    "u32 \<Rightarrow> u32 \<Rightarrow> bool \<Rightarrow> bool \<Rightarrow> byte list \<Rightarrow> nat \<Rightarrow> TcpSession \<Rightarrow> TcpServer \<Rightarrow>
     tcp_fault + TcpServer \<times> io_ops" where
  "TcpSession_onPayload ver up alive ec bs a x s =
     (if \<not> ec then
        let m = TcpSession_payloadRead bs (read_msg x) in
        case Room_processClientMessagePayload ver up alive m a (put_session a (x\<lparr>read_msg := m\<rparr>) s) of
          Inl e \<Rightarrow> Inl e
        | Inr (s, ops) \<Rightarrow> Inr (s, ops @ [(a, AsyncReadHeader)])
      else Inr (s\<lparr>participants := Room_leave a (participants s)\<rparr>, []))"

definition TcpSession_onWritten ::
    "bool \<Rightarrow> nat \<Rightarrow> TcpSession \<Rightarrow> TcpServer \<Rightarrow> TcpServer \<times> io_ops" where
  "TcpSession_onWritten ec a x s =
     (if \<not> ec then
        let (q, w) = TcpSession_written (write_msgs x)
        in (put_session a (x\<lparr>write_msgs := q\<rparr>) s,
            case w of Some bs \<Rightarrow> [(a, AsyncWrite bs)] | None \<Rightarrow> [])
      else (s\<lparr>participants := Room_leave a (participants s)\<rparr>, []))"

text \<open>
  The acceptor: a session that the room refuses has no pending operation and no owner, so its
  object is destroyed at once.
\<close>

definition TcpServer_doAccept ::
    "u32 \<Rightarrow> u32 \<Rightarrow> bool \<Rightarrow> bool \<Rightarrow> nat \<Rightarrow> TcpServer \<Rightarrow> tcp_fault + TcpServer \<times> io_ops" where
  "TcpServer_doAccept ver up alive errorCode a s =
     (if \<not> errorCode then
        case TcpSession_start alive a (put_session a (TcpSession_new ver up) s) of
          Inl e \<Rightarrow> Inl e
        | Inr (ret, s, ops) \<Rightarrow>
            Inr (if ok ret then s else s\<lparr>sessions := (sessions s)(a := None)\<rparr>,
                 ops @ [(0, AsyncAccept)])
      else Inr (s, [(0, AsyncAccept)]))"

definition TcpServer_new :: "bool \<Rightarrow> TcpServer \<times> io_ops" where
  "TcpServer_new echo =
     (\<lparr>sessions = (\<lambda>_. None), participants = [], tcp_counter = 0, tcp_echo = echo\<rparr>, [(0, AsyncAccept)])"

subsection \<open>Steps\<close>

text \<open>
  A step completes one pending operation; which one, with which error flag and at which clock
  reading, is open. The operations that its handler starts join the pending ones.
\<close>

type_synonym tcp_state = "TcpServer \<times> (nat \<times> io_op) multiset"

inductive tcp_step :: "u32 \<Rightarrow> tcp_state \<Rightarrow> tcp_state \<Rightarrow> bool" for ver where
  accept: "sessions s a = None \<Longrightarrow> TcpServer_doAccept ver up alive ec a s = Inr (s', ops) \<Longrightarrow>
     tcp_step ver (s, add_mset (0, AsyncAccept) P) (s', P + mset ops)"
| header: "sessions s a = Some x \<Longrightarrow> ec \<or> length bs = FixHeaderLength \<Longrightarrow>
     TcpSession_onHeader ec bs a x s = (s', ops) \<Longrightarrow>
     tcp_step ver (s, add_mset (a, AsyncReadHeader) P) (s', P + mset ops)"
| payload: "sessions s a = Some x \<Longrightarrow> ec \<or> length bs = n \<Longrightarrow>
     TcpSession_onPayload ver up alive ec bs a x s = Inr (s', ops) \<Longrightarrow>
     tcp_step ver (s, add_mset (a, AsyncReadPayload n) P) (s', P + mset ops)"
| written: "sessions s a = Some x \<Longrightarrow> TcpSession_onWritten ec a x s = (s', ops) \<Longrightarrow>
     tcp_step ver (s, add_mset (a, AsyncWrite bs) P) (s', P + mset ops)"

inductive tcp_reachable :: "u32 \<Rightarrow> bool \<Rightarrow> tcp_state \<Rightarrow> bool" for ver echo where
  start: "tcp_reachable ver echo (fst (TcpServer_new echo), mset (snd (TcpServer_new echo)))"
| step: "tcp_reachable ver echo st \<Longrightarrow> tcp_step ver st st' \<Longrightarrow> tcp_reachable ver echo st'"

subsection \<open>The invariant\<close>

fun is_write :: "io_op \<Rightarrow> bool" where
  "is_write (AsyncWrite bs) = True"
| "is_write _ = False"

definition writes_of :: "nat \<Rightarrow> (nat \<times> io_op) multiset \<Rightarrow> (nat \<times> io_op) multiset" where
  "writes_of a P = filter_mset (\<lambda>(b, op). b = a \<and> is_write op) P"

definition writer_inv :: "TcpServer \<Rightarrow> (nat \<times> io_op) multiset \<Rightarrow> bool" where
  "writer_inv s P \<longleftrightarrow>
     (\<forall>a. size (writes_of a P) \<le> 1) \<and>
     (\<forall>a bs. (a, AsyncWrite bs) \<in># P \<longrightarrow>
       (\<exists>x. sessions s a = Some x \<and> write_msgs x \<noteq> [] \<and> bs = wholePacket (hd (write_msgs x))))"

definition tcp_room_inv :: "TcpServer \<Rightarrow> bool" where
  "tcp_room_inv s \<longleftrightarrow> ascending id (participants s) \<and> length (participants s) \<le> 2"

lemma writes_of_simps [simp]:
  "writes_of a (P + Q) = writes_of a P + writes_of a Q"
  "writes_of a {#} = {#}"
  "writes_of a (add_mset (b, op) P) = (if b = a \<and> is_write op then add_mset (b, op) (writes_of a P) else writes_of a P)"
  by (simp_all add: writes_of_def)

lemma size_writes_add: "size (writes_of a P) \<le> size (writes_of a (add_mset x P))"
  by (cases x) simp

lemma writer_inv_sub:
  "writer_inv s (add_mset x P) \<Longrightarrow> writer_inv s P"
proof -
  assume inv: "writer_inv s (add_mset x P)"
  have "size (writes_of a P) \<le> 1" for a
    using inv size_writes_add [of a P x] unfolding writer_inv_def by (meson le_trans)
  then show "writer_inv s P"
    using inv unfolding writer_inv_def by simp
qed

lemma no_write_pending:
  assumes "writer_inv s P" and "\<And>x. sessions s a = Some x \<Longrightarrow> write_msgs x = []"
  shows "writes_of a P = {#}"
proof (rule ccontr)
  assume "writes_of a P \<noteq> {#}"
  then obtain b op where "(b, op) \<in># writes_of a P"
    by (metis multiset_nonemptyE surj_pair)
  then obtain bs where "(a, AsyncWrite bs) \<in># P"
    by (cases op) (auto simp: writes_of_def)
  then show False
    using assms unfolding writer_inv_def by blast
qed

text \<open>Operations that write nothing and handlers that keep the queues do not matter.\<close>

lemma writer_inv_other_op:
  "writer_inv s P \<Longrightarrow> \<not> is_write op \<Longrightarrow> writer_inv s (add_mset (b, op) P)"
  by (auto simp: writer_inv_def)

lemma writer_inv_keeps_front:
  assumes "writer_inv s P"
    and "\<And>a x. sessions s a = Some x \<Longrightarrow> write_msgs x \<noteq> [] \<Longrightarrow>
      \<exists>y. sessions s' a = Some y \<and> write_msgs y \<noteq> [] \<and> hd (write_msgs y) = hd (write_msgs x)"
  shows "writer_inv s' P"
  using assms unfolding writer_inv_def by metis

lemma deliver_to_inv:
  assumes "writer_inv s (P + mset ops)" and "deliver_to c (s, ops) = (s', ops')"
  shows "writer_inv s' (P + mset ops') \<and> participants s' = participants s"
proof -
  obtain a msg where c: "c = (a, msg)"
    by fastforce
  show ?thesis
  proof (cases "sessions s a")
    case None
    then show ?thesis
      using assms by (simp add: deliver_to_def c)
  next
    case (Some x)
    show ?thesis
    proof (cases "write_msgs x = []")
      case True
      then have n: "writes_of a (P + mset ops) = {#}"
        using no_write_pending [OF assms(1), of a] Some by simp
      have s': "s' = put_session a (x\<lparr>write_msgs := [msg]\<rparr>) s" "ops' = ops @ [(a, AsyncWrite (wholePacket msg))]"
        using assms(2) Some True
        by (auto simp: deliver_to_def c session_writer.deliver)
      have other: "b \<noteq> a" if "(b, AsyncWrite bs) \<in># P + mset ops" for b bs
      proof
        assume "b = a"
        with that have "(b, AsyncWrite bs) \<in># writes_of a (P + mset ops)"
          unfolding writes_of_def set_mset_filter by simp
        then show False
          using n by simp
      qed
      show ?thesis
        using assms(1) n other unfolding s' writer_inv_def put_session_def by auto
    next
      case False
      then have s': "s' = put_session a (x\<lparr>write_msgs := write_msgs x @ [msg]\<rparr>) s" "ops' = ops"
        using assms(2) Some by (auto simp: deliver_to_def c session_writer.deliver)
      show ?thesis
        using False Some unfolding s'
        by (auto simp: put_session_def intro!: writer_inv_keeps_front [OF assms(1)])
    qed
  qed
qed

lemma deliver_all_inv:
  assumes "writer_inv s (P + mset ops)" and "fold deliver_to calls (s, ops) = (s', ops')"
  shows "writer_inv s' (P + mset ops') \<and> participants s' = participants s"
  using assms
proof (induction calls arbitrary: s ops)
  case (Cons c calls)
  obtain s1 ops1 where d: "deliver_to c (s, ops) = (s1, ops1)"
    by fastforce
  then show ?case
    using deliver_to_inv [OF Cons.prems(1) d] Cons.IH [of s1 ops1] Cons.prems(2) by simp
qed simp

lemma tcp_room_inv_join:
  assumes "tcp_room_inv s" and "Room_join a (participants s) = (ret, room)"
  shows "tcp_room_inv (s\<lparr>participants := room\<rparr>)"
proof (cases "length (participants s) \<ge> 2")
  case False
  then have "length (set_insert id a (participants s)) \<le> 2"
    using length_set_insert_le [of id a "participants s"] by linarith
  then show ?thesis
    using assms False ascending_set_insert [of id "participants s" a]
    by (auto simp: tcp_room_inv_def Room_join_def split: if_splits)
qed (use assms in \<open>simp add: tcp_room_inv_def Room_join_def\<close>)

lemma tcp_room_inv_leave:
  assumes "tcp_room_inv s"
  shows "tcp_room_inv (s\<lparr>participants := Room_leave a (participants s)\<rparr>)"
  using assms ascending_set_erase [of id "participants s" a] length_set_erase_le [of id a "participants s"]
  by (auto simp: tcp_room_inv_def Room_leave_def)

lemma writer_inv_participants [simp]: "writer_inv (s\<lparr>participants := r\<rparr>) P = writer_inv s P"
  "writer_inv (s\<lparr>tcp_counter := n\<rparr>) P = writer_inv s P"
  by (simp_all add: writer_inv_def)

lemma tcp_room_inv_put [simp]:
  "tcp_room_inv (put_session a x s) = tcp_room_inv s" "tcp_room_inv (s\<lparr>sessions := f\<rparr>) = tcp_room_inv s"
  by (simp_all add: tcp_room_inv_def put_session_def)

lemma Room_process_inv:
  assumes "writer_inv s P" and "tcp_room_inv s"
    and "Room_processClientMessagePayload ver up alive msg a s = Inr (s', ops)"
  shows "writer_inv s' (P + mset ops) \<and> tcp_room_inv s'"
proof -
  obtain room c calls where d: "Room_dispatch ver up (tcp_echo s) msg a (participants s, tcp_counter s) = ((room, c), calls)"
    by (metis surj_pair)
  let ?s = "s\<lparr>participants := room, tcp_counter := c\<rparr>"
  have f: "fold deliver_to calls (?s, []) = (s', ops)"
    using assms(3) by (auto simp: Room_processClientMessagePayload_def d Let_def split: prod.splits if_splits)
  have "writer_inv s' (P + mset ops) \<and> participants s' = room"
    using deliver_all_inv [OF _ f, of P] assms(1) by (simp add: writer_inv_def)
  moreover have "room = participants s \<or> room = set_erase id a (participants s)"
    by (rule tcp_room.members_shrink [OF d])
  ultimately show ?thesis
    using assms(2) tcp_room_inv_leave [OF assms(2), of a] by (auto simp: tcp_room_inv_def Room_leave_def)
qed

lemma put_same_queue:
  assumes "writer_inv s P" and "sessions s a = Some x" and "write_msgs y = write_msgs x"
  shows "writer_inv (put_session a y s) P"
  using assms by (intro writer_inv_keeps_front [OF assms(1)]) (auto simp: put_session_def)

lemma onWritten_inv:
  assumes "writer_inv s (add_mset (a, AsyncWrite bs) P)" and "sessions s a = Some x"
    and "TcpSession_onWritten ec a x s = (s', ops)"
  shows "writer_inv s' (P + mset ops)"
proof (cases ec)
  case True
  then show ?thesis
    using assms writer_inv_sub [OF assms(1)] by (auto simp: TcpSession_onWritten_def)
next
  case False
  have one: "writes_of a P = {#}"
    using assms(1) unfolding writer_inv_def by (auto dest: spec [of _ a])
  have other: "b \<noteq> a" if "(b, AsyncWrite cs) \<in># P" for b cs
  proof
    assume "b = a"
    with that have "(b, AsyncWrite cs) \<in># writes_of a P"
      unfolding writes_of_def set_mset_filter by simp
    then show False
      using one by simp
  qed
  have "write_msgs x \<noteq> []"
    using assms(1,2) unfolding writer_inv_def by (metis option.inject union_single_eq_member
        add_mset_add_single union_iff)
  then obtain m q where q: "write_msgs x = m # q"
    by (cases "write_msgs x") auto
  have "s' = put_session a (x\<lparr>write_msgs := q\<rparr>) s"
    "ops = (if q = [] then [] else [(a, AsyncWrite (wholePacket (hd q)))])"
    using assms(3) False by (auto simp: TcpSession_onWritten_def q session_writer.written split: if_splits)
  then show ?thesis
    using writer_inv_sub [OF assms(1)] one other
    by (auto simp: writer_inv_def put_session_def)
qed

lemma tcp_step_inv:
  assumes "tcp_step ver (s, P) (s', P')" and "writer_inv s P" and "tcp_room_inv s"
  shows "writer_inv s' P' \<and> tcp_room_inv s'"
  using assms(1)
proof cases
  case (accept a up alive ec ops Q)
  let ?n = "put_session a (TcpSession_new ver up) s"
  have Q: "writer_inv s Q"
    using writer_inv_sub assms(2) accept(1) by simp
  have n: "writer_inv ?n Q"
    using accept(3) by (intro writer_inv_keeps_front [OF Q]) (auto simp: put_session_def)
  obtain ret room where j: "Room_join a (participants s) = (ret, room)"
    by fastforce
  have r: "tcp_room_inv (s\<lparr>participants := room\<rparr>)"
    by (rule tcp_room_inv_join [OF assms(3) j])
  have refused: "writer_inv (s\<lparr>sessions := (sessions s)(a := None), participants := r\<rparr>) Q" for r
    using accept(3) by (intro writer_inv_keeps_front [OF Q]) auto
  have p: "participants ?n = participants s"
    by (simp add: put_session_def)
  consider "ec" "s' = s" "ops = [(0, AsyncAccept)]"
    | "\<not> ok ret" "s' = s\<lparr>sessions := (sessions s)(a := None), participants := room\<rparr>" "ops = [(0, AsyncAccept)]"
    | "s' = ?n\<lparr>participants := room\<rparr>" "ops = [(a, AsyncReadHeader), (0, AsyncAccept)]"
    using accept(4) by (cases ec)
      (auto simp: TcpServer_doAccept_def TcpSession_start_def p j put_session_def Let_def
        split: if_splits)
  then show ?thesis
  proof cases
    case 1
    then show ?thesis
      using Q assms(3) accept(2) by (simp add: writer_inv_other_op)
  next
    case 2
    then show ?thesis
      using refused r accept(2) by (simp add: writer_inv_other_op tcp_room_inv_def)
  next
    case 3
    then show ?thesis
      using n r accept(2) by (simp add: writer_inv_other_op tcp_room_inv_def put_session_def)
  qed
next
  case (header a x ec bs ops Q)
  have Q: "writer_inv s Q"
    using writer_inv_sub assms(2) header(1) by simp
  show ?thesis
    using header(5) put_same_queue [OF Q header(3)] Q assms(3) tcp_room_inv_leave
    by (auto simp: header(2) TcpSession_onHeader_eq Let_def writer_inv_other_op split: if_splits)
next
  case (payload a x ec bs n up alive ops Q)
  have Q: "writer_inv s Q"
    using writer_inv_sub assms(2) payload(1) by simp
  show ?thesis
  proof (cases ec)
    case True
    then show ?thesis
      using payload Q assms(3) tcp_room_inv_leave by (auto simp: TcpSession_onPayload_def)
  next
    case False
    let ?m = "TcpSession_payloadRead bs (read_msg x)"
    obtain ops' where p: "Room_processClientMessagePayload ver up alive ?m a (put_session a (x\<lparr>read_msg := ?m\<rparr>) s) = Inr (s', ops')"
        "ops = ops' @ [(a, AsyncReadHeader)]"
      using payload(5) False by (auto simp: TcpSession_onPayload_def Let_def split: sum.splits)
    have "writer_inv s' (Q + mset ops') \<and> tcp_room_inv s'"
      using put_same_queue [OF Q payload(3)] assms(3) by (intro Room_process_inv [OF _ _ p(1)]) auto
    then show ?thesis
      using payload(2) p(2) by (simp add: writer_inv_other_op)
  qed
next
  case (written a x ec ops bs Q)
  have "tcp_room_inv s'"
    using written(4) assms(3) tcp_room_inv_leave
    by (auto simp: TcpSession_onWritten_def split: prod.splits if_splits)
  then show ?thesis
    using onWritten_inv [OF _ written(3,4)] assms(2) written(1,2) by auto
qed

subsection \<open>Properties of the server\<close>

text \<open>
  C20: the TCP server's invariant. In every reachable state the room has at most two members, in
  ascending order; each session has at most one write in progress, and the bytes of that write are
  those of the front packet of its queue, which stays in the queue until the write completes.
\<close>
theorem tcp_server_invariant:
  assumes "tcp_reachable ver echo st"
  shows "ascending id (participants (fst st)) \<and> length (participants (fst st)) \<le> 2 \<and>
    (\<forall>a. size (writes_of a (snd st)) \<le> 1) \<and>
    (\<forall>a bs. (a, AsyncWrite bs) \<in># snd st \<longrightarrow>
      (\<exists>x. sessions (fst st) a = Some x \<and> write_msgs x \<noteq> [] \<and> bs = wholePacket (hd (write_msgs x))))"
proof -
  have "writer_inv (fst st) (snd st) \<and> tcp_room_inv (fst st)"
    using assms
  proof induction
    case start
    then show ?case
      by (simp add: TcpServer_new_def writer_inv_def tcp_room_inv_def)
  next
    case (step st st')
    then show ?case
      using tcp_step_inv [of ver "fst st" "snd st" "fst st'" "snd st'"] by simp
  qed
  then show ?thesis
    unfolding writer_inv_def tcp_room_inv_def by blast
qed

text \<open>A login of a session, read in two steps; the answer is queued, and written at once if the queue was empty.\<close>

lemma login_step:
  assumes "tcp_reachable ver echo (s, add_mset (a, AsyncReadHeader) P)" and "sessions s a = Some x"
    and "20 \<le> length (wholePacket (read_msg x))"
  shows "\<exists>s' x'. tcp_reachable ver echo (s', add_mset (a, AsyncReadHeader) (P +
      (if write_msgs x = [] then {#(a, AsyncWrite (wholePacket (NetPacket_new ver 0 (pt_code LoginResponse) 0)))#} else {#}))) \<and>
    sessions s' a = Some x' \<and> write_msgs x' = write_msgs x @ [NetPacket_new ver 0 (pt_code LoginResponse) 0] \<and>
    20 \<le> length (wholePacket (read_msg x')) \<and> participants s' = participants s"
proof -
  let ?bs = "wholePacket (NetPacket_new 0 0 (pt_code LoginRequest) 0)"
  let ?m = "TcpSession_headerRead ?bs (read_msg x)" and ?r = "NetPacket_new ver 0 (pt_code LoginResponse) 0"
  let ?w = "if write_msgs x = [] then [(a, AsyncWrite (wholePacket ?r))] else []"
  have bs: "length ?bs = 20" "announced ?bs = 20"
    by (simp_all add: NetPacket_new_eq announced_def layout_reads)
  then have "wholePacket ?m = ?bs"
    using checkHeader_written [OF bs(1) assms(3)] by (simp add: TcpSession_headerRead_def)
  then have m: "?m = NetPacket_new 0 0 (pt_code LoginRequest) 0"
    by (metis NetPacket.surjective NetPacket.cases old.unit.exhaust NetPacket.select_convs(1))
  let ?s1 = "put_session a (x\<lparr>read_msg := ?m\<rparr>) s"
  have "TcpSession_onHeader False ?bs a x s = (?s1, [(a, AsyncReadPayload 0)])"
    using bs(1) by (simp add: TcpSession_onHeader_eq m Let_def payloadLength_def FixHeaderLength_20 del: pt_code.simps)
  from tcp_reachable.step [OF assms(1) tcp_step.header [OF assms(2) _ this]]
  have r1: "tcp_reachable ver echo (?s1, add_mset (a, AsyncReadPayload 0) P)"
    using bs(1) by (simp add: FixHeaderLength_20)
  have x1: "sessions ?s1 a = Some (x\<lparr>read_msg := ?m\<rparr>)"
    by (simp add: put_session_def)
  let ?x2 = "x\<lparr>read_msg := ?m, write_msgs := write_msgs x @ [?r]\<rparr>"
  have pay: "TcpSession_payloadRead [] ?m = ?m"
    by (simp add: TcpSession_payloadRead_def write_at_def)
  have "pt_of_code (payloadType ?m) = Some LoginRequest"
    unfolding m using pt_of_code_pt_code [of LoginRequest] by (simp add: packet_simps del: pt_code.simps)
  then have "TcpSession_onPayload ver 0 True False [] a (x\<lparr>read_msg := ?m\<rparr>) ?s1 =
      Inr (put_session a ?x2 s, ?w @ [(a, AsyncReadHeader)])"
    using session_writer.deliver
    by (auto simp: TcpSession_onPayload_def Room_processClientMessagePayload_def Room_dispatch_def pay deliver_to_def
        put_session_def Let_def simp del: pt_code.simps)
  from tcp_reachable.step [OF r1 tcp_step.payload [OF x1 _ this]]
  have "tcp_reachable ver echo (put_session a ?x2 s, add_mset (a, AsyncReadHeader) (P + mset ?w))"
    by simp
  moreover have "20 \<le> length (wholePacket ?m)"
    unfolding m using bs(1) by simp
  ultimately show ?thesis
    by (intro exI [of _ "put_session a ?x2 s"] exI [of _ ?x2])
      (auto simp: put_session_def simp del: pt_code.simps split: if_splits)
qed

text \<open>The echo server with two members, the first of which has logged in twice before it reads an answer.\<close>

theorem tcp_server_invariant_witness:
  "\<exists>s P x bs. tcp_reachable 0 True (s, P) \<and> participants s = [1, 2] \<and> sessions s 1 = Some x \<and>
     length (write_msgs x) = 2 \<and> (1, AsyncWrite bs) \<in># P \<and> size (writes_of 1 P) = 1 \<and> bs = wholePacket (hd (write_msgs x))"
proof -
  let ?s0 = "fst (TcpServer_new True)" and ?x = "TcpSession_new 0 0"
  let ?bs = "wholePacket (NetPacket_new 0 0 (pt_code LoginResponse) 0)"
  have r0: "tcp_reachable 0 True (?s0, {#(0, AsyncAccept)#})"
    using tcp_reachable.start [of 0 True] by (simp add: TcpServer_new_def)
  obtain s1 where s1: "TcpServer_doAccept 0 0 True False 1 ?s0 = Inr (s1, [(1, AsyncReadHeader), (0, AsyncAccept)])"
      "sessions s1 1 = Some ?x" "sessions s1 2 = None" "participants s1 = [1]"
    by (simp add: TcpServer_doAccept_def TcpSession_start_def TcpServer_new_def Room_join_def put_session_def Let_def)
  have r1: "tcp_reachable 0 True (s1, add_mset (0, AsyncAccept) {#(1, AsyncReadHeader)#})"
    using tcp_reachable.step [OF r0 tcp_step.accept [OF _ s1(1), of "{#}"]]
    by (simp add: TcpServer_new_def add_mset_commute)
  obtain s2 where s2: "TcpServer_doAccept 0 0 True False 2 s1 = Inr (s2, [(2, AsyncReadHeader), (0, AsyncAccept)])"
      "sessions s2 1 = Some ?x" "participants s2 = [1, 2]"
    using s1(2-4)
    by (simp add: TcpServer_doAccept_def TcpSession_start_def Room_join_def put_session_def Let_def)
  have r2: "tcp_reachable 0 True (s2, add_mset (1, AsyncReadHeader) {#(2, AsyncReadHeader), (0, AsyncAccept)#})"
    using tcp_reachable.step [OF r1 tcp_step.accept [OF s1(3) s2(1)]] by (simp add: add_mset_commute)
  have x: "20 \<le> length (wholePacket (read_msg ?x))" "write_msgs ?x = []"
    by (simp_all add: TcpSession_new_def NetPacket_new_eq)
  obtain s3 x3 where s3: "tcp_reachable 0 True (s3, add_mset (1, AsyncReadHeader)
        ({#(2, AsyncReadHeader), (0, AsyncAccept)#} + {#(1, AsyncWrite ?bs)#}))"
      "sessions s3 1 = Some x3" "length (write_msgs x3) = 1" "20 \<le> length (wholePacket (read_msg x3))" "participants s3 = [1, 2]"
    using login_step [OF r2 s2(2) x(1)] x(2) s2(3) by auto
  then have "write_msgs x3 \<noteq> []"
    by auto
  then obtain s4 x4 P where s4: "tcp_reachable 0 True (s4, P)" "(1, AsyncWrite ?bs) \<in># P" "sessions s4 1 = Some x4"
      "length (write_msgs x4) = 2" "participants s4 = [1, 2]"
    using login_step [OF s3(1,2,4)] s3(3,5) by fastforce
  have "(1, AsyncWrite ?bs) \<in># writes_of 1 P"
    using s4(2) unfolding writes_of_def set_mset_filter by simp
  then have "size (writes_of 1 P) \<noteq> 0"
    by auto
  moreover have "size (writes_of 1 P) \<le> 1" "?bs = wholePacket (hd (write_msgs x4))"
    using tcp_server_invariant [OF s4(1)] s4(2,3) unfolding fst_conv snd_conv by (blast, metis option.inject)
  ultimately have "size (writes_of 1 P) = 1"
    by linarith
  with s4 \<open>?bs = wholePacket (hd (write_msgs x4))\<close> show ?thesis
    by blast
qed

text \<open>
  C27: reassembly of the stream. However the network cuts the bytes, a session that reads the
  concatenation of well-formed packets hands exactly these packets to the room, in order, and
  keeps a tail shorter than a header; and whatever the bytes are, the packets it hands over and
  the unread rest are the stream, and every packet is well formed.
\<close>
theorem tcp_stream_reassembly:
  assumes "20 \<le> length (wholePacket m)"
  shows "(\<forall>ps rest. (\<forall>p \<in> set ps. packet_wf p) \<longrightarrow> length rest < FixHeaderLength \<longrightarrow>
      session_reader.frames m (concat (map wholePacket ps) @ rest) = (ps, rest)) \<and>
    (\<forall>bs ps rest. session_reader.frames m bs = (ps, rest) \<longrightarrow>
      concat (map wholePacket ps) @ rest = bs \<and> (\<forall>p \<in> set ps. packet_wf p))"
  using session_reader.frames_packets [OF assms] session_reader.frames_partition [OF assms]
  unfolding FixHeaderLength_20 by blast

theorem tcp_stream_reassembly_witness:
  "session_reader.frames (read_msg (TcpSession_new 1 2))
     (wholePacket (NetPacket_new 1 5 3 0) @ wholePacket (NetPacket_new 1 6 1 0)) =
   ([NetPacket_new 1 5 3 0, NetPacket_new 1 6 1 0], [])"
proof -
  have "20 \<le> length (wholePacket (read_msg (TcpSession_new 1 2)))"
    by (simp add: TcpSession_new_def NetPacket_new_eq)
  from tcp_stream_reassembly [OF this]
  have "(\<forall>p \<in> set ps. packet_wf p) \<longrightarrow> length rest < FixHeaderLength \<longrightarrow>
      session_reader.frames (read_msg (TcpSession_new 1 2)) (concat (map wholePacket ps) @ rest) = (ps, rest)" for ps rest
    by blast
  from this [of "[NetPacket_new 1 5 3 0, NetPacket_new 1 6 1 0]" "[]"] show ?thesis
    by (simp add: FixHeaderLength_20)
qed

text \<open>
  A session writes its packets in the order in which they were delivered. For every sequence
  of deliveries and write completions from an empty queue, the writes started so far are the bytes
  of the first packets delivered, one more than were completed while the queue is not empty, and
  the queue holds the packets not yet completed.
\<close>
lemma tcp_writes_in_order:
  assumes "session_writer.run calls [] = Some (q, ws)"
  shows "q = drop (writer_completions calls) (writer_delivered calls) \<and>
    ws = map wholePacket (take (writer_completions calls + (if q = [] then 0 else 1)) (writer_delivered calls))"
  using session_writer.run_writes [OF assms] by simp

lemma tcp_writes_in_order_witness:
  "session_writer.run [Deliver (NetPacket_new 1 2 3 4), Deliver (NetPacket_new 1 2 3 5), Written] [] =
     Some ([NetPacket_new 1 2 3 5], map wholePacket [NetPacket_new 1 2 3 4, NetPacket_new 1 2 3 5])"
proof -
  let ?calls = "[Deliver (NetPacket_new 1 2 3 4), Deliver (NetPacket_new 1 2 3 5), Written]"
  obtain q ws where r: "session_writer.run ?calls [] = Some (q, ws)"
    by (simp add: session_writer.deliver session_writer.written)
  have q: "q = [NetPacket_new 1 2 3 5]"
    using r by (auto simp: session_writer.deliver session_writer.written)
  show ?thesis
    using tcp_writes_in_order [OF r] r by (simp add: q writer_completions_def)
qed

text \<open>
  A session that logged out is still heard. The logout removes it from the room but its
  reads go on: a media packet that it sends afterwards in broadcast mode goes to every member of
  the room, byte for byte and once each.
\<close>
lemma logged_out_session_still_heard:
  assumes "pt_of_code (payloadType bye) = Some LogoutRequest" and "ascending id room"
    and "Room_dispatch ver up False bye sender (room, c) = ((room', c'), out)" and "isMediaType msg"
  shows "sender \<notin> set room' \<and> out = [] \<and>
    (\<exists>calls. Room_dispatch ver' up' False msg sender (room', c') = ((room', c' + 1), calls) \<and>
      fst ` set calls = set room' \<and> distinct (map fst calls) \<and> snd ` set calls \<subseteq> {msg})"
proof -
  have r: "room' = set_erase id sender room" "out = []"
    using assms(3) tcp_room.logout [OF assms(1)] by simp_all
  then have n: "sender \<notin> set room'"
    by (simp add: set_set_erase)
  moreover have d: "Room_dispatch ver' up' False msg sender (room', c') =
      ((room', c' + 1), map (\<lambda>m. (m, msg)) (filter (\<lambda>m. m \<noteq> sender) room'))"
    using tcp_room.media_broadcast [OF assms(4)] by simp
  moreover have "filter (\<lambda>m. m \<noteq> sender) room' = room'"
    using n by (intro filter_True) auto
  moreover have "distinct room'"
    using ascending_distinct [OF ascending_set_erase [OF assms(2), of sender]] r(1) by (simp add: id_def)
  ultimately show ?thesis
    using r(2) by (auto simp: image_image comp_def)
qed

lemma logged_out_session_still_heard_witness:
  "\<exists>calls. Room_dispatch 0 0 False (NetPacket_new 0 0 7 1) 8 ([4], 0) = (([4], 1), calls) \<and> fst ` set calls = {4}"
proof -
  have l: "pt_of_code (payloadType (NetPacket_new 0 0 9 1)) = Some LogoutRequest"
    using pt_of_code_pt_code [of LogoutRequest] by (simp add: packet_simps)
  have "Room_dispatch 0 0 False (NetPacket_new 0 0 9 1) 8 ([4, 8], 0) = (([4], 0), [])"
    using tcp_room.logout [OF l] by (simp add: set_erase_def)
  from logged_out_session_still_heard [OF l _ this, of "NetPacket_new 0 0 7 1" 0 0] show ?thesis
    by (auto simp: isMediaType_def packet_simps)
qed

end
