(* ===== verification/Android_Jni.thy ===== *)
theory Android_Jni
  imports Net_Client Volume_Meter
begin

text \<open>
  The JNI bridge of the Android client (client_android/app/src/main/cpp/Entry.cpp): the Java side
  runs the sockets and calls it to build and to take apart packets and to measure volume. A byte
  array of Java is a list of bytes. A null pointer that is read through gives the fault of the
  type jni_fault, an access outside an array likewise; the exception of the packet constructor
  is passed on.
\<close>

datatype jni_fault = JniNullPointer | JniOutOfBounds | JniPayloadTooLarge

definition jni_makePacket :: "u32 \<Rightarrow> u32 \<Rightarrow> byte list \<Rightarrow> nat \<Rightarrow> NetPacket option" where
  "jni_makePacket ver up data bytes_recvd =
     (if bytes_recvd < FixHeaderLength then None
      else
        let ret = NetPacket_new ver up (pt_code Undefined) 0;
            ret = ret\<lparr>wholePacket := write_at 0 (take FixHeaderLength data) (wholePacket ret)\<rparr>;
            (ok_header, ret) = checkHeader ret
        in if \<not> ok_header then None
           else if bytes_recvd < FixHeaderLength + payloadLength ret then None
           else Some (ret\<lparr>wholePacket := write_at FixHeaderLength
             (take (payloadLength ret) (drop FixHeaderLength data)) (wholePacket ret)\<rparr>))"

lemma jni_makePacket_eq: "jni_makePacket = RawUdpConnection_makePacket"
  by (simp add: fun_eq_iff jni_makePacket_def RawUdpConnection_makePacket_def)

interpretation jni_parser: datagram_parser "jni_makePacket ver up" for ver up
  unfolding jni_makePacket_eq by unfold_locales

text \<open>A jint argument becomes a payload type by a conversion to unsigned short.\<close>

definition createNetPacket :: "u32 \<Rightarrow> u32 \<Rightarrow> u32 \<Rightarrow> byte list" where
  "createNetPacket ver up type =
     (let netPacket = NetPacket_new ver up (ucast type) 0
      in take (wholePackLength netPacket) (header netPacket))"

definition createNetPacketWithSN :: "u32 \<Rightarrow> u32 \<Rightarrow> u32 \<Rightarrow> u32 \<Rightarrow> byte list" where
  "createNetPacketWithSN ver up type sn =
     (let netPacket = NetPacket_new ver up (ucast type) sn
      in take (wholePackLength netPacket) (header netPacket))"

definition createNetPacketWithPayload ::
    "u32 \<Rightarrow> u32 \<Rightarrow> u32 \<Rightarrow> u32 \<Rightarrow> byte list \<Rightarrow> jni_fault + byte list" where
  "createNetPacketWithPayload ver up type sn data =
     (let nbInputByte = length data;
          payload = write_at 0 (take nbInputByte data) (resize nbInputByte [])
      in case NetPacket_of_int8 ver up (ucast type) sn payload of
           Inl _ \<Rightarrow> Inl JniPayloadTooLarge
         | Inr netPacket \<Rightarrow> Inr (take (wholePackLength netPacket) (header netPacket)))"

definition getNetPacketType :: "u32 \<Rightarrow> u32 \<Rightarrow> byte list \<Rightarrow> jni_fault + u32" where
  "getNetPacketType ver up bytedata =
     (case jni_makePacket ver up bytedata (length bytedata) of
        None \<Rightarrow> Inl JniNullPointer
      | Some netPacket \<Rightarrow> Inr (ucast (payloadType netPacket)))"

definition getNetPacketPayload :: "u32 \<Rightarrow> u32 \<Rightarrow> byte list \<Rightarrow> jni_fault + byte list" where
  "getNetPacketPayload ver up bytedata =
     (case jni_makePacket ver up bytedata (length bytedata) of
        None \<Rightarrow> Inl JniNullPointer
      | Some netPacket \<Rightarrow> Inr (take (payloadLength netPacket) (payload netPacket)))"

text \<open>
  The number of bytes of the array is used as a number of samples: the copy reads two bytes for
  each, from an array that may have half of that.
\<close>

definition calcVolume :: "byte list \<Rightarrow> AudioInOut \<Rightarrow> timepoint \<Rightarrow> timepoint \<times> timepoint \<times> timepoint \<Rightarrow> jni_fault + u16" where
  "calcVolume bytedata inOut created clock =
     (let nbInputByte = length bytedata;
          ap = AudioVolumeMeter_Peak_new inOut created;
          theSize = (if nbInputByte < blockSize then nbInputByte else blockSize)
      in if nbInputByte < theSize * 2 then Inl JniOutOfBounds
         else
           let segment = map (\<lambda>i. if i < theSize then rd16 bytedata (2 * i) else 0) [0..<blockSize];
               result = snd (AudioVolumeMeter_Peak_calculate segment clock ap)
           in Inr (ucast (level result)))"

subsection \<open>Properties of the bridge\<close>

text \<open>
  C37: the three parsers agree and the bridge's packets are the native ones. On every datagram the
  server, the UDP client and the bridge read the same packet or all refuse it; a packet that Java
  builds with a payload of at most 65535 bytes gives back its type (modulo 2^16) and its payload.
\<close>
theorem jni_packet_roundtrip:
  assumes "length pl \<le> 65535"
  shows "jni_makePacket ver up = RawUdpConnection_makePacket ver up \<and>
    jni_makePacket ver up = RawUdpClientImpl_makePacket ver up \<and>
    (\<exists>bs. createNetPacketWithPayload ver up ty sn pl = Inr bs \<and>
      getNetPacketPayload ver' up' bs = Inr pl \<and>
      getNetPacketType ver' up' bs = Inr (ucast (ucast ty :: u16)))"
proof -
  let ?t = "ucast ty :: u16"
  let ?bs = "packet_bytes ver up ?t sn pl"
  have "createNetPacketWithPayload ver up ty sn pl = Inr ?bs"
    using assms by (simp add: createNetPacketWithPayload_def NetPacket_of_int8_eq NetPacket_of_chars_eq
        write_at_0 Let_def header_def wholePackLength_def)
  moreover have "jni_makePacket ver' up' (?bs @ []) (length (?bs @ [])) = Some \<lparr>wholePacket = ?bs\<rparr>"
    by (rule jni_parser.parse_bytes [OF assms])
  ultimately show ?thesis
    by (simp add: jni_makePacket_eq client_makePacket_eq getNetPacketPayload_def getNetPacketType_def
        packet_simps)
qed

theorem jni_packet_roundtrip_witness:
  "\<exists>bs. createNetPacketWithPayload 1 2 7 9 [10, 20] = Inr bs \<and> getNetPacketPayload 3 4 bs = Inr [10, 20]"
  using jni_packet_roundtrip [of "[10, 20]" 1 2 7 9 3 4] by auto

text \<open>
  The volume call of the bridge. An array of at least 320 bytes gives the peak level, from 0 to
  9, of its first 160 samples; every shorter array but the empty one is read out of bounds, since
  bytes are counted as samples.
\<close>
lemma calcVolume_cases:
  "calcVolume bytedata inOut created clock =
    (if bytedata \<noteq> [] \<and> length bytedata < 320 then Inl JniOutOfBounds
     else Inr (ucast (peak_level (map (\<lambda>i. if i < length bytedata then rd16 bytedata (2 * i) else 0) [0..<160]))))"
proof -
  have l: "level (snd (AudioVolumeMeter_Peak_calculate seg clock (AudioVolumeMeter_Peak_new inOut created))) =
      peak_level seg" for seg
    by (auto simp: AudioVolumeMeter_Peak_calculate_def Let_def split: prod.splits if_splits)
  consider "bytedata = []" | "bytedata \<noteq> []" "length bytedata < 160" | "160 \<le> length bytedata" "length bytedata < 320"
    | "320 \<le> length bytedata" by linarith
  then show ?thesis
  proof cases
    case 4
    then have "map (\<lambda>i. if i < 160 then rd16 bytedata (2 * i) else 0) [0..<160] =
        map (\<lambda>i. if i < length bytedata then rd16 bytedata (2 * i) else 0) [0..<160]"
      by auto
    with 4 show ?thesis
      by (simp add: calcVolume_def Let_def blockSize_160 l del: map_eq_conv)
  qed (auto simp: calcVolume_def Let_def blockSize_160 l)
qed

end
