(* ===== verification/Worker_Properties.thy ===== *)
theory Worker_Properties
  imports Worker
begin

text \<open>
  What the sending pipeline of the worker promises: the numbering of the packets it sends, which blocks are sent as
  speech and which as comfort noise, and the faults that it can end in, all of them of a library.
\<close>

subsection \<open>Runs of the sending pipeline\<close>

datatype send_call =
    MicBlock send_clock PcmSegment
  | SetMute bool

fun send_run ::
    "('d, 'e) opus_ops \<Rightarrow> 'w webrtc_ops \<Rightarrow> send_call list \<Rightarrow> ('e, 'w) Worker \<Rightarrow>
     fault + worker_event list \<times> ('e, 'w) Worker" where
  "send_run opus rtc [] w = Inr ([], w)"
| "send_run opus rtc (SetMute b # calls) w = send_run opus rtc calls (Worker_setMute b w)"
| "send_run opus rtc (MicBlock ck buffer # calls) w =
     (case nsAecVolumeVadSend opus rtc ck buffer w of
        Inl e \<Rightarrow> Inl e
      | Inr (evs, w) \<Rightarrow>
          (case send_run opus rtc calls w of
             Inl e \<Rightarrow> Inl e
           | Inr (evs', w) \<Rightarrow> Inr (evs @ evs', w)))"

fun sent :: "worker_event list \<Rightarrow> NetPacket list" where
  "sent [] = []"
| "sent (SendPacket p # evs) = p # sent evs"
| "sent (_ # evs) = sent evs"

lemma sent_append [simp]: "sent (xs @ ys) = sent xs @ sent ys"
  by (induction xs rule: sent.induct) simp_all

text \<open>What a call of the pipeline is made of, once for all proofs.\<close>

definition prepared ::
    "'w webrtc_ops \<Rightarrow> send_clock \<Rightarrow> PcmSegment \<Rightarrow> ('e, 'w) Worker \<Rightarrow>
     fault + worker_event list \<times> PcmSegment \<times> ('e, 'w) Worker" where
  "prepared rtc ck buffer w =
     (let (denoisedBuffer, lib) = Nsx_Process rtc buffer (w_webrtc w);
          w = w\<lparr>w_webrtc := lib\<rparr>
      in case cancel_echo rtc denoisedBuffer w of
           Inl e \<Rightarrow> Inl e
         | Inr (tobeSend, w) \<Rightarrow>
             let (ev1, w) = report_volume_in (ck_meter ck) denoisedBuffer w;
                 (ev2, w) = detect_voice rtc denoisedBuffer w
             in Inr (ev1 @ ev2, if w_needAec w then tobeSend else denoisedBuffer, w))"

lemma needAec_update_voice_window [simp]: "w_needAec (update_voice_window ck w) = w_needAec w"
  by (simp add: update_voice_window_def Let_def)

lemma nsAecVolumeVadSend_eq:
  "nsAecVolumeVadSend opus rtc ck buffer w =
    (if w_mute w then Inr ([], w)
     else (case prepared rtc ck buffer w of
        Inl e \<Rightarrow> Inl e
      | Inr (evs, pcm, w1) \<Rightarrow>
          (case send_block opus rtc ck pcm (update_voice_window ck w1) of
             Inl e \<Rightarrow> Inl e
           | Inr (ev3, w2) \<Rightarrow> Inr (evs @ ev3, w2))))"
  by (simp add: nsAecVolumeVadSend_def prepared_def Let_def split: prod.split sum.split)

text \<open>The preparation sends nothing and keeps every field that the later stages use.\<close>

definition same_sender :: "('e, 'w) Worker \<Rightarrow> ('e, 'w) Worker \<Rightarrow> bool" where
  "same_sender w w' \<longleftrightarrow>
     w_sn_sendingAudio w' = w_sn_sendingAudio w \<and> w_vadReporter w' = w_vadReporter w \<and>
     w_mute w' = w_mute w \<and> w_voiceTimeStamp w' = w_voiceTimeStamp w"

lemma cancel_echo_same:
  "cancel_echo rtc d w = Inr (t, w') \<Longrightarrow>
   same_sender w w' \<and> w_vadCounter w' = w_vadCounter w \<and> w_sendOpus w' = w_sendOpus w"
  by (auto simp: cancel_echo_def same_sender_def Let_def split: if_splits prod.splits option.splits)

lemma report_volume_in_same:
  "report_volume_in clk seg w = (evs, w') \<Longrightarrow>
   same_sender w w' \<and> w_vadCounter w' = w_vadCounter w \<and> w_sendOpus w' = w_sendOpus w \<and>
   sent evs = [] \<and> ReportVad b \<notin> set evs"
  by (auto simp: report_volume_in_def same_sender_def split: if_splits prod.splits)

lemma detect_voice_same:
  "detect_voice rtc d w = (evs, w') \<Longrightarrow>
   same_sender w w' \<and> sent evs = [] \<and> (w_vadReporter w \<or> ReportVad b \<notin> set evs)"
  by (auto simp: detect_voice_def same_sender_def Let_def split: if_splits prod.splits)

lemma prepared_parts:
  assumes "prepared rtc ck buffer w = Inr (evs, pcm, w')"
  obtains d lib t w1 w2 ev1 ev2 where
    "Nsx_Process rtc buffer (w_webrtc w) = (d, lib)"
    "cancel_echo rtc d (w\<lparr>w_webrtc := lib\<rparr>) = Inr (t, w1)"
    "report_volume_in (ck_meter ck) d w1 = (ev1, w2)" "detect_voice rtc d w2 = (ev2, w')"
    "evs = ev1 @ ev2"
  using assms by (auto simp: prepared_def Let_def split: prod.splits sum.splits)

lemma prepared_same:
  assumes "prepared rtc ck buffer w = Inr (evs, pcm, w')"
  shows "same_sender w w' \<and> sent evs = [] \<and> (w_vadReporter w \<or> ReportVad b \<notin> set evs)"
proof -
  obtain d lib t w1 w2 ev1 ev2 where p:
    "cancel_echo rtc d (w\<lparr>w_webrtc := lib\<rparr>) = Inr (t, w1)"
    "report_volume_in (ck_meter ck) d w1 = (ev1, w2)" "detect_voice rtc d w2 = (ev2, w')" "evs = ev1 @ ev2"
    using assms by (rule prepared_parts)
  show ?thesis
    using cancel_echo_same [OF p(1)] report_volume_in_same [OF p(2), of b] detect_voice_same [OF p(3), of b]
    by (auto simp: p(4) same_sender_def)
qed

lemma update_voice_window_same:
  "w_sn_sendingAudio (update_voice_window ck w) = w_sn_sendingAudio w"
  "w_vadReporter (update_voice_window ck w) = w_vadReporter w"
  "w_mute (update_voice_window ck w) = w_mute w"
  by (simp_all add: update_voice_window_def Let_def)

text \<open>The sending stage: at most one packet, with the next number and the type of the mode.\<close>

lemma send_block_sent:
  assumes "send_block opus rtc ck pcm w = Inr (evs, w')"
  shows "(evs = [] \<and> w_sn_sendingAudio w' = w_sn_sendingAudio w \<or>
      (\<exists>pl. length pl \<le> 65535 \<and>
        evs = [SendPacket \<lparr>wholePacket = packet_bytes (ck_ver ck) (ck_up ck)
          (pt_code (if w_sendOpus w then AudioMessage else AudioMessage_CN)) (w_sn_sendingAudio w + 1) pl\<rparr>] \<and>
        w_sn_sendingAudio w' = w_sn_sendingAudio w + 1)) \<and>
    w_sendOpus w' = w_sendOpus w \<and> w_vadCounter w' = w_vadCounter w \<and>
    w_vadReporter w' = w_vadReporter w \<and> w_mute w' = w_mute w \<and> w_voiceTimeStamp w' = w_voiceTimeStamp w"
proof (cases "w_sendOpus w")
  case True
  then show ?thesis
    using assms by (auto simp: send_block_def NetPacket_of_chars_eq Let_def not_less
        simp del: pt_code.simps split: sum.splits prod.splits if_splits)
next
  case False
  then show ?thesis
    using assms by (auto simp: send_block_def NetPacket_of_int8_eq NetPacket_of_chars_eq Let_def not_less
        simp del: pt_code.simps split: sum.splits prod.splits if_splits)
qed

lemma call_sent:
  assumes "nsAecVolumeVadSend opus rtc ck buffer w = Inr (evs, w')"
  shows "(sent evs = [] \<and> w_sn_sendingAudio w' = w_sn_sendingAudio w \<or>
      (\<exists>pl. length pl \<le> 65535 \<and> \<not> w_mute w \<and>
        sent evs = [\<lparr>wholePacket = packet_bytes (ck_ver ck) (ck_up ck)
          (pt_code (if w_sendOpus w' then AudioMessage else AudioMessage_CN)) (w_sn_sendingAudio w + 1) pl\<rparr>] \<and>
        w_sn_sendingAudio w' = w_sn_sendingAudio w + 1)) \<and>
    w_vadReporter w' = w_vadReporter w \<and> w_mute w' = w_mute w \<and>
    (w_vadReporter w \<or> ReportVad b \<notin> set evs)"
proof (cases "w_mute w")
  case False
  obtain ev1 pcm w1 ev3 where p: "prepared rtc ck buffer w = Inr (ev1, pcm, w1)"
      "send_block opus rtc ck pcm (update_voice_window ck w1) = Inr (ev3, w')" "evs = ev1 @ ev3"
    using assms False by (auto simp: nsAecVolumeVadSend_eq split: sum.splits prod.splits)
  show ?thesis
    using prepared_same [OF p(1), of b] send_block_sent [OF p(2)] update_voice_window_same [of ck w1] False
    by (auto simp: p(3) same_sender_def simp del: pt_code.simps)
qed (use assms in \<open>simp add: nsAecVolumeVadSend_eq\<close>)

lemma call_types:
  assumes "nsAecVolumeVadSend opus rtc ck buffer w = Inr (evs, w')"
  shows "\<forall>p \<in> set (sent evs). payloadType p = pt_code (if w_sendOpus w' then AudioMessage else AudioMessage_CN)"
proof -
  from call_sent [OF assms] consider "sent evs = []"
    | pl where "sent evs = [\<lparr>wholePacket = packet_bytes (ck_ver ck) (ck_up ck)
        (pt_code (if w_sendOpus w' then AudioMessage else AudioMessage_CN)) (w_sn_sendingAudio w + 1) pl\<rparr>]"
    by blast
  then show ?thesis
    by cases (simp_all only: set_simps empty_iff insert_iff accessors_layout simp_thms ball_simps)
qed

text \<open>Libraries for concrete inputs: no noise, no echo, a fixed verdict on voice, one noise byte.\<close>

definition toy_webrtc :: "int \<Rightarrow> unit webrtc_ops" where
  "toy_webrtc vad =
     \<lparr>Nsx_Process = (\<lambda>b w. (b, w)), Aec_Process = (\<lambda>x w. (0, map (\<lambda>_. 0) x, w)),
      Vad_Process = (\<lambda>_ _ _ w. (vad, w)), Cn_Encode = (\<lambda>_ _ w. (1, [7], w))\<rparr>"

definition toy_worker :: "(unit, unit) Worker" where
  "toy_worker = Worker_new \<lparr>enc_err = 0, encoder = Some ()\<rparr> () 0 0 (None, None)"

definition toy_clock :: "timepoint \<Rightarrow> send_clock" where
  "toy_clock t =
     \<lparr>ck_meter = (t, t, t), ck_init = 0, ck_now = t, ck_reset = t, ck_ver = 0, ck_up = 0\<rparr>"

subsection \<open>Faults of the sending pipeline\<close>

text \<open>
  The fault that a library causes in the call for a block: the canceller reports an error or leaves the range of a sample, the
  Opus encoder reports an error, or the noise encoder miscounts or makes a packet that no length field can hold.
\<close>

definition library_error ::
    "('d, 'e) opus_ops \<Rightarrow> 'w webrtc_ops \<Rightarrow> send_clock \<Rightarrow> PcmSegment \<Rightarrow> ('e, 'w) Worker \<Rightarrow> fault \<Rightarrow> bool" where
  "library_error opus rtc ck buffer w e \<longleftrightarrow>
     (case Nsx_Process rtc buffer (w_webrtc w) of (d, lib) \<Rightarrow>
        case Aec_Process rtc (map (\<lambda>x. real_of_int (sint x) / 2 ^ 15) d) lib of (r, out, _) \<Rightarrow>
          w_needAec w \<and>
          (r \<noteq> 0 \<and> e = Terminate \<or> r = 0 \<and> (\<exists>f \<in> set out. to_short (f * 2 ^ 15) = None) \<and> e = BadConversion)) \<or>
     (\<exists>evs pcm w1. prepared rtc ck buffer w = Inr (evs, pcm, w1) \<and>
        ((\<exists>enc. encoder (w_encoder w) = Some enc \<and>
            fst (opus_encode opus enc pcm (length pcm) MAX_PACKET_SIZE) < 0 \<and> e = Terminate) \<or>
         (case Cn_Encode rtc pcm False (w_webrtc w1) of (n, out, _) \<Rightarrow>
            length out \<noteq> n \<and> e = AssertionFailed \<or> length out = n \<and> 65535 < n \<and> e = Terminate)))"

lemma shorts_None: "shorts fs = None \<longleftrightarrow> (\<exists>f \<in> set fs. to_short (f * 2 ^ 15) = None)"
  by (induction fs) (auto split: option.split)

lemma cancel_echo_fault:
  assumes "cancel_echo rtc d w = Inl e"
  shows "case Aec_Process rtc (map (\<lambda>x. real_of_int (sint x) / 2 ^ 15) d) (w_webrtc w) of (r, out, _) \<Rightarrow>
      w_needAec w \<and>
      (r \<noteq> 0 \<and> e = Terminate \<or> r = 0 \<and> (\<exists>f \<in> set out. to_short (f * 2 ^ 15) = None) \<and> e = BadConversion)"
proof -
  obtain r out lib where a: "Aec_Process rtc (map (\<lambda>x. real_of_int (sint x) / 2 ^ 15) d) (w_webrtc w) = (r, out, lib)"
    by (metis surj_pair)
  have "w_needAec w \<and> (r \<noteq> 0 \<and> e = Terminate \<or> r = 0 \<and> shorts out = None \<and> e = BadConversion)"
    using assms unfolding cancel_echo_def Let_def a prod.case by (simp split: if_splits option.splits)
  then show ?thesis
    unfolding a prod.case shorts_None .
qed

lemma prepared_encoder:
  assumes "prepared rtc ck buffer w = Inr (evs, pcm, w')"
  shows "w_encoder w' = w_encoder w"
proof -
  obtain d lib t w1 w2 ev1 ev2 where p:
    "cancel_echo rtc d (w\<lparr>w_webrtc := lib\<rparr>) = Inr (t, w1)"
    "report_volume_in (ck_meter ck) d w1 = (ev1, w2)" "detect_voice rtc d w2 = (ev2, w')"
    using assms by (rule prepared_parts)
  have "w_encoder w1 = w_encoder w"
    using p(1) by (auto simp: cancel_echo_def Let_def split: if_splits prod.splits option.splits)
  moreover have "w_encoder w2 = w_encoder w1"
    using p(2) by (auto simp: report_volume_in_def split: if_splits prod.splits)
  moreover have "w_encoder w' = w_encoder w2"
    using p(3) by (auto simp: detect_voice_def Let_def split: if_splits prod.splits)
  ultimately show ?thesis
    by simp
qed

lemma update_voice_window_others [simp]:
  "w_encoder (update_voice_window ck w) = w_encoder w" "w_webrtc (update_voice_window ck w) = w_webrtc w"
  by (simp_all add: update_voice_window_def Let_def)

lemma send_block_faults:
  assumes "opus_contract opus" and "encoder (w_encoder w) = Some enc" and "send_block opus rtc ck pcm w = Inl e"
  shows "fst (opus_encode opus enc pcm (length pcm) MAX_PACKET_SIZE) < 0 \<and> e = Terminate \<or>
    (case Cn_Encode rtc pcm False (w_webrtc w) of (n, out, _) \<Rightarrow>
       length out \<noteq> n \<and> e = AssertionFailed \<or> length out = n \<and> 65535 < n \<and> e = Terminate)"
proof (cases "w_sendOpus w")
  case True
  obtain r out e' where o: "opus_encode opus enc pcm (length pcm) MAX_PACKET_SIZE = (r, out, e')"
    by (metis surj_pair)
  have l: "length (take (nat r) out) \<le> 65535"
    using OpusEnc_encode_eq(2) [OF assms(1,2) o] MAX_PACKET_SIZE_fits by linarith
  show ?thesis
  proof (cases "r < 0")
    case False
    then have "OpusEnc_encode opus pcm [] (w_encoder w) =
        Inr (ReturnType_int 0, take (nat r) out, (w_encoder w)\<lparr>encoder := Some e'\<rparr>)"
      using OpusEnc_encode_eq(1) [OF assms(1,2) o] by simp
    then have False
      using assms(3) True l by (simp add: send_block_def NetPacket_of_chars_eq Let_def del: length_take)
    then show ?thesis ..
  next
    case neg: True
    then show ?thesis
      using assms(3) True OpusEnc_encode_eq(1) [OF assms(1,2) o, of "[]"] by (simp add: send_block_def o)
  qed
next
  case False
  then show ?thesis
    using assms(3)
    by (auto simp: send_block_def NetPacket_of_int8_eq NetPacket_of_chars_eq Let_def split: prod.splits if_splits sum.splits)
qed

lemma send_block_encoder:
  assumes "send_block opus rtc ck pcm w = Inr (evs, w')"
  shows "encoder (w_encoder w') = None \<longleftrightarrow> encoder (w_encoder w) = None"
  using assms by (auto simp: send_block_def OpusEnc_encode_def Let_def split: if_splits sum.splits prod.splits option.splits)

lemma call_cases:
  assumes "opus_contract opus" and "encoder (w_encoder w) \<noteq> None"
  shows "(\<exists>evs w'. nsAecVolumeVadSend opus rtc ck buffer w = Inr (evs, w') \<and> encoder (w_encoder w') \<noteq> None) \<or>
    (\<exists>e. nsAecVolumeVadSend opus rtc ck buffer w = Inl e \<and> \<not> w_mute w \<and> library_error opus rtc ck buffer w e)"
proof (cases "w_mute w")
  case False
  obtain enc where enc: "encoder (w_encoder w) = Some enc"
    using assms(2) by blast
  show ?thesis
  proof (cases "prepared rtc ck buffer w")
    case (Inl e)
    obtain d lib where n: "Nsx_Process rtc buffer (w_webrtc w) = (d, lib)"
      by fastforce
    have "cancel_echo rtc d (w\<lparr>w_webrtc := lib\<rparr>) = Inl e"
      using Inl by (auto simp: prepared_def n Let_def split: sum.splits prod.splits)
    from cancel_echo_fault [OF this] have "library_error opus rtc ck buffer w e"
      unfolding library_error_def n by simp
    then show ?thesis
      using Inl False by (simp add: nsAecVolumeVadSend_eq)
  next
    case (Inr x)
    then obtain ev1 pcm w1 where p: "prepared rtc ck buffer w = Inr (ev1, pcm, w1)"
      by (metis surj_pair)
    have k: "encoder (w_encoder (update_voice_window ck w1)) = Some enc"
      using prepared_encoder [OF p] enc by simp
    show ?thesis
    proof (cases "send_block opus rtc ck pcm (update_voice_window ck w1)")
      case (Inl e)
      have "library_error opus rtc ck buffer w e"
        unfolding library_error_def using p enc send_block_faults [OF assms(1) k Inl] by auto
      then show ?thesis
        using Inl p False by (simp add: nsAecVolumeVadSend_eq)
    next
      case (Inr y)
      then show ?thesis
        using send_block_encoder k p False by (cases y) (fastforce simp: nsAecVolumeVadSend_eq)
    qed
  qed
qed (use assms in \<open>simp add: nsAecVolumeVadSend_eq\<close>)

lemma send_run_cases:
  assumes "opus_contract opus" and "encoder (w_encoder w) \<noteq> None"
  shows "(\<exists>evs w'. send_run opus rtc calls w = Inr (evs, w')) \<or>
    (\<exists>pre ck buffer post evs w1 e. calls = pre @ MicBlock ck buffer # post \<and> send_run opus rtc pre w = Inr (evs, w1) \<and>
      \<not> w_mute w1 \<and> library_error opus rtc ck buffer w1 e \<and> send_run opus rtc calls w = Inl e)"
  using assms(2)
proof (induction calls arbitrary: w)
  case (Cons c calls)
  show ?case
  proof (cases c)
    case (SetMute b)
    have "encoder (w_encoder (Worker_setMute b w)) \<noteq> None"
      using Cons.prems by (simp add: Worker_setMute_def)
    from Cons.IH [OF this] show ?thesis
    proof (elim disjE exE conjE)
      fix pre ck buffer post evs w1 e
      assume "calls = pre @ MicBlock ck buffer # post" "send_run opus rtc pre (Worker_setMute b w) = Inr (evs, w1)"
        "\<not> w_mute w1" "library_error opus rtc ck buffer w1 e" "send_run opus rtc calls (Worker_setMute b w) = Inl e"
      then show ?thesis
        by (intro disjI2 exI [of _ "c # pre"] exI [of _ ck] exI [of _ buffer] exI [of _ post] exI [of _ evs] exI [of _ w1]
            exI [of _ e]) (simp add: SetMute)
    qed (simp add: SetMute)
  next
    case (MicBlock ck buffer)
    from call_cases [OF assms(1) Cons.prems, of rtc ck buffer] show ?thesis
    proof (elim disjE exE conjE)
      fix e
      assume "nsAecVolumeVadSend opus rtc ck buffer w = Inl e" "\<not> w_mute w" "library_error opus rtc ck buffer w e"
      then show ?thesis
        by (intro disjI2 exI [of _ "[]"] exI [of _ ck] exI [of _ buffer] exI [of _ calls] exI [of _ "[]"] exI [of _ w]
            exI [of _ e]) (simp add: MicBlock)
    next
      fix ev1 w1
      assume c1: "nsAecVolumeVadSend opus rtc ck buffer w = Inr (ev1, w1)" and "encoder (w_encoder w1) \<noteq> None"
      from Cons.IH [OF this(2)] show ?thesis
      proof (elim disjE exE conjE)
        fix pre ck' buffer' post evs w2 e
        assume "calls = pre @ MicBlock ck' buffer' # post" "send_run opus rtc pre w1 = Inr (evs, w2)"
          "\<not> w_mute w2" "library_error opus rtc ck' buffer' w2 e" "send_run opus rtc calls w1 = Inl e"
        then show ?thesis
          using c1 by (intro disjI2 exI [of _ "c # pre"] exI [of _ ck'] exI [of _ buffer'] exI [of _ post]
              exI [of _ "ev1 @ evs"] exI [of _ w2] exI [of _ e]) (simp add: MicBlock)
      qed (simp add: MicBlock c1)
    qed
  qed
qed simp

text \<open>The concrete libraries cause no fault.\<close>

lemma toy_no_error: "\<not> library_error (toy_opus k) (toy_webrtc v) ck buffer w e"
proof -
  have "fst (opus_encode (toy_opus k) enc pcm j n) \<ge> 0" for enc pcm j n
    by (simp add: toy_opus_def)
  moreover have "to_short 0 \<noteq> None"
    by (simp add: to_short_def)
  ultimately show ?thesis
    by (auto simp: library_error_def toy_webrtc_def not_less)
qed

lemma toy_run: "encoder (w_encoder w) \<noteq> None \<Longrightarrow> \<exists>evs w'. send_run (toy_opus k) (toy_webrtc v) calls w = Inr (evs, w')"
  using send_run_cases [OF opus_contract_toy, of w k "toy_webrtc v" calls] toy_no_error by blast

lemma toy_call:
  "encoder (w_encoder w) \<noteq> None \<Longrightarrow> \<exists>evs w'. nsAecVolumeVadSend (toy_opus k) (toy_webrtc v) ck buffer w = Inr (evs, w')"
  using call_cases [OF opus_contract_toy, of w k "toy_webrtc v" ck buffer] toy_no_error by blast

subsection \<open>Properties of the sending pipeline\<close>

lemma send_run_packets:
  assumes "send_run opus rtc calls w = Inr (evs, w')"
  shows "map serialNumber (sent evs) =
      map (\<lambda>i. w_sn_sendingAudio w + 1 + of_nat i) [0..<length (sent evs)] \<and>
    w_sn_sendingAudio w' = w_sn_sendingAudio w + of_nat (length (sent evs)) \<and>
    (\<forall>p \<in> set (sent evs). packet_wf p \<and>
      payloadType p \<in> {pt_code AudioMessage, pt_code AudioMessage_CN})"
  using assms
proof (induction calls arbitrary: w evs)
  case (Cons c calls)
  show ?case
  proof (cases c)
    case (SetMute b)
    then show ?thesis
      using Cons.IH [of "Worker_setMute b w" evs] Cons.prems by (simp add: Worker_setMute_def)
  next
    case (MicBlock ck buffer)
    obtain ev1 w1 ev2 where r: "nsAecVolumeVadSend opus rtc ck buffer w = Inr (ev1, w1)"
        "send_run opus rtc calls w1 = Inr (ev2, w')" "evs = ev1 @ ev2"
      using Cons.prems by (auto simp: MicBlock split: sum.splits)
    note ih = Cons.IH [OF r(2)]
    from call_sent [OF r(1)] consider
      "sent ev1 = []" "w_sn_sendingAudio w1 = w_sn_sendingAudio w"
    | pl where "length pl \<le> 65535" "sent ev1 = [\<lparr>wholePacket = packet_bytes (ck_ver ck) (ck_up ck)
          (pt_code (if w_sendOpus w1 then AudioMessage else AudioMessage_CN)) (w_sn_sendingAudio w + 1) pl\<rparr>]"
        "w_sn_sendingAudio w1 = w_sn_sendingAudio w + 1"
      by blast
    then show ?thesis
    proof cases
      case 1
      then show ?thesis
        using ih by (simp add: r(3))
    next
      case 2
      let ?n = "length (sent ev2)"
      have "map (\<lambda>i. w_sn_sendingAudio w + 1 + of_nat i) [0..<Suc ?n] =
          (w_sn_sendingAudio w + 1) # map (\<lambda>i. w_sn_sendingAudio w1 + 1 + of_nat i) [0..<?n]"
        by (subst upt_conv_Cons) (simp_all add: 2(3) map_Suc_upt [symmetric] comp_def algebra_simps del: upt_Suc)
      then show ?thesis
        using ih 2 by (simp add: r(3) packet_simps packet_wf_def layout_reads unat_of_nat_u16 del: upt_Suc pt_code.simps)
    qed
  qed
qed simp

text \<open>
  C14: the numbering of the audio packets. Over any sequence of microphone blocks and mute
  switches, the audio packets that a worker sends carry the consecutive serial numbers that follow its
  counter, modulo 2^32; each is a well-formed packet of type AudioMessage or
  AudioMessage_CN. So a receiver can detect every loss from the numbers.
\<close>
theorem worker_serial_numbers:
  assumes "send_run opus rtc calls w = Inr (evs, w')"
  shows "map serialNumber (sent evs) =
      map (\<lambda>i. w_sn_sendingAudio w + 1 + of_nat i) [0..<length (sent evs)] \<and>
    w_sn_sendingAudio w' = w_sn_sendingAudio w + of_nat (length (sent evs)) \<and>
    (\<forall>p \<in> set (sent evs). packet_wf p \<and>
      payloadType p \<in> {pt_code AudioMessage, pt_code AudioMessage_CN})"
  by (rule send_run_packets [OF assms])

theorem worker_serial_numbers_witness:
  "\<exists>evs w'. send_run (toy_opus 160) (toy_webrtc 1)
     [MicBlock (toy_clock 5) [1, 2], SetMute True, MicBlock (toy_clock 6) [3], SetMute False, MicBlock (toy_clock 7) [4]]
     toy_worker = Inr (evs, w') \<and>
     map serialNumber (sent evs) = map (\<lambda>i. w_sn_sendingAudio toy_worker + 1 + of_nat i) [0..<length (sent evs)]"
proof -
  have "encoder (w_encoder toy_worker) \<noteq> None"
    by (simp add: toy_worker_def Worker_new_def)
  from toy_run [OF this] obtain evs w' where
    r: "send_run (toy_opus 160) (toy_webrtc 1)
     [MicBlock (toy_clock 5) [1, 2], SetMute True, MicBlock (toy_clock 6) [3], SetMute False, MicBlock (toy_clock 7) [4]]
     toy_worker = Inr (evs, w')"
    by blast
  then show ?thesis
    using worker_serial_numbers [OF r] by blast
qed

text \<open>
  C24: a fault of the sending pipeline is a fault of a library. With an Opus library that keeps to its arrays, any sequence of
  microphone blocks and mute switches on a worker with an encoder runs to its end, or to the first block of the
  unmuted worker in which a library fails: the canceller reports an error or leaves the range of a sample, the Opus
  encoder reports an error, or the noise encoder miscounts or makes more than 65535 bytes. No pointer is null, and no
  packet that Opus makes is too long for its length field.
\<close>
theorem sending_faults_are_library_errors:
  assumes "opus_contract opus" and "encoder (w_encoder w) \<noteq> None"
  shows "(\<exists>evs w'. send_run opus rtc calls w = Inr (evs, w')) \<or>
    (\<exists>pre ck buffer post evs w1 e. calls = pre @ MicBlock ck buffer # post \<and> send_run opus rtc pre w = Inr (evs, w1) \<and>
      \<not> w_mute w1 \<and> library_error opus rtc ck buffer w1 e \<and> send_run opus rtc calls w = Inl e)"
  by (rule send_run_cases [OF assms])

text \<open>An encoder that rejects every block: the run ends at the second call, which is the first that is not muted.\<close>

theorem sending_faults_are_library_errors_witness:
  "\<exists>pre ck buffer post w1 e. [SetMute True, MicBlock (toy_clock 5) [1], SetMute False, MicBlock (toy_clock 6) [2]] =
       pre @ MicBlock ck buffer # post \<and> \<not> w_mute w1 \<and>
     library_error ((toy_opus 160)\<lparr>opus_encode := \<lambda>_ _ _ n. (- 1, replicate n 0, ())\<rparr>) (toy_webrtc 1) ck buffer w1 e"
proof -
  let ?opus = "(toy_opus 160)\<lparr>opus_encode := \<lambda>_ _ _ n. (- 1, replicate n 0, ())\<rparr>"
  let ?calls = "[SetMute True, MicBlock (toy_clock 5) [1], SetMute False, MicBlock (toy_clock 6) [2]]"
  have c: "opus_contract ?opus"
    using opus_contract_toy [of 160] by (simp add: opus_contract_def)
  have e: "encoder (w_encoder toy_worker) \<noteq> None"
    by (simp add: toy_worker_def Worker_new_def)
  have "send_run ?opus (toy_webrtc 1) ?calls toy_worker = Inl Terminate"
    by (simp add: Worker_setMute_def nsAecVolumeVadSend_def toy_worker_def Worker_new_def toy_webrtc_def toy_clock_def
        cancel_echo_def report_volume_in_def detect_voice_def update_voice_window_def send_block_def OpusEnc_encode_def Let_def)
  then show ?thesis
    using sending_faults_are_library_errors [OF c e, of "toy_webrtc 1" ?calls] by fastforce
qed

text \<open>The verdict of the voice detector on a block, in the state in which the call asks it.\<close>

definition voice_in :: "'w webrtc_ops \<Rightarrow> PcmSegment \<Rightarrow> ('e, 'w) Worker \<Rightarrow> bool" where
  "voice_in rtc buffer w =
     (let (d, lib) = Nsx_Process rtc buffer (w_webrtc w) in
      case cancel_echo rtc d (w\<lparr>w_webrtc := lib\<rparr>) of
        Inl _ \<Rightarrow> False
      | Inr (_, w) \<Rightarrow> 1 = fst (Vad_Process rtc sampleRate d (sampleRate div 100) (w_webrtc w)))"

text \<open>The voice counter once the verdict on a block is in, and whether a window of one second ends.\<close>

definition counted :: "'w webrtc_ops \<Rightarrow> PcmSegment \<Rightarrow> ('e, 'w) Worker \<Rightarrow> u8" where
  "counted rtc buffer w = w_vadCounter w + (if voice_in rtc buffer w then 1 else 0)"

definition window_ends :: "send_clock \<Rightarrow> ('e, 'w) Worker \<Rightarrow> bool" where
  "window_ends ck w \<longleftrightarrow> ck_now ck - get_or (w_voiceTimeStamp w) (ck_init ck) > one_second"

lemma prepared_voice:
  assumes "prepared rtc ck buffer w = Inr (evs, pcm, w')"
  shows "w_vadCounter w' = counted rtc buffer w \<and>
    w_sendOpus w' = (w_sendOpus w \<or> voice_in rtc buffer w) \<and> w_voiceTimeStamp w' = w_voiceTimeStamp w"
proof -
  obtain d lib t w1 w2 ev1 ev2 where p:
    "Nsx_Process rtc buffer (w_webrtc w) = (d, lib)"
    "cancel_echo rtc d (w\<lparr>w_webrtc := lib\<rparr>) = Inr (t, w1)"
    "report_volume_in (ck_meter ck) d w1 = (ev1, w2)" "detect_voice rtc d w2 = (ev2, w')"
    using assms by (rule prepared_parts)
  have "w_webrtc w2 = w_webrtc w1"
    using p(3) by (auto simp: report_volume_in_def split: if_splits prod.splits)
  then have "voice_in rtc buffer w = (1 = fst (Vad_Process rtc sampleRate d (sampleRate div 100) (w_webrtc w2)))"
    by (simp add: voice_in_def p(1,2))
  then show ?thesis
    using cancel_echo_same [OF p(2)] report_volume_in_same [OF p(3)] p(4)
    by (auto simp: detect_voice_def counted_def same_sender_def Let_def split: if_splits prod.splits)
qed

text \<open>What the stage after the preparation sends, with its payload.\<close>

lemma send_block_encodes:
  assumes "send_block opus rtc ck pcm w = Inr (evs, w')"
  shows "if w_sendOpus w then
      \<exists>ret p. OpusEnc_encode opus pcm [] (w_encoder w) = Inr (ret, payload p, w_encoder w') \<and> ok ret \<and> sent evs = [p] \<and>
        payloadType p = pt_code AudioMessage \<and> serialNumber p = w_sn_sendingAudio w + 1
    else
      \<exists>pl. Cn_Encode rtc pcm False (w_webrtc w) = (length pl, pl, w_webrtc w') \<and>
        (if pl = [] then sent evs = []
         else \<exists>p. sent evs = [p] \<and> payloadType p = pt_code AudioMessage_CN \<and>
           serialNumber p = w_sn_sendingAudio w + 1 \<and> payload p = pl)"
proof (cases "w_sendOpus w")
  case True
  obtain ret pl enc where e: "OpusEnc_encode opus pcm [] (w_encoder w) = Inr (ret, pl, enc)" "ok ret"
    using assms True by (auto simp: send_block_def split: sum.splits prod.splits if_splits)
  let ?p = "\<lparr>wholePacket = packet_bytes (ck_ver ck) (ck_up ck) (pt_code AudioMessage) (w_sn_sendingAudio w + 1) pl\<rparr>"
  have s: "length pl \<le> 65535" "evs = [SendPacket ?p]" "w_encoder w' = enc"
    using assms True e by (auto simp: send_block_def NetPacket_of_chars_eq Let_def not_less simp del: pt_code.simps
        split: if_splits)
  then have "payload ?p = pl" "payloadType ?p = pt_code AudioMessage" "serialNumber ?p = w_sn_sendingAudio w + 1"
    by (simp_all add: packet_simps del: pt_code.simps)
  then show ?thesis
    unfolding if_P [OF True] using e s by (intro exI [of _ ret] exI [of _ ?p]) (simp del: pt_code.simps)
next
  case False
  obtain n out lib where c: "Cn_Encode rtc pcm False (w_webrtc w) = (n, out, lib)"
    by (metis surj_pair)
  let ?p = "\<lparr>wholePacket = packet_bytes (ck_ver ck) (ck_up ck) (pt_code AudioMessage_CN) (w_sn_sendingAudio w + 1) out\<rparr>"
  have n: "n = length out" and w: "w_webrtc w' = lib"
    and s: "if out = [] then evs = [] else length out \<le> 65535 \<and> evs = [SendPacket ?p]"
    using assms False c by (auto simp: send_block_def NetPacket_of_int8_eq NetPacket_of_chars_eq Let_def not_less
        simp del: pt_code.simps split: if_splits)
  have "length out \<le> 65535 \<Longrightarrow> payload ?p = out" "payloadType ?p = pt_code AudioMessage_CN"
      "serialNumber ?p = w_sn_sendingAudio w + 1"
    by (simp_all add: packet_simps del: pt_code.simps)
  then show ?thesis
    unfolding if_not_P [OF False] using c n w s by (intro exI [of _ out]) (auto simp del: pt_code.simps)
qed

lemma call_mode:
  assumes "nsAecVolumeVadSend opus rtc ck buffer w = Inr (evs, w')" and "\<not> w_mute w"
  shows "(w_sendOpus w' \<longleftrightarrow>
      (w_sendOpus w \<or> voice_in rtc buffer w) \<and> \<not> (window_ends ck w \<and> counted rtc buffer w = 0)) \<and>
    w_vadCounter w' = (if window_ends ck w then 0 else counted rtc buffer w) \<and>
    w_voiceTimeStamp w' = Some (if window_ends ck w then ck_reset ck else get_or (w_voiceTimeStamp w) (ck_init ck))"
proof -
  obtain ev1 pcm w1 ev3 where p: "prepared rtc ck buffer w = Inr (ev1, pcm, w1)"
      "send_block opus rtc ck pcm (update_voice_window ck w1) = Inr (ev3, w')"
    using assms by (auto simp: nsAecVolumeVadSend_eq split: sum.splits prod.splits)
  show ?thesis
    using prepared_voice [OF p(1)] send_block_sent [OF p(2)]
    by (auto simp: update_voice_window_def window_ends_def get_or_def Let_def split: option.splits)
qed

lemma call_encodes:
  assumes "nsAecVolumeVadSend opus rtc ck buffer w = Inr (evs, w')" and "\<not> w_mute w"
  shows "\<exists>evs0 pcm w1. prepared rtc ck buffer w = Inr (evs0, pcm, w1) \<and>
    (if w_sendOpus w' then
      \<exists>ret p. OpusEnc_encode opus pcm [] (w_encoder w) = Inr (ret, payload p, w_encoder w') \<and> ok ret \<and> sent evs = [p] \<and>
        payloadType p = pt_code AudioMessage \<and> serialNumber p = w_sn_sendingAudio w + 1
    else
      \<exists>pl. Cn_Encode rtc pcm False (w_webrtc w1) = (length pl, pl, w_webrtc w') \<and>
        (if pl = [] then sent evs = []
         else \<exists>p. sent evs = [p] \<and> payloadType p = pt_code AudioMessage_CN \<and>
           serialNumber p = w_sn_sendingAudio w + 1 \<and> payload p = pl))"
proof -
  obtain ev1 pcm w1 ev3 where p: "prepared rtc ck buffer w = Inr (ev1, pcm, w1)"
      "send_block opus rtc ck pcm (update_voice_window ck w1) = Inr (ev3, w')" "evs = ev1 @ ev3"
    using assms by (auto simp: nsAecVolumeVadSend_eq split: sum.splits prod.splits)
  have eqs: "w_sendOpus (update_voice_window ck w1) = w_sendOpus w'"
      "w_sn_sendingAudio (update_voice_window ck w1) = w_sn_sendingAudio w"
    using send_block_sent [OF p(2)] prepared_same [OF p(1)] by (simp_all add: update_voice_window_same same_sender_def)
  have "sent evs = sent ev3"
    using prepared_same [OF p(1)] by (simp add: p(3))
  then show ?thesis
    using send_block_encodes [OF p(2)] p(1) unfolding eqs update_voice_window_others prepared_encoder [OF p(1)] by metis
qed

text \<open>
  C23: speech or comfort noise, block by block. For a block of an unmuted worker the encoder of the mode is run on the
  block, denoised and with its echo cancelled: Opus exactly if the block has voice or the worker was sending
  speech before, unless the window of one second ends with this block and the 8-bit counter of voiced blocks is
  zero. What Opus makes is sent, in one AudioMessage with the next serial number; what the noise encoder
  makes is sent in one AudioMessage_CN with the next number, unless it makes nothing. At the end of a window the
  counter and the time stamp of the window start again, otherwise they are kept.
\<close>
theorem voice_decides_encoding:
  assumes "nsAecVolumeVadSend opus rtc ck buffer w = Inr (evs, w')" and "\<not> w_mute w"
  shows "(w_sendOpus w' \<longleftrightarrow>
      (w_sendOpus w \<or> voice_in rtc buffer w) \<and> \<not> (window_ends ck w \<and> counted rtc buffer w = 0)) \<and>
    w_vadCounter w' = (if window_ends ck w then 0 else counted rtc buffer w) \<and>
    w_voiceTimeStamp w' = Some (if window_ends ck w then ck_reset ck else get_or (w_voiceTimeStamp w) (ck_init ck)) \<and>
    (\<exists>evs0 pcm w1. prepared rtc ck buffer w = Inr (evs0, pcm, w1) \<and>
      (if w_sendOpus w' then
        \<exists>ret p. OpusEnc_encode opus pcm [] (w_encoder w) = Inr (ret, payload p, w_encoder w') \<and> ok ret \<and> sent evs = [p] \<and>
          payloadType p = pt_code AudioMessage \<and> serialNumber p = w_sn_sendingAudio w + 1
      else
        \<exists>pl. Cn_Encode rtc pcm False (w_webrtc w1) = (length pl, pl, w_webrtc w') \<and>
          (if pl = [] then sent evs = []
           else \<exists>p. sent evs = [p] \<and> payloadType p = pt_code AudioMessage_CN \<and>
             serialNumber p = w_sn_sendingAudio w + 1 \<and> payload p = pl)))"
  using call_mode [OF assms] call_encodes [OF assms] by blast

theorem voice_decides_encoding_witness:
  "\<exists>evs w' p. nsAecVolumeVadSend (toy_opus 160) (toy_webrtc 0) (toy_clock 1500000000) [1] toy_worker = Inr (evs, w') \<and>
     \<not> w_sendOpus w' \<and> sent evs = [p] \<and> payload p = [7] \<and> w_voiceTimeStamp w' = Some 1500000000"
proof -
  have "encoder (w_encoder toy_worker) \<noteq> None" and m: "\<not> w_mute toy_worker"
    by (simp_all add: toy_worker_def Worker_new_def)
  from toy_call [OF this(1)] obtain evs w' where
    r: "nsAecVolumeVadSend (toy_opus 160) (toy_webrtc 0) (toy_clock 1500000000) [1] toy_worker = Inr (evs, w')"
    by blast
  have "window_ends (toy_clock 1500000000) toy_worker" "counted (toy_webrtc 0) [1] toy_worker = 0"
      "ck_reset (toy_clock 1500000000) = 1500000000" "Cn_Encode (toy_webrtc 0) = (\<lambda>_ _ w. (1, [7], w))"
    by (simp_all add: window_ends_def counted_def voice_in_def toy_clock_def toy_worker_def Worker_new_def
        get_or_def toy_webrtc_def cancel_echo_def)
  then show ?thesis
    using voice_decides_encoding [OF r m] r by (auto simp del: pt_code.simps)
qed

lemma no_voice:
  assumes "\<And>d n k s. fst (Vad_Process rtc n d k s) \<noteq> 1"
  shows "\<not> voice_in rtc buffer w"
  using assms [THEN not_sym] by (simp add: voice_in_def Let_def split: prod.split sum.split)

lemma silent_run:
  assumes "\<And>d n k s. fst (Vad_Process rtc n d k s) \<noteq> 1"
    and "send_run opus rtc calls w = Inr (evs, w')" and "\<not> w_sendOpus w"
  shows "\<forall>p \<in> set (sent evs). payloadType p = pt_code AudioMessage_CN"
  using assms(2,3)
proof (induction calls arbitrary: w evs)
  case (Cons c calls)
  show ?case
  proof (cases c)
    case (SetMute b)
    then show ?thesis
      using Cons.IH [of "Worker_setMute b w" evs] Cons.prems by (simp add: Worker_setMute_def)
  next
    case (MicBlock ck buffer)
    obtain ev1 w1 ev2 where r: "nsAecVolumeVadSend opus rtc ck buffer w = Inr (ev1, w1)"
        "send_run opus rtc calls w1 = Inr (ev2, w')" "evs = ev1 @ ev2"
      using Cons.prems by (auto simp: MicBlock split: sum.splits)
    have quiet: "\<not> w_sendOpus w1"
    proof (cases "w_mute w")
      case True
      then show ?thesis
        using r(1) Cons.prems(2) by (simp add: nsAecVolumeVadSend_eq)
    next
      case False
      have "\<not> voice_in rtc buffer w"
        by (rule no_voice) (rule assms(1))
      then show ?thesis
        using call_mode [OF r(1) False] Cons.prems(2) by simp
    qed
    show ?thesis
      using Cons.IH [OF r(2) quiet] call_types [OF r(1)] quiet
      by (simp add: r(3) ball_Un del: pt_code.simps)
  qed
qed simp

text \<open>
  A silent second switches to comfort noise. When a window of one second ends without a voiced block,
  then from that block on, for as long as the detector hears no voice and whatever is muted in
  between, every packet sent is an AudioMessage_CN.
\<close>
lemma silent_second_switches_to_noise:
  assumes "\<And>d n k s. fst (Vad_Process rtc n d k s) \<noteq> 1"
    and "\<not> w_mute w" and "w_vadCounter w = 0" and "window_ends ck w"
    and "send_run opus rtc (MicBlock ck buffer # calls) w = Inr (evs, w')"
  shows "\<forall>p \<in> set (sent evs). payloadType p = pt_code AudioMessage_CN"
proof -
  obtain ev1 w1 ev2 where r: "nsAecVolumeVadSend opus rtc ck buffer w = Inr (ev1, w1)"
      "send_run opus rtc calls w1 = Inr (ev2, w')" "evs = ev1 @ ev2"
    using assms(5) by (auto split: sum.splits)
  have "\<not> voice_in rtc buffer w"
    by (rule no_voice) (rule assms(1))
  then have quiet: "\<not> w_sendOpus w1"
    using call_mode [OF r(1) assms(2)] assms(3,4) by (simp add: counted_def)
  show ?thesis
    using silent_run [OF assms(1) r(2) quiet] call_types [OF r(1)] quiet
    by (simp add: r(3) ball_Un del: pt_code.simps)
qed

lemma silent_second_switches_to_noise_witness:
  "\<exists>evs w'. send_run (toy_opus 160) (toy_webrtc 0) [MicBlock (toy_clock 1500000000) [1], MicBlock (toy_clock 1510000000) [2]]
     toy_worker = Inr (evs, w') \<and> (\<forall>p \<in> set (sent evs). payloadType p = pt_code AudioMessage_CN)"
proof -
  have e: "encoder (w_encoder toy_worker) \<noteq> None"
    by (simp add: toy_worker_def Worker_new_def)
  from toy_run [OF e] obtain evs w' where
    r: "send_run (toy_opus 160) (toy_webrtc 0) [MicBlock (toy_clock 1500000000) [1], MicBlock (toy_clock 1510000000) [2]]
      toy_worker = Inr (evs, w')"
    by blast
  have "\<forall>p \<in> set (sent evs). payloadType p = pt_code AudioMessage_CN"
    by (rule silent_second_switches_to_noise [OF _ _ _ _ r])
      (simp_all add: toy_webrtc_def toy_worker_def Worker_new_def window_ends_def toy_clock_def get_or_def)
  with r show ?thesis
    by blast
qed

end
