(* ===== verification/Worker_Lifecycle.thy ===== *)
theory Worker_Lifecycle
  imports Worker_Properties
begin

text \<open>
  The life cycle of the worker: what init leaves undone, the start-up of syncStart with its two
  time limits, and the rate of the heartbeats.
\<close>

subsection \<open>What init leaves undone\<close>

lemma Worker_initCodec_fields:
  "Worker_initCodec opus w = (b, w') \<Longrightarrow> w_vadReporter w' = w_vadReporter w"
  by (auto simp: Worker_initCodec_def Let_def split: prod.splits)

lemma Worker_init_vadReporter:
  "Worker_init opus android env cfg reportInfo reportVolume vadReporter w = (r, w') \<Longrightarrow>
   w_vadReporter w' = w_vadReporter w"
  by (auto simp: Worker_init_def Let_def dest: Worker_initCodec_fields
      split: if_splits prod.splits sum.splits)

lemma send_run_no_vad:
  assumes "send_run opus rtc calls w = Inr (evs, w')" and "\<not> w_vadReporter w"
  shows "ReportVad b \<notin> set evs"
  using assms
proof (induction calls arbitrary: w evs)
  case (Cons c calls)
  show ?case
  proof (cases c)
    case (SetMute m)
    then show ?thesis
      using Cons.IH [of "Worker_setMute m w" evs] Cons.prems by (simp add: Worker_setMute_def)
  next
    case (MicBlock ck buffer)
    obtain ev1 w1 ev2 where r: "nsAecVolumeVadSend opus rtc ck buffer w = Inr (ev1, w1)"
        "send_run opus rtc calls w1 = Inr (ev2, w')" "evs = ev1 @ ev2"
      using Cons.prems by (auto simp: MicBlock split: sum.splits)
    show ?thesis
      using Cons.IH [OF r(2)] call_sent [OF r(1), of b] Cons.prems(2) by (auto simp: r(3))
  qed
qed simp

text \<open>
  The voice indicator never lights up. Whatever vadReporter is passed to init and whatever the
  configuration is, a new worker that was initialised never reports the verdict of the voice
  detector: init does not store the reporter.
\<close>
lemma init_drops_vad_reporter:
  assumes "Worker_init opus android env cfg reportInfo reportVolume vadReporter (Worker_new enc lib t u statics) = (r, w)"
    and "send_run opus rtc calls w = Inr (evs, w')"
  shows "ReportVad b \<notin> set evs"
  using Worker_init_vadReporter [OF assms(1)] by (intro send_run_no_vad [OF assms(2)]) (simp add: Worker_new_def)

definition good_env :: init_env where
  "good_env =
     \<lparr>env_aecInit = 0, env_vadInit = 0, env_vadMode = 0, env_nsInit = 0, env_nsPolicy = 0,
      env_stub = Inr None, env_endpointInit = ReturnType_int 0\<rparr>"

definition udp_config :: config where
  "udp_config =
     \<lparr>cfg_needAec = None, cfg_audioOutDumpPath = None, cfg_audioInStub = None,
      cfg_needRealAudioEndpoint = None, cfg_protocol = Some ''raw_udp'', cfg_host = None, cfg_port = None\<rparr>"

lemma init_drops_vad_reporter_witness:
  "\<exists>w evs w'. Worker_init (toy_opus 160) False good_env udp_config True True True toy_worker =
      (Returns (ReturnType_int 0), w) \<and>
    send_run (toy_opus 160) (toy_webrtc 1) [MicBlock (toy_clock 5) [1]] w = Inr (evs, w') \<and> ReportVad True \<notin> set evs"
proof -
  obtain w where i: "Worker_init (toy_opus 160) False good_env udp_config True True True toy_worker =
      (Returns (ReturnType_int 0), w)" and e: "encoder (w_encoder w) \<noteq> None"
    by (simp add: Worker_init_def good_env_def udp_config_def toy_worker_def Worker_new_def get_or_def
        Worker_initCodec_def OpusEnc_reInit_def Let_def toy_opus_def)
  from toy_run [OF e] obtain evs w' where
    r: "send_run (toy_opus 160) (toy_webrtc 1) [MicBlock (toy_clock 5) [1]] w = Inr (evs, w')"
    by blast
  have "ReportVad True \<notin> set evs"
    by (rule init_drops_vad_reporter [OF i [unfolded toy_worker_def] r])
  with i r show ?thesis
    by blast
qed

text \<open>
  The results of init. It succeeds exactly if every library call succeeds (the echo
  canceller's only where it is wanted), the codec and the endpoint come up and the
  protocol is raw_udp or raw_tcp; an unknown protocol with everything else in order leaves
  init by an exception that is no std::exception, so the handler in init and that of its callers miss it.
\<close>
lemma init_succeeds_iff:
  assumes "env_stub env = Inr stub"
  shows "((\<exists>ret w'. Worker_init opus android env cfg i v d w = (Returns ret, w') \<and> ok ret) \<longleftrightarrow>
      (get_or (cfg_needAec cfg) (w_needAec w) \<longrightarrow> env_aecInit env = 0) \<and>
      env_vadInit env = 0 \<and> env_vadMode env = 0 \<and> env_nsInit env = 0 \<and> env_nsPolicy env = 0 \<and>
      \<not> snd (opus_encoder_create opus sampleRate 1) < 0 \<and> ok (env_endpointInit env) \<and>
      get_or (cfg_protocol cfg) '''' \<in> {''raw_udp'', ''raw_tcp''}) \<and>
    (env_aecInit env = 0 \<and> env_vadInit env = 0 \<and> env_vadMode env = 0 \<and> env_nsInit env = 0 \<and>
      env_nsPolicy env = 0 \<and> \<not> snd (opus_encoder_create opus sampleRate 1) < 0 \<and>
      ok (env_endpointInit env) \<and> get_or (cfg_protocol cfg) '''' \<notin> {''raw_udp'', ''raw_tcp''} \<longrightarrow>
      fst (Worker_init opus android env cfg i v d w) =
        Throws (get_or (cfg_protocol cfg) '''' @ '' :unknown protocol''))"
proof -
  obtain de e where c: "opus_encoder_create opus sampleRate 1 = (de, e)"
    by fastforce
  have codec: "fst (Worker_initCodec opus w) \<longleftrightarrow> \<not> e < 0" for w
    by (simp add: Worker_initCodec_def OpusEnc_reInit_def c [unfolded One_nat_def] Let_def)
  show ?thesis
    unfolding Worker_init_def Let_def c case_prod_beta codec assms
    by (auto split: if_splits)
qed

lemma init_succeeds_iff_witness:
  "\<exists>ret w'. Worker_init (toy_opus 160) False good_env udp_config True True True toy_worker = (Returns ret, w') \<and> ok ret"
proof -
  have "env_stub good_env = Inr None"
    by (simp add: good_env_def)
  then show ?thesis
    using init_succeeds_iff [of good_env None "toy_opus 160" False udp_config True True True toy_worker]
    by (simp add: good_env_def udp_config_def get_or_def toy_opus_def)
qed

subsection \<open>The start-up\<close>

lemma poll_result: "fst (poll ms n readings) \<longleftrightarrow> (\<exists>i<n. readings i)"
  by (induction ms n readings rule: poll.induct) (auto simp: case_prod_beta Let_def Ex_less_Suc2)

lemma poll_events: "set (snd (poll ms n readings)) \<subseteq> {SleepMs ms}"
  by (induction ms n readings rule: poll.induct) (auto simp: case_prod_beta Let_def)

fun slept :: "worker_event list \<Rightarrow> nat" where
  "slept [] = 0"
| "slept (SleepMs ms # evs) = ms + slept evs"
| "slept (_ # evs) = slept evs"

lemma slept_append [simp]: "slept (xs @ ys) = slept xs + slept ys"
  by (induction xs rule: slept.induct) simp_all

lemma slept_poll: "slept (snd (poll ms n readings)) \<le> ms * n"
  by (induction ms n readings rule: poll.induct) (auto simp: case_prod_beta Let_def)

lemma heartbeat_loop_events:
  "heartbeat_loop ver rs w = (fin, evs, w') \<Longrightarrow>
   EndpointStart \<notin> set evs \<and> (\<forall>s m. ToggleState s m \<notin> set evs) \<and> (fin \<longleftrightarrow> True \<in> hr_stop ` set rs)"
proof (induction rs arbitrary: w evs)
  case (Cons r rs)
  show ?case
  proof (cases "hr_stop r")
    case True
    then show ?thesis
      using Cons.prems by auto
  next
    case False
    obtain ev w1 where s: "Worker_sendHeartbeat ver (hr_up r) (hr_clock r) w = (ev, w1)"
      by fastforce
    obtain evs1 where l: "heartbeat_loop ver rs w1 = (fin, evs1, w')" "evs = ev @ [SleepMs 3000] @ evs1"
      using Cons.prems False by (auto simp: s split: prod.splits)
    have "set ev \<subseteq> range SendPacket"
      using s by (auto simp: Worker_sendHeartbeat_def Let_def split: prod.splits if_splits)
    then show ?thesis
      using Cons.IH [OF l(1)] False by (auto simp: l(2))
  qed
qed simp

text \<open>What the caller is told, in order: the calls of toggleState.\<close>

fun toggles :: "worker_event list \<Rightarrow> (NetworkState \<times> string) list" where
  "toggles [] = []"
| "toggles (ToggleState n m # evs) = (n, m) # toggles evs"
| "toggles (_ # evs) = toggles evs"

lemma toggles_append [simp]: "toggles (xs @ ys) = toggles xs @ toggles ys"
  by (induction xs rule: toggles.induct) simp_all

lemma toggles_empty: "(\<And>n m. ToggleState n m \<notin> set evs) \<Longrightarrow> toggles evs = []"
  by (induction evs rule: toggles.induct) auto

text \<open>Whether the start-up goes online, and otherwise the reason for which it is refused.\<close>

definition online :: "start_env \<Rightarrow> bool" where
  "online env \<longleftrightarrow> st_initThrows env = None \<and> (\<exists>i<10. st_connected env i) \<and> st_loginAfter env"

definition refusal :: "start_env \<Rightarrow> string" where
  "refusal env =
     (case st_initThrows env of
        Some what \<Rightarrow> what
      | None \<Rightarrow> if \<exists>i<10. st_connected env i then ''Could not Login to Server...'' else ''Could not connect to Server...'')"

lemma syncStart_refused:
  assumes "Worker_syncStart env w = (res, evs, w')" and "\<not> online env"
  shows "EndpointStart \<notin> set evs \<and> res = Some (ReturnType_str (refusal env)) \<and> slept evs \<le> 400 \<and>
    toggles evs = (if st_initThrows env = None then [(Disconnected, refusal env)] else [])"
proof -
  obtain c ev1 where c: "poll 10 10 (st_connected env) = (c, ev1)" by fastforce
  obtain l ev2 where l: "poll 30 10 (st_login env) = (l, ev2)" by fastforce
  have ev: "set ev1 \<subseteq> {SleepMs 10}" "set ev2 \<subseteq> {SleepMs 30}" "slept ev1 \<le> 100" "slept ev2 \<le> 300"
    and cc: "c \<longleftrightarrow> (\<exists>i<10. st_connected env i)"
    using poll_events [of 10 10 "st_connected env"] poll_events [of 30 10 "st_login env"]
      slept_poll [of 10 10 "st_connected env"] slept_poll [of 30 10 "st_login env"]
      poll_result [of 10 10 "st_connected env"] by (simp_all add: c l)
  then have quiet: "toggles ev1 = []" "toggles ev2 = []" "EndpointStart \<notin> set ev1" "EndpointStart \<notin> set ev2"
    by (auto intro!: toggles_empty)
  have ref: "refusal env = (case st_initThrows env of Some what \<Rightarrow> what
      | None \<Rightarrow> if c then ''Could not Login to Server...'' else ''Could not connect to Server...'')"
    unfolding refusal_def cc ..
  consider (throw) what where "st_initThrows env = Some what"
    | (unconnected) "st_initThrows env = None" "\<not> c"
    | (nologin) "st_initThrows env = None" "c" "\<not> st_loginAfter env"
    using assms(2) cc by (auto simp: online_def)
  then show ?thesis
    using assms(1) ev(3,4) quiet by cases (auto simp: Worker_syncStart_def c l ref Let_def)
qed

lemma syncStart_online:
  assumes "Worker_syncStart env w = (res, evs, w')" and "online env"
  shows "(\<exists>pre post. evs = pre @ [ToggleState Connected '''', EndpointStart] @ post \<and> toggles (pre @ post) = [] \<and>
      EndpointStart \<notin> set (pre @ post)) \<and>
    (\<forall>ret. res = Some ret \<longrightarrow> ok ret \<and> True \<in> hr_stop ` set (st_rounds env) \<and>
      (\<exists>p. last evs = SendPacket p \<and> payloadType p = pt_code LogoutRequest))"
proof -
  obtain ev1 where c: "poll 10 10 (st_connected env) = (True, ev1)"
    using poll_result [of 10 10 "st_connected env"] assms(2) by (metis fst_conv online_def surj_pair)
  obtain l ev2 where l: "poll 30 10 (st_login env) = (l, ev2)" by fastforce
  have ev: "set ev1 \<subseteq> {SleepMs 10}" "set ev2 \<subseteq> {SleepMs 30}"
    using poll_events [of 10 10 "st_connected env"] poll_events [of 30 10 "st_login env"] by (simp_all add: c l)
  let ?w = "w\<lparr>w_gotoStop := False\<rparr>"
  let ?w1 = "if w_durationReporter w then ?w\<lparr>w_durationTimer := True\<rparr> else ?w"
  let ?login = "SendPacket (NetPacket_new (st_ver env) (st_upLogin env) (pt_code LoginRequest) 0)"
  let ?logout = "SendPacket (NetPacket_new (st_ver env) (st_upLogout env) (pt_code LogoutRequest) 0)"
  obtain fin ev4 w4 where h: "heartbeat_loop (st_ver env) (st_rounds env) ?w1 = (fin, ev4, w4)"
    by (metis surj_pair)
  let ?timer = "if w_durationReporter w then [TimerStart] else []"
  let ?post = "if st_endpointReturns env then ?timer @ ev4 @ (if fin then [?logout] else []) else []"
  have r: "evs = (ev1 @ ?login # ev2) @ [ToggleState Connected '''', EndpointStart] @ ?post \<and>
      res = (if st_endpointReturns env \<and> fin then Some (ReturnType_int 0) else None)"
    using assms h by (auto simp: Worker_syncStart_def online_def c l Let_def split: if_splits)
  have "toggles ((ev1 @ ?login # ev2) @ ?post) = [] \<and> EndpointStart \<notin> set ((ev1 @ ?login # ev2) @ ?post)"
    using ev heartbeat_loop_events [OF h] by (auto intro!: toggles_empty)
  moreover have "ok ret \<and> True \<in> hr_stop ` set (st_rounds env) \<and>
      (\<exists>p. last evs = SendPacket p \<and> payloadType p = pt_code LogoutRequest)" if "res = Some ret" for ret
    using that r heartbeat_loop_events [OF h] by (auto simp: packet_simps simp del: pt_code.simps split: if_splits)
  ultimately show ?thesis
    using r by blast
qed

text \<open>
  C25: the start-up sequence. The start-up goes online exactly if the client's init does not throw, the client
  is connected in one of the first ten readings, and the login answer has arrived after the login loop. Then the
  caller is told once that it is connected, and nothing else; the audio endpoint is started right after that,
  and once; syncStart returns only after the stop was seen, with success, and the last thing it does then is to send
  the logout. Otherwise the endpoint is not started and syncStart returns the reason, after at most 400
  milliseconds of waiting; the caller is told once that it is disconnected, for that reason, and nothing else, but it
  is told nothing at all when the client's init has thrown.
\<close>
theorem syncStart_sequence:
  assumes "Worker_syncStart env w = (res, evs, w')"
  shows "(online env \<longrightarrow>
      (\<exists>pre post. evs = pre @ [ToggleState Connected '''', EndpointStart] @ post \<and> toggles (pre @ post) = [] \<and>
        EndpointStart \<notin> set (pre @ post)) \<and>
      (\<forall>ret. res = Some ret \<longrightarrow> ok ret \<and> True \<in> hr_stop ` set (st_rounds env) \<and>
        (\<exists>p. last evs = SendPacket p \<and> payloadType p = pt_code LogoutRequest))) \<and>
    (\<not> online env \<longrightarrow>
      EndpointStart \<notin> set evs \<and> res = Some (ReturnType_str (refusal env)) \<and> slept evs \<le> 400 \<and>
      toggles evs = (if st_initThrows env = None then [(Disconnected, refusal env)] else []))"
  using syncStart_online [OF assms] syncStart_refused [OF assms] by blast

definition quick_start :: "bool list \<Rightarrow> start_env" where
  "quick_start stops =
     \<lparr>st_initThrows = None, st_connected = \<lambda>i. 1 \<le> i, st_login = \<lambda>i. 1 \<le> i, st_loginAfter = True,
      st_endpointReturns = True,
      st_rounds = map (\<lambda>b. \<lparr>hr_stop = b, hr_clock = (0, 0, 0), hr_up = 0\<rparr>) stops,
      st_ver = 0, st_upLogin = 0, st_upLogout = 0\<rparr>"

theorem syncStart_sequence_witness:
  "(\<exists>res evs w' pre post. Worker_syncStart (quick_start [False, True]) toy_worker = (res, evs, w') \<and>
      evs = pre @ [ToggleState Connected '''', EndpointStart] @ post) \<and>
    (\<exists>evs w'. Worker_syncStart ((quick_start [])\<lparr>st_loginAfter := False\<rparr>) toy_worker =
      (Some (ReturnType_str ''Could not Login to Server...''), evs, w') \<and>
      toggles evs = [(Disconnected, ''Could not Login to Server...'')])"
proof -
  obtain res evs w' where s1: "Worker_syncStart (quick_start [False, True]) toy_worker = (res, evs, w')"
    by (metis surj_pair)
  obtain res2 evs2 w2 where
    s2: "Worker_syncStart ((quick_start [])\<lparr>st_loginAfter := False\<rparr>) toy_worker = (res2, evs2, w2)"
    by (metis surj_pair)
  have "online (quick_start [False, True])" "\<not> online ((quick_start [])\<lparr>st_loginAfter := False\<rparr>)"
      "refusal ((quick_start [])\<lparr>st_loginAfter := False\<rparr>) = ''Could not Login to Server...''"
      "st_initThrows (quick_start []) = None"
    by (auto simp: online_def refusal_def quick_start_def intro: exI [of _ 1])
  then show ?thesis
    using syncStart_sequence [OF s1] syncStart_sequence [OF s2] s1 s2 by auto
qed

text \<open>One round of the sending loop, with the heartbeat due or not.\<close>

lemma sendHeartbeat_due:
  assumes "Worker_sendHeartbeat ver up (now0, now, now2) w = (ev, w1)" and "w_heartbeatTimeStamp w = Some t"
    and "now - t > 10 * one_second"
  shows "ev = [SendPacket (NetPacket_new ver up (pt_code HeartBeatRequest) (w_sn_sendingHeartBeat w + 1))] \<and>
    w_heartbeatTimeStamp w1 = Some now2 \<and> w_sn_sendingHeartBeat w1 = w_sn_sendingHeartBeat w + 1"
  using assms by (auto simp: Worker_sendHeartbeat_def Let_def)

lemma sendHeartbeat_early:
  assumes "Worker_sendHeartbeat ver up (now0, now, now2) w = (ev, w1)" and "w_heartbeatTimeStamp w = Some t"
    and "\<not> now - t > 10 * one_second"
  shows "ev = [] \<and> w_heartbeatTimeStamp w1 = Some t \<and> w_sn_sendingHeartBeat w1 = w_sn_sendingHeartBeat w"
  using assms by (auto simp: Worker_sendHeartbeat_def Let_def)

lemma consecutive_Cons:
  "map (\<lambda>i. c + 1 + of_nat i) [0..<Suc n] = (c + 1 :: u32) # map (\<lambda>i. c + 1 + 1 + of_nat i) [0..<n]"
  by (subst upt_conv_Cons) (simp_all add: map_Suc_upt [symmetric] comp_def algebra_simps del: upt_Suc)

text \<open>
  C26: the rate and the numbers of the heartbeats. Over a run of the sending loop in which the
  clock does not run backwards within a round, the heartbeats carry the consecutive numbers
  after the counter, and n of them take more than 10 n seconds, from the time stamp before the run to the one after
  it; without a heartbeat the time stamp stays.
\<close>
theorem heartbeat_rate:
  assumes "heartbeat_loop ver rs w = (fin, evs, w')" and "w_heartbeatTimeStamp w = Some t"
    and "\<And>r. r \<in> set rs \<Longrightarrow> fst (snd (hr_clock r)) \<le> snd (snd (hr_clock r))"
  shows "map serialNumber (sent evs) =
      map (\<lambda>i. w_sn_sendingHeartBeat w + 1 + of_nat i) [0..<length (sent evs)] \<and>
    (\<forall>p \<in> set (sent evs). payloadType p = pt_code HeartBeatRequest) \<and>
    (\<exists>t'. w_heartbeatTimeStamp w' = Some t' \<and> (if sent evs = [] then t' = t else 10 * one_second * int (length (sent evs)) < t' - t))"
  using assms
proof (induction rs arbitrary: w evs t)
  case Nil
  then show ?case by simp
next
  case (Cons r rs)
  show ?case
  proof (cases "hr_stop r")
    case True
    then show ?thesis
      using Cons.prems by auto
  next
    case False
    obtain now0 now now2 where k: "hr_clock r = (now0, now, now2)"
      by (metis surj_pair)
    obtain ev w1 where s: "Worker_sendHeartbeat ver (hr_up r) (hr_clock r) w = (ev, w1)"
      by fastforce
    obtain evs1 where l: "heartbeat_loop ver rs w1 = (fin, evs1, w')" "evs = ev @ [SleepMs 3000] @ evs1"
      using Cons.prems False by (auto simp: s split: prod.splits)
    have le: "now \<le> now2"
      using Cons.prems(3) [of r] by (simp add: k)
    show ?thesis
    proof (cases "now - t > 10 * one_second")
      case True
      note w1 = sendHeartbeat_due [OF s [unfolded k] Cons.prems(2) True]
      then show ?thesis
        using Cons.IH [OF l(1), of now2] Cons.prems(3) True le consecutive_Cons [of "w_sn_sendingHeartBeat w" "length (sent evs1)"]
        by (auto simp: l(2) packet_simps algebra_simps simp del: upt_Suc pt_code.simps split: if_splits)
    next
      case False
      note w1 = sendHeartbeat_early [OF s [unfolded k] Cons.prems(2) False]
      then show ?thesis
        using Cons.IH [OF l(1), of t] Cons.prems(3) by (auto simp: l(2))
    qed
  qed
qed

theorem heartbeat_rate_witness:
  "\<exists>fin evs w'. heartbeat_loop 0
     [\<lparr>hr_stop = False, hr_clock = (0, 12000000000, 12000000001), hr_up = 12000\<rparr>]
     (toy_worker\<lparr>w_heartbeatTimeStamp := Some 0\<rparr>) = (fin, evs, w') \<and> map serialNumber (sent evs) = [1]"
proof -
  let ?rs = "[\<lparr>hr_stop = False, hr_clock = (0, 12000000000, 12000000001), hr_up = 12000\<rparr>]"
  let ?w = "toy_worker\<lparr>w_heartbeatTimeStamp := Some 0\<rparr>"
  obtain fin evs w' where h: "heartbeat_loop 0 ?rs ?w = (fin, evs, w')"
    by (metis surj_pair)
  then have "length (sent evs) = 1"
    by (auto simp: Worker_sendHeartbeat_def Let_def)
  moreover have "map serialNumber (sent evs) =
      map (\<lambda>i. w_sn_sendingHeartBeat ?w + 1 + of_nat i) [0..<length (sent evs)]"
    using heartbeat_rate [OF h, of 0] by simp
  ultimately have "map serialNumber (sent evs) = [1]"
    by (simp add: toy_worker_def Worker_new_def)
  with h show ?thesis
    by (intro exI conjI)
qed

end
