(* ===== verification/Android_Worker.thy ===== *)
theory Android_Worker
  imports Worker_Lifecycle Net_Client
begin

text \<open>
  The worker of the Android client (client_android/app/src/main/cpp/Worker.cpp). It is a copy of
  the worker of client_essential except for its settings: the server is an argument of init, the
  echo canceller is always on, there are no files, and the client is always the UDP client.
  The functions that are equal in both files are those of the theory Worker.
\<close>

record ('e, 'w) Android_Worker =
  aw_worker :: "('e, 'w) Worker"
  aw_host :: string
  aw_port :: string

definition Android_Worker_init ::
    "('d, 'e) opus_ops \<Rightarrow> init_env \<Rightarrow> string \<Rightarrow> string \<Rightarrow> bool \<Rightarrow> bool \<Rightarrow> bool \<Rightarrow> ('e, 'w) Android_Worker \<Rightarrow>
     ReturnType outcome \<times> ('e, 'w) Android_Worker" where
  "Android_Worker_init opus env host port reportInfo reportVolume vadReporter a =
     (let w = (aw_worker a)\<lparr>w_needAec := True\<rparr>;
          a = a\<lparr>aw_worker := w, aw_host := host, aw_port := port\<rparr> in
      if w_needAec w \<and> env_aecInit env \<noteq> 0 then (Throws ''WebRtcAec_Init failed'', a)
      else if env_vadInit env \<noteq> 0 then (Returns (ReturnType_str ''WebRtcVad_Init failed''), a)
      else if env_vadMode env \<noteq> 0 then (Returns (ReturnType_str ''WebRtcVad_set_mode failed''), a)
      else if env_nsInit env \<noteq> 0 then (Returns (ReturnType_str ''WebRtcNsx_Init failed''), a)
      else if env_nsPolicy env \<noteq> 0 then (Returns (ReturnType_str ''WebRtcNsx_set_policy failed''), a)
      else
        let (codec, w) = Worker_initCodec opus w; a = a\<lparr>aw_worker := w\<rparr> in
        if \<not> codec then (Returns (ReturnType_str ''initCodec fail''), a)
        else
          (case env_stub env of
             Inl e \<Rightarrow> (Faults e, a)
           | Inr stub \<Rightarrow>
               let w = w\<lparr>w_audioInStub := stub, w_endpoint := Some (CallbackStyleAudioEndpoint_create True True)\<rparr>;
                   a = a\<lparr>aw_worker := w\<rparr>;
                   ret = env_endpointInit env
               in if \<not> ok ret then (Returns ret, a)
                  else (Returns (ReturnType_int 0),
                        a\<lparr>aw_worker := w\<lparr>w_useTcp := False, w_volumeReporter := reportVolume\<rparr>\<rparr>)))"

text \<open>
  The start-up with the UDP client: resolve is the resolver of the library, and the readings of
  isConnected are those of the client that its init created.
\<close>

definition Android_Worker_syncStart ::
    "(string \<Rightarrow> string \<Rightarrow> string + 'ep list) \<Rightarrow> start_env \<Rightarrow> ('e, 'w) Android_Worker \<Rightarrow>
     ReturnType option \<times> worker_event list \<times> ('e, 'w) Android_Worker" where
  "Android_Worker_syncStart resolve env a =
     (let w = (aw_worker a)\<lparr>w_gotoStop := False\<rparr>; a = a\<lparr>aw_worker := w\<rparr> in
      case RawUdpClient_init resolve (aw_host a) (aw_port a) of
        Inl what \<Rightarrow> (Some (ReturnType_str what), [], a)
      | Inr (_, pClient) \<Rightarrow>
          let (isOK, ev1) = poll 10 10 (\<lambda>_. RawUdpClient_isConnected pClient) in
          if \<not> isOK then
            (Some (ReturnType_str ''Could not connect to Server...''),
             ev1 @ [ToggleState Disconnected ''Could not connect to Server...''] @
               (if w_durationReporter w then [ReportDuration 0] else []), a)
          else
            let login = SendPacket (NetPacket_new (st_ver env) (st_upLogin env) (pt_code LoginRequest) 0);
                (_, ev2) = poll 30 10 (st_login env)
            in if \<not> st_loginAfter env then
                 (Some (ReturnType_str ''Could not Login to Server...''),
                  ev1 @ [login] @ ev2 @ [ToggleState Disconnected ''Could not Login to Server...''], a)
               else if \<not> st_endpointReturns env then
                 (None, ev1 @ [login] @ ev2 @ [ToggleState Connected '''', EndpointStart], a)
               else
                 let (ev3, w) = (if w_durationReporter w then ([TimerStart], w\<lparr>w_durationTimer := True\<rparr>)
                                 else ([], w));
                     (fin, ev4, w) = heartbeat_loop (st_ver env) (st_rounds env) w;
                     a = a\<lparr>aw_worker := w\<rparr>;
                     evs = ev1 @ [login] @ ev2 @ [ToggleState Connected '''', EndpointStart] @ ev3 @ ev4
                 in if \<not> fin then (None, evs, a)
                    else (Some (ReturnType_int 0),
                      evs @ [SendPacket (NetPacket_new (st_ver env) (st_upLogout env) (pt_code LogoutRequest) 0)], a))"

text \<open>
  The functions of the file that are equal to the desktop's, on the record of the Android worker:
  none of them reads the host or the port.
\<close>

definition Android_Worker_new ::
    "'e OpusEnc \<Rightarrow> 'w \<Rightarrow> timepoint \<Rightarrow> timepoint \<Rightarrow> timepoint option \<times> timepoint option \<Rightarrow> ('e, 'w) Android_Worker" where
  "Android_Worker_new enc lib nowIn nowOut statics =
     \<lparr>aw_worker = Worker_new enc lib nowIn nowOut statics, aw_host = [], aw_port = []\<rparr>"

definition Android_Worker_setDurationReporter :: "bool \<Rightarrow> ('e, 'w) Android_Worker \<Rightarrow> ('e, 'w) Android_Worker" where
  "Android_Worker_setDurationReporter reporter a = a\<lparr>aw_worker := Worker_setDurationReporter reporter (aw_worker a)\<rparr>"

definition Android_Worker_setMute :: "bool \<Rightarrow> ('e, 'w) Android_Worker \<Rightarrow> ('e, 'w) Android_Worker" where
  "Android_Worker_setMute mute a = a\<lparr>aw_worker := Worker_setMute mute (aw_worker a)\<rparr>"

definition Android_Worker_asyncStart :: "('e, 'w) Android_Worker \<Rightarrow> ('e, 'w) Android_Worker" where
  "Android_Worker_asyncStart a = a\<lparr>aw_worker := Worker_asyncStart (aw_worker a)\<rparr>"

definition Android_nsAecVolumeVadSend ::
    "('d, 'e) opus_ops \<Rightarrow> 'w webrtc_ops \<Rightarrow> send_clock \<Rightarrow> PcmSegment \<Rightarrow> ('e, 'w) Android_Worker \<Rightarrow>
     fault + worker_event list \<times> ('e, 'w) Android_Worker" where
  "Android_nsAecVolumeVadSend opus rtc ck buffer a =
     (case nsAecVolumeVadSend opus rtc ck buffer (aw_worker a) of
        Inl e \<Rightarrow> Inl e
      | Inr (evs, w) \<Rightarrow> Inr (evs, a\<lparr>aw_worker := w\<rparr>))"

definition Android_Worker_sendHeartbeat ::
    "u32 \<Rightarrow> u32 \<Rightarrow> timepoint \<times> timepoint \<times> timepoint \<Rightarrow> ('e, 'w) Android_Worker \<Rightarrow>
     worker_event list \<times> ('e, 'w) Android_Worker" where
  "Android_Worker_sendHeartbeat ver up clock a =
     (let (evs, w) = Worker_sendHeartbeat ver up clock (aw_worker a) in (evs, a\<lparr>aw_worker := w\<rparr>))"

definition Android_Worker_syncStop :: "('e, 'w) Android_Worker \<Rightarrow> worker_event list \<times> ('e, 'w) Android_Worker" where
  "Android_Worker_syncStop a = (let (evs, w) = Worker_syncStop (aw_worker a) in (evs, a\<lparr>aw_worker := w\<rparr>))"

definition Android_Worker_destroy ::
    "('e, 'w) Android_Worker \<Rightarrow> Profiler \<Rightarrow> worker_event list \<times> ('e, 'w) Android_Worker \<times> Profiler" where
  "Android_Worker_destroy a prof =
     (let (evs, w, prof) = Worker_destroy (aw_worker a) prof in (evs, a\<lparr>aw_worker := w\<rparr>, prof))"

text \<open>The host and the port of init reach the network client of every later start.\<close>

lemma Android_settings_kept:
  "Android_nsAecVolumeVadSend opus rtc ck buffer a = Inr (evs, a') \<Longrightarrow> aw_host a' = aw_host a \<and> aw_port a' = aw_port a"
  "aw_host (snd (Android_Worker_sendHeartbeat ver up clock a)) = aw_host a"
  "aw_host (snd (Android_Worker_syncStop a)) = aw_host a" "aw_port (snd (Android_Worker_syncStop a)) = aw_port a"
  by (auto simp: Android_nsAecVolumeVadSend_def Android_Worker_sendHeartbeat_def Android_Worker_syncStop_def
      Let_def split: sum.splits prod.splits)

subsection \<open>The Android worker is an instance of the desktop worker\<close>

definition android_config :: "string \<Rightarrow> string \<Rightarrow> config" where
  "android_config host port =
     \<lparr>cfg_needAec = Some True, cfg_audioOutDumpPath = Some '''', cfg_audioInStub = Some '''',
      cfg_needRealAudioEndpoint = Some True, cfg_protocol = Some ''raw_udp'', cfg_host = Some host,
      cfg_port = Some port\<rparr>"

text \<open>How the UDP client behaves, as the environment of the desktop worker's start-up.\<close>

definition android_env :: "string option \<Rightarrow> start_env \<Rightarrow> start_env" where
  "android_env failure env = env\<lparr>st_initThrows := failure, st_connected := \<lambda>_. True\<rparr>"

definition resolve_failure :: "(string \<Rightarrow> string \<Rightarrow> string + 'ep list) \<Rightarrow> string \<Rightarrow> string \<Rightarrow> string option" where
  "resolve_failure resolve host port = (case resolve host port of Inl what \<Rightarrow> Some what | Inr _ \<Rightarrow> None)"

lemma Android_init_eq:
  "Android_Worker_init opus env host port i v d a =
     (case Worker_init opus True env (android_config host port) i v d (aw_worker a) of
        (r, w) \<Rightarrow> (r, \<lparr>aw_worker = w, aw_host = host, aw_port = port\<rparr>))"
  by (cases a, cases "Worker_initCodec opus ((aw_worker a)\<lparr>w_needAec := True\<rparr>)")
    (simp add: Android_Worker_init_def Worker_init_def android_config_def get_or_def Let_def split: sum.split)

lemma Android_syncStart_eq:
  "Android_Worker_syncStart resolve env a =
     (case Worker_syncStart (android_env (resolve_failure resolve (aw_host a) (aw_port a)) env) (aw_worker a) of
        (r, evs, w) \<Rightarrow> (r, evs, a\<lparr>aw_worker := w\<rparr>))"
proof (cases "resolve (aw_host a) (aw_port a)")
  case (Inl what)
  then show ?thesis
    by (simp add: Android_Worker_syncStart_def Worker_syncStart_def RawUdpClient_init_def RawUdpClientImpl_new_def
        resolve_failure_def android_env_def Let_def)
next
  case (Inr eps)
  then show ?thesis
    by (simp add: Android_Worker_syncStart_def Worker_syncStart_def RawUdpClient_init_def RawUdpClientImpl_new_def
        RawUdpClient_isConnected_def resolve_failure_def android_env_def Let_def case_prod_beta)
qed

lemma poll_connected: "poll 10 10 (\<lambda>_. True) = (True, [])"
  by (simp add: numeral_eq_Suc)

lemma no_connect_failure:
  assumes "st_initThrows env = None \<Longrightarrow> st_connected env = (\<lambda>_. True)"
  shows "ToggleState Disconnected ''Could not connect to Server...'' \<notin> set (fst (snd (Worker_syncStart env w)))"
proof (cases "st_initThrows env")
  case None
  obtain l ev2 where l: "poll 30 10 (st_login env) = (l, ev2)" by fastforce
  have ev2: "set ev2 \<subseteq> {SleepMs 30}"
    using poll_events [of 30 10 "st_login env"] by (simp add: l)
  let ?w = "w\<lparr>w_gotoStop := False\<rparr>"
  obtain fin ev4 w4 where h: "heartbeat_loop (st_ver env) (st_rounds env)
      (if w_durationReporter w then ?w\<lparr>w_durationTimer := True\<rparr> else ?w) = (fin, ev4, w4)"
    by (metis surj_pair)
  have "\<forall>s m. ToggleState s m \<notin> set ev4"
    using heartbeat_loop_events [OF h] by blast
  then show ?thesis
    using ev2 h None assms by (auto simp: Worker_syncStart_def poll_connected l Let_def split: if_splits)
qed (simp add: Worker_syncStart_def)

text \<open>
  C40: the Android worker is an instance of the desktop worker. Its init does what the desktop's does with
  a configuration that fixes the echo canceller, the endpoint and the UDP protocol, and its
  syncStart what the desktop's does in the environment that the UDP client makes: so all that is shown of
  the worker holds for it. Since the UDP client is always connected, its start-up
  never reports that it could not connect.
\<close>
theorem android_worker_equivalent:
  "Android_Worker_init opus env host port i v d a =
     (case Worker_init opus True env (android_config host port) i v d (aw_worker a) of
        (r, w) \<Rightarrow> (r, \<lparr>aw_worker = w, aw_host = host, aw_port = port\<rparr>)) \<and>
   Android_Worker_syncStart resolve senv b =
     (case Worker_syncStart (android_env (resolve_failure resolve (aw_host b) (aw_port b)) senv) (aw_worker b) of
        (r, evs, w) \<Rightarrow> (r, evs, b\<lparr>aw_worker := w\<rparr>)) \<and>
   ToggleState Disconnected ''Could not connect to Server...'' \<notin>
     set (fst (snd (Android_Worker_syncStart resolve senv b)))"
proof (intro conjI)
  show "ToggleState Disconnected ''Could not connect to Server...'' \<notin>
      set (fst (snd (Android_Worker_syncStart resolve senv b)))"
    using no_connect_failure [of "android_env (resolve_failure resolve (aw_host b) (aw_port b)) senv" "aw_worker b"]
    by (simp add: Android_syncStart_eq android_env_def case_prod_beta)
qed (rule Android_init_eq Android_syncStart_eq)+

end
