(* ===== verification/Main_Window.thy ===== *)
theory Main_Window
  imports Worker
begin

text \<open>
  The window of the desktop client (client_qt5/mainwindow.hpp, mainwindow.cpp).

  Qt is a library: a widget is the part of its state that the window sets, and the event queue of
  Qt is the list posted of the events posted so far and not yet delivered. A function that
  the code runs on any thread gets a flag that says whether it is the main thread. Images are the names of
  their resources; the placement of a rectangle in another is a function of Qt.
\<close>

datatype pixmap = BarFull | BarEmpty | BarHalfFull
datatype call_icon = CallUp | HangUp

datatype key = Key_F1 | Key_F2 | Key_Other

datatype ui_event =
    KeyPress key
  | AudioVolumeEvent AudioIoVolume
  | VadEvent bool
  | NetworkStateEvent NetworkState
  | ShowTextMessageEvent string
  | SetDurationEvent u32

datatype line_edit = ServerHost | ServerPort

text \<open>A rectangle: left, top, width and height.\<close>

type_synonym rect = "int \<times> int \<times> nat \<times> nat"

record MainWindow =
  hostText :: string
  portText :: string
  hostEnabled :: bool
  portEnabled :: bool
  aecEnabled :: bool
  aecChecked :: bool
  buttonEnabled :: bool
  buttonText :: string
  buttonIcon :: call_icon
  micMuteChecked :: bool
  bars_in :: "pixmap list"
  bars_out :: "pixmap list"
  vadText :: string
  durationText :: string
  statusBar :: "string option"
  detailsVisible :: bool
  windowTitle :: string
  leftTop :: "int \<times> int"
  fixedWidth :: nat
  fixedHeight :: nat
  micImage :: "string option"
  speakerImage :: "string option"
  imagesScaled :: bool
  barsScaled :: bool
  toolTip_host :: string
  toolTip_port :: string
  toolTip_mute :: string
  returnClicks :: "line_edit list"
  currentUiState :: NetworkState
  advancedMode :: bool
  hasWorker :: bool
  root :: config
  posted :: "ui_event list"
  helpOpened :: nat

definition postEvent :: "ui_event \<Rightarrow> MainWindow \<Rightarrow> MainWindow" where
  "postEvent e s = s\<lparr>posted := posted s @ [e]\<rparr>"

subsection \<open>The handlers that any thread may call\<close>

definition onNetworkChanged :: "bool \<Rightarrow> NetworkState \<Rightarrow> MainWindow \<Rightarrow> MainWindow" where
  "onNetworkChanged mainThread networkState s =
     (if mainThread then
        let s = (case networkState of
              Disconnected \<Rightarrow>
                postEvent (SetDurationEvent 0)
                  (s\<lparr>hostEnabled := True, portEnabled := True, aecEnabled := True, buttonEnabled := True,
                     buttonText := ''Connect!'', buttonIcon := CallUp\<rparr>)
            | Connecting \<Rightarrow>
                s\<lparr>hostEnabled := False, portEnabled := False, aecEnabled := False, buttonEnabled := False,
                  buttonText := ''Connecting...''\<rparr>
            | Connected \<Rightarrow>
                s\<lparr>hostEnabled := False, portEnabled := False, aecEnabled := False, buttonEnabled := True,
                  buttonIcon := HangUp, buttonText := ''Disconnect!''\<rparr>)
        in s\<lparr>currentUiState := networkState\<rparr>
      else postEvent (NetworkStateEvent networkState) s)"

text \<open>The bars: an index past the ten labels is an access out of bounds.\<close>

definition draw_bars :: "AudioIoVolume \<Rightarrow> pixmap list \<Rightarrow> fault + pixmap list" where
  "draw_bars aivl labels =
     (let labels = map (\<lambda>i. if int i < uint (level aivl) then BarHalfFull else BarEmpty) [0..<MAX_VOLUME_LEVEL]
      in if recentMaxLevel aivl > level aivl then
           if unat (recentMaxLevel aivl) < MAX_VOLUME_LEVEL
           then Inr (labels[unat (recentMaxLevel aivl) := BarFull]) else Inl OutOfBounds
         else Inr labels)"

definition onVolumeChanged :: "bool \<Rightarrow> AudioIoVolume \<Rightarrow> MainWindow \<Rightarrow> fault + MainWindow" where
  "onVolumeChanged mainThread aivl s =
     (if mainThread then
        (case io aivl of
           In \<Rightarrow> map_sum id (\<lambda>b. s\<lparr>bars_in := b\<rparr>) (draw_bars aivl (bars_in s))
         | Out \<Rightarrow> map_sum id (\<lambda>b. s\<lparr>bars_out := b\<rparr>) (draw_bars aivl (bars_out s)))
      else Inr (postEvent (AudioVolumeEvent aivl) s))"

definition onVad :: "bool \<Rightarrow> bool \<Rightarrow> MainWindow \<Rightarrow> MainWindow" where
  "onVad mainThread isActive s =
     (if mainThread then s\<lparr>vadText := (if isActive then ''active'' else ''inactive'')\<rparr>
      else postEvent (VadEvent isActive) s)"

definition showMessage :: "bool \<Rightarrow> string \<Rightarrow> MainWindow \<Rightarrow> MainWindow" where
  "showMessage mainThread message s =
     (if mainThread then
        (if message = [] then s\<lparr>statusBar := None\<rparr> else s\<lparr>statusBar := Some message\<rparr>)
      else postEvent (ShowTextMessageEvent message) s)"

definition toggleAdvancedMode :: "bool \<Rightarrow> MainWindow \<Rightarrow> MainWindow" where
  "toggleAdvancedMode newMode s =
     s\<lparr>advancedMode := newMode, detailsVisible := newMode, fixedWidth := (if newMode then 600 else 300)\<rparr>"

subsection \<open>Events\<close>

text \<open>The text of a duration: hours, minutes and seconds, each padded to two digits.\<close>

definition getter :: "u32 \<Rightarrow> string" where
  "getter v = (let t = nat_to_string (unat v) in replicate (2 - length t) (CHR ''0'') @ t)"

definition duration_string :: "u32 \<Rightarrow> string" where
  "duration_string d =
     (if d = 0 then ''''
      else
        let s = d mod 60; m = (d div 60) mod 60; h = d div 3600
        in ''['' @ getter h @ '':'' @ getter m @ '':'' @ getter s @ '']'')"

definition MainWindow_event :: "ui_event \<Rightarrow> MainWindow \<Rightarrow> fault + MainWindow" where
  "MainWindow_event e s =
     (case e of
        KeyPress k \<Rightarrow>
          (case k of
             Key_F1 \<Rightarrow> Inr (s\<lparr>helpOpened := helpOpened s + 1\<rparr>)
           | Key_F2 \<Rightarrow> Inr (toggleAdvancedMode (\<not> advancedMode s) s)
           | Key_Other \<Rightarrow> Inr s)
      | AudioVolumeEvent v \<Rightarrow>
          if io v = In \<and> micMuteChecked s then Inr s else onVolumeChanged True v s
      | VadEvent isActive \<Rightarrow> Inr (onVad True isActive s)
      | NetworkStateEvent st \<Rightarrow> Inr (onNetworkChanged True st s)
      | ShowTextMessageEvent m \<Rightarrow> Inr (showMessage True m s)
      | SetDurationEvent d \<Rightarrow> Inr (s\<lparr>durationText := duration_string d\<rparr>))"

subsection \<open>Slots\<close>

definition trimmed :: "string \<Rightarrow> string" where
  "trimmed t = rev (dropWhile is_space (rev (dropWhile is_space t)))"

text \<open>
  gotoWork runs init and starts the network thread; init is an argument that maps the
  configuration to its outcome. A message thrown as a string is no std::exception: it leaves the slot.
\<close>

definition gotoWork :: "(config \<Rightarrow> ReturnType outcome) \<Rightarrow> MainWindow \<Rightarrow> string + MainWindow" where
  "gotoWork init s =
     (let s = onNetworkChanged True Connecting s;
          s = s\<lparr>hostText := trimmed (hostText s)\<rparr>;
          s = s\<lparr>portText := trimmed (portText s)\<rparr>;
          s = s\<lparr>root := (root s)\<lparr>cfg_host := Some (hostText s), cfg_port := Some (portText s),
                  cfg_protocol := Some ''raw_udp''\<rparr>\<rparr>;
          s = s\<lparr>hasWorker := True\<rparr>;
          s = s\<lparr>root := (root s)\<lparr>cfg_needAec := Some (aecChecked s)\<rparr>\<rparr>
      in case init (root s) of
           Throws what \<Rightarrow> Inl what
         | Faults e \<Rightarrow> Inl ''undefined behaviour''
         | Returns ret \<Rightarrow> if \<not> ok ret then Inl (errorMessage ret) else Inr s)"

definition on_pushButton_connecting_clicked ::
    "(config \<Rightarrow> ReturnType outcome) \<Rightarrow> MainWindow \<Rightarrow> string + MainWindow" where
  "on_pushButton_connecting_clicked init s =
     (case currentUiState s of
        Disconnected \<Rightarrow> gotoWork init s
      | Connected \<Rightarrow>
          let s = (if hasWorker s then s\<lparr>hasWorker := False\<rparr> else s)
          in Inr (onNetworkChanged True Disconnected s)
      | _ \<Rightarrow> Inr s)"

text \<open>
  The return key in a line edit is connected to the click of the button. A disabled line edit gets no key,
  and the click of a disabled button does nothing.
\<close>

definition edit_enabled :: "line_edit \<Rightarrow> MainWindow \<Rightarrow> bool" where
  "edit_enabled l s = (case l of ServerHost \<Rightarrow> hostEnabled s | ServerPort \<Rightarrow> portEnabled s)"

definition returnPressed ::
    "(config \<Rightarrow> ReturnType outcome) \<Rightarrow> line_edit \<Rightarrow> MainWindow \<Rightarrow> string + MainWindow" where
  "returnPressed init l s =
     (if edit_enabled l s \<and> l \<in> set (returnClicks s) \<and> buttonEnabled s
      then on_pushButton_connecting_clicked init s else Inr s)"

text \<open>The slot sees the new state of the button; the worker is told the same.\<close>

definition on_toggleButton_micMute_clicked :: "bool \<Rightarrow> MainWindow \<Rightarrow> fault + MainWindow \<times> bool option" where
  "on_toggleButton_micMute_clicked checked s =
     (let s = s\<lparr>micMuteChecked := checked\<rparr>;
          muted = (if hasWorker s then Some checked else None)
      in if checked
         then map_sum id (\<lambda>s. (s, muted)) (onVolumeChanged True \<lparr>io = In, level = 0, recentMaxLevel = 0\<rparr> s)
         else Inr (s, muted))"

text \<open>
  The click on Connected calls syncStop of the worker and waits for it, as the destructor of the window does: the state after
  it is one in which the worker has stopped (theory Worker_Threads says when that is).
\<close>

text \<open>The function that the network thread of the worker calls.\<close>

definition worker_toggleState :: "NetworkState \<Rightarrow> string \<Rightarrow> MainWindow \<Rightarrow> MainWindow" where
  "worker_toggleState newState extraMessage s =
     onNetworkChanged False newState (showMessage False extraMessage s)"

subsection \<open>Construction and destruction\<close>

text \<open>
  The settings file is a text, None when it cannot be opened. Boost turns a text into a tree, or throws, and a tree into a
  text; an exception of the reader leaves the tree as it was.
\<close>

record json_ops =
  read_json :: "string \<Rightarrow> string + config"
  write_json :: "config \<Rightarrow> string"

definition load_settings :: "json_ops \<Rightarrow> string option \<Rightarrow> MainWindow \<Rightarrow> MainWindow" where
  "load_settings json file s =
     (case file of
        None \<Rightarrow> s
      | Some t \<Rightarrow>
          (case read_json json t of
             Inl what \<Rightarrow> s
           | Inr cfg \<Rightarrow>
               s\<lparr>root := cfg,
                 hostText := get_or (cfg_host cfg) ''127.0.0.1'',
                 portText := get_or (cfg_port cfg) ''80''\<rparr>))"

definition init_state :: "MainWindow \<Rightarrow> fault + MainWindow" where
  "init_state s =
     (case onVolumeChanged True \<lparr>io = In, level = 0, recentMaxLevel = 0\<rparr> s of
        Inl e \<Rightarrow> Inl e
      | Inr s \<Rightarrow>
          (case onVolumeChanged True \<lparr>io = Out, level = 0, recentMaxLevel = 0\<rparr> s of
             Inl e \<Rightarrow> Inl e
           | Inr s \<Rightarrow>
               Inr (showMessage True ''F1: help    F2: toggle mode (advanced/easy mode)''
                 (toggleAdvancedMode False (onNetworkChanged True Disconnected s)))))"

text \<open>The constructor puts the window into the middle of the screen and fixes its size there.\<close>

definition place_window :: "(nat \<times> nat \<Rightarrow> rect \<Rightarrow> rect) \<Rightarrow> rect \<Rightarrow> MainWindow \<Rightarrow> MainWindow" where
  "place_window alignedRect available s =
     (case alignedRect (fixedWidth s, fixedHeight s) available of
        (x, y, w, h) \<Rightarrow> s\<lparr>leftTop := (x, y), fixedWidth := w, fixedHeight := h\<rparr>)"

definition label_images :: "MainWindow \<Rightarrow> MainWindow" where
  "label_images s =
     s\<lparr>micImage := Some '':/microphone.png'', speakerImage := Some '':/speaker.png'', imagesScaled := True\<rparr>"

text \<open>The two rows of ten labels; what they show is drawn by the first change of the volume.\<close>

definition bar_labels :: "pixmap list \<Rightarrow> pixmap list \<Rightarrow> MainWindow \<Rightarrow> MainWindow" where
  "bar_labels ain aout s =
     s\<lparr>bars_in := take MAX_VOLUME_LEVEL ain, bars_out := take MAX_VOLUME_LEVEL aout, barsScaled := True\<rparr>"

definition tool_tips :: "MainWindow \<Rightarrow> MainWindow" where
  "tool_tips s =
     s\<lparr>toolTip_host := ''example: your.server.com'' @ [CHR 0x0A] @ '' or:      12.45.67.89'',
       toolTip_port := ''your server'' @ [CHR 0x27] @ ''s port number'', toolTip_mute := ''Mute Microphone!''\<rparr>"

definition connect_return :: "MainWindow \<Rightarrow> MainWindow" where
  "connect_return s = s\<lparr>returnClicks := [ServerHost, ServerPort]\<rparr>"

definition window_title :: "string option \<Rightarrow> string" where
  "window_title git_tag =
     (case git_tag of None \<Rightarrow> ''EasyVoiceCall'' | Some t \<Rightarrow> ''EasyVoiceCall'' @ '' '' @ t)"

definition MainWindow_new ::
    "json_ops \<Rightarrow> (nat \<times> nat \<Rightarrow> rect \<Rightarrow> rect) \<Rightarrow> rect \<Rightarrow> string option \<Rightarrow> string option \<Rightarrow> MainWindow \<Rightarrow>
     fault + MainWindow" where
  "MainWindow_new json alignedRect available git_tag file designed =
     (let s = load_settings json file designed;
          s = place_window alignedRect available s;
          s = label_images s;
          s = bar_labels (bars_in s) (bars_out s) s;
          s = connect_return (tool_tips s)
      in map_sum id (\<lambda>s. s\<lparr>windowTitle := window_title git_tag\<rparr>) (init_state s))"

text \<open>
  The destructor stops the worker, if there is one, and waits for it: while that has not returned, and it need not,
  nothing is written and the result is None. Then the settings go into the file, if it opens for reading and writing: what the
  file holds, if it parses, replaces the tree first; a file that did not exist is empty then. The inner result is what is written.
\<close>

definition MainWindow_destroy ::
    "bool \<Rightarrow> bool \<Rightarrow> json_ops \<Rightarrow> string option \<Rightarrow> MainWindow \<Rightarrow> string option option" where
  "MainWindow_destroy stops opens json file s =
     (if hasWorker s \<and> \<not> stops then None
      else if opens then
        let t = (case file of Some t \<Rightarrow> t | None \<Rightarrow> []);
            tree = (case read_json json t of Inr cfg \<Rightarrow> cfg | Inl what \<Rightarrow> root s)
        in Some (Some (write_json json (tree\<lparr>cfg_host := Some (hostText s), cfg_port := Some (portText s)\<rparr>)))
      else Some None)"

text \<open>The log file that the main function opens in the folder of the settings, by the local time.\<close>

definition log_file_name :: "string \<Rightarrow> int \<Rightarrow> int \<Rightarrow> int \<Rightarrow> int \<Rightarrow> int \<Rightarrow> int \<Rightarrow> string" where
  "log_file_name folder tm_year tm_mon tm_mday tm_hour tm_min tm_sec =
     folder @ ''/'' @ ''EasyVoiceCall'' @ ''.'' @ int_to_string (tm_year + 1900) @ ''.'' @
     int_to_string (tm_mon + 1) @ ''.'' @ int_to_string tm_mday @ ''.'' @ int_to_string tm_hour @ ''.'' @
     int_to_string tm_min @ ''.'' @ int_to_string tm_sec @ ''.log''"

text \<open>
  What the designer file (mainwindow.ui) gives the window before the constructor runs; a bar without an image
  counts as an empty one.
\<close>

definition designed_window :: MainWindow where
  "designed_window =
     \<lparr>hostText = [], portText = ''80'', hostEnabled = True, portEnabled = True, aecEnabled = True,
      aecChecked = False, buttonEnabled = True, buttonText = [], buttonIcon = CallUp,
      micMuteChecked = False, bars_in = replicate 10 BarEmpty, bars_out = replicate 10 BarEmpty,
      vadText = [], durationText = [], statusBar = None, detailsVisible = True, windowTitle = ''Easy Voice Call'',
      leftTop = (0, 0), fixedWidth = 600, fixedHeight = 339, micImage = None, speakerImage = None,
      imagesScaled = False, barsScaled = False, toolTip_host = [], toolTip_port = [], toolTip_mute = [],
      returnClicks = [], currentUiState = Disconnected,
      advancedMode = True, hasWorker = False,
      root = \<lparr>cfg_needAec = None, cfg_audioOutDumpPath = None, cfg_audioInStub = None,
        cfg_needRealAudioEndpoint = None, cfg_protocol = None, cfg_host = None, cfg_port = None\<rparr>,
      posted = [], helpOpened = 0\<rparr>"

subsection \<open>The volume bars\<close>

lemma int_less_uint: "int i < uint l \<longleftrightarrow> i < unat l"
  using of_nat_less_iff [of i "unat l", where 'a = int] by simp

lemma draw_bars_in_range:
  assumes "level v \<le> 9" and "recentMaxLevel v \<le> 9"
  shows "\<exists>bars. draw_bars v old = Inr bars \<and> length bars = 10 \<and>
    (\<forall>i < 10. bars ! i =
      (if level v < recentMaxLevel v \<and> i = unat (recentMaxLevel v) then BarFull
       else if i < unat (level v) then BarHalfFull else BarEmpty))"
proof -
  let ?l = "map (\<lambda>i. if i < unat (level v) then BarHalfFull else BarEmpty) [0..<10]"
  have r: "unat (recentMaxLevel v) < 10"
    using assms(2) by (simp add: word_le_nat_alt)
  have d: "draw_bars v old =
      Inr (if level v < recentMaxLevel v then ?l[unat (recentMaxLevel v) := BarFull] else ?l)"
    using r by (simp only: draw_bars_def MAX_VOLUME_LEVEL_def Let_def int_less_uint if_True split: if_splits) simp
  show ?thesis
    unfolding d using r by (cases "level v < recentMaxLevel v") (simp_all add: nth_list_update)
qed

text \<open>
  The bars of the window fit the meter. Every volume that a peak meter reports, whose held level was
  at most 9 as it is from the start, is drawn without leaving the ten labels: the bars below the
  level are half full, the bar at a higher held level is full, all others are empty.
\<close>
lemma bars_fit_meter:
  assumes "AudioVolumeMeter_Peak_calculate seg clock m = (m', v)" and "pk_recentMaxLevel m \<le> 9"
  shows "\<exists>bars. draw_bars v old = Inr bars \<and> length bars = 10 \<and> pk_recentMaxLevel m' \<le> 9 \<and>
    (\<forall>i < 10. bars ! i =
      (if level v < recentMaxLevel v \<and> i = unat (recentMaxLevel v) then BarFull
       else if i < unat (level v) then BarHalfFull else BarEmpty))"
proof -
  have h: "pk_recentMaxLevel m' \<le> 9" "recentMaxLevel v = pk_recentMaxLevel m'"
    using peak_meter.held_le_9(1) [OF TrueI assms(2), of seg clock]
      peak_meter.reports_held [of seg clock m] assms(1) by simp_all
  moreover have "level v \<le> recentMaxLevel v"
    using peak_meter.held_le_9(2) [OF TrueI assms(2), of seg clock] assms(1) by simp
  ultimately show ?thesis
    using draw_bars_in_range [of v old] by (auto intro: order_trans)
qed

lemma bars_fit_meter_witness:
  "\<exists>m' v bars. AudioVolumeMeter_Peak_calculate [16384] (5, 6, 7) (AudioVolumeMeter_Peak_new In 0) = (m', v) \<and>
     draw_bars v [] = Inr bars \<and> length bars = 10"
proof -
  obtain m' v where c: "AudioVolumeMeter_Peak_calculate [16384] (5, 6, 7) (AudioVolumeMeter_Peak_new In 0) = (m', v)"
    by fastforce
  have "pk_recentMaxLevel (AudioVolumeMeter_Peak_new In 0) \<le> 9"
    by (simp add: AudioVolumeMeter_Peak_new_def)
  from bars_fit_meter [OF c this, of "[]"] c show ?thesis
    by blast
qed

subsection \<open>The duration\<close>

lemma length_getter: "unat v < 100 \<Longrightarrow> length (getter v) = 2"
  using length_nat_to_string_2 [of "unat v"] by (simp add: getter_def Let_def)

lemma digits_value_zeros: "digits_value 0 (replicate n (CHR ''0'') @ t) = digits_value 0 t"
  by (induction n) (simp_all add: digits_value_append)

lemma digits_value_getter: "digits_value 0 (getter v) = unat v"
  by (simp add: getter_def Let_def digits_value_zeros digits_value_nat_to_string)

lemma hours_minutes_seconds: "3600 * (n div 3600) + 60 * (n div 60 mod 60) + n mod 60 = (n :: nat)"
proof -
  have "n div 3600 = n div 60 div 60"
    by (simp add: div_mult2_eq [symmetric])
  moreover have "60 * (n div 60) + n mod 60 = n" "60 * (n div 60 div 60) + n div 60 mod 60 = n div 60"
    by (simp_all only: mult_div_mod_eq)
  ultimately show ?thesis
    by linarith
qed

text \<open>
  The duration shown. Zero is shown as nothing; any other number d of seconds is shown as
  three decimal numbers h, m, s in brackets, separated by colons, with d = 3600 h + 60 m + s, m and
  s below 60 and of two digits.
\<close>
lemma duration_roundtrip:
  assumes "d \<noteq> 0"
  shows "\<exists>h m s. duration_string d = ''['' @ h @ '':'' @ m @ '':'' @ s @ '']'' \<and>
    length m = 2 \<and> length s = 2 \<and> digits_value 0 m < 60 \<and> digits_value 0 s < 60 \<and>
    3600 * digits_value 0 h + 60 * digits_value 0 m + digits_value 0 s = unat d"
proof -
  let ?h = "getter (d div 3600)" and ?m = "getter ((d div 60) mod 60)" and ?s = "getter (d mod 60)"
  have u: "unat (d mod 60) = unat d mod 60" "unat ((d div 60) mod 60) = unat d div 60 mod 60"
    "unat (d div 3600) = unat d div 3600"
    by (simp_all add: unat_mod_distrib unat_div_distrib)
  have two: "length ?s = 2" "length ?m = 2"
    by (rule length_getter, simp add: u less_trans [OF mod_less_divisor])+
  have v: "digits_value 0 ?h = unat d div 3600" "digits_value 0 ?m = unat d div 60 mod 60"
    "digits_value 0 ?s = unat d mod 60"
    by (simp_all only: digits_value_getter u)
  have "unat d div 60 mod 60 < 60" "unat d mod 60 < 60"
    "3600 * (unat d div 3600) + 60 * (unat d div 60 mod 60) + unat d mod 60 = unat d"
    by (simp_all add: hours_minutes_seconds)
  moreover have "duration_string d = ''['' @ ?h @ '':'' @ ?m @ '':'' @ ?s @ '']''"
    using assms by (simp only: duration_string_def Let_def if_False)
  ultimately have "duration_string d = ''['' @ ?h @ '':'' @ ?m @ '':'' @ ?s @ '']'' \<and>
    length ?m = 2 \<and> length ?s = 2 \<and> digits_value 0 ?m < 60 \<and> digits_value 0 ?s < 60 \<and>
    3600 * digits_value 0 ?h + 60 * digits_value 0 ?m + digits_value 0 ?s = unat d"
    by (simp only: two v simp_thms)
  then show ?thesis
    by blast
qed

lemma duration_roundtrip_witness:
  "\<exists>h m s. duration_string 3725 = ''['' @ h @ '':'' @ m @ '':'' @ s @ '']'' \<and>
     3600 * digits_value 0 h + 60 * digits_value 0 m + digits_value 0 s = 3725"
  using duration_roundtrip [of 3725] by auto

end
