(* ===== verification/Ui_Session.thy ===== *)
theory Ui_Session
  imports Main_Window Worker_Lifecycle
begin

text \<open>
  The window together with its worker (client_qt5/mainwindow.cpp with client_essential/Worker.cpp):
  the callbacks of the worker's threads post events, the main thread delivers them in order, and
  the user clicks and types. The events of the network thread are those of syncStart; they are
  performed one at a time, interleaved in any way with the deliveries, the user's actions and the reports of the
  worker's other threads. The volumes are those that the two meters of the worker calculate, of any blocks at any times.
\<close>

subsection \<open>The callbacks\<close>

definition ui_perform :: "worker_event \<Rightarrow> MainWindow \<Rightarrow> MainWindow" where
  "ui_perform e s =
     (case e of
        ToggleState st m \<Rightarrow> worker_toggleState st m s
      | ReportVolume v \<Rightarrow> (case onVolumeChanged False v s of Inr s' \<Rightarrow> s' | Inl _ \<Rightarrow> s)
      | ReportVad b \<Rightarrow> onVad False b s
      | ReportDuration d \<Rightarrow> postEvent (SetDurationEvent d) s
      | _ \<Rightarrow> s)"

text \<open>
  pending is what the network thread has still to do; resolved says whether the network client of
  the current worker came up without an exception; meters are the volume meters of the current worker, for the microphone
  and for the loudspeaker (of no effect while there is none).
\<close>

record session =
  win :: MainWindow
  pending :: "worker_event list"
  resolved :: bool
  meters :: "AudioVolumeMeter_Peak \<times> AudioVolumeMeter_Peak"

inductive ui_progress :: "session \<Rightarrow> session \<Rightarrow> bool" where
  network: "pending s = e # es \<Longrightarrow> ui_progress s (s\<lparr>win := ui_perform e (win s), pending := es\<rparr>)"
| deliver: "posted (win s) = e # es \<Longrightarrow> MainWindow_event e ((win s)\<lparr>posted := es\<rparr>) = Inr m \<Longrightarrow>
    ui_progress s (s\<lparr>win := m\<rparr>)"

text \<open>
  A click on Connect destroys the previous worker, whose destructor waits for its network thread:
  what it had still to do is done before. A click on Disconnect waits for the thread too. A click
  whose slot leaves by an exception ends the program: there is no next state.
\<close>

inductive ui_step :: "('d, 'e) opus_ops \<Rightarrow> 'w \<Rightarrow> session \<Rightarrow> session \<Rightarrow> bool" for opus lib where
  progress: "ui_progress s s' \<Longrightarrow> ui_step opus lib s s'"
| connect: "buttonEnabled (win s) \<Longrightarrow> currentUiState (win s) = Disconnected \<Longrightarrow>
    on_pushButton_connecting_clicked
      (\<lambda>cfg. fst (Worker_init opus False env cfg True True True (Worker_new enc lib t u statics)))
      (fold ui_perform (pending s) (win s)) = Inr m \<Longrightarrow>
    Worker_init opus False env (root m) True True True (Worker_new enc lib t u statics) = (ret, w) \<Longrightarrow>
    Worker_syncStart senv (Worker_asyncStart (Worker_setDurationReporter True w)) = (res, evs, w') \<Longrightarrow>
    ui_step opus lib s \<lparr>win = m, pending = evs, resolved = (st_initThrows senv = None),
      meters = (w_volumeMeterIn w', w_volumeMeterOut w')\<rparr>"
| disconnect: "buttonEnabled (win s) \<Longrightarrow> currentUiState (win s) = Connected \<Longrightarrow>
    on_pushButton_connecting_clicked init (fold ui_perform (pending s) (win s)) = Inr m \<Longrightarrow>
    ui_step opus lib s (s\<lparr>win := m, pending := []\<rparr>)"
| volume_in: "hasWorker (win s) \<Longrightarrow> AudioVolumeMeter_Peak_calculate seg clock (fst (meters s)) = (vm, v) \<Longrightarrow>
    ui_step opus lib s (s\<lparr>win := ui_perform (ReportVolume v) (win s), meters := (vm, snd (meters s))\<rparr>)"
| volume_out: "hasWorker (win s) \<Longrightarrow> AudioVolumeMeter_Peak_calculate seg clock (snd (meters s)) = (vm, v) \<Longrightarrow>
    ui_step opus lib s (s\<lparr>win := ui_perform (ReportVolume v) (win s), meters := (fst (meters s), vm)\<rparr>)"
| report: "hasWorker (win s) \<Longrightarrow> e \<in> range ReportVad \<union> range ReportDuration \<Longrightarrow>
    ui_step opus lib s (s\<lparr>win := ui_perform e (win s)\<rparr>)"
| key: "MainWindow_event (KeyPress k) (win s) = Inr m \<Longrightarrow> ui_step opus lib s (s\<lparr>win := m\<rparr>)"
| mute: "on_toggleButton_micMute_clicked checked (win s) = Inr (m, told) \<Longrightarrow> ui_step opus lib s (s\<lparr>win := m\<rparr>)"
| edit_host: "hostEnabled (win s) \<Longrightarrow> ui_step opus lib s (s\<lparr>win := (win s)\<lparr>hostText := t\<rparr>\<rparr>)"
| edit_port: "portEnabled (win s) \<Longrightarrow> ui_step opus lib s (s\<lparr>win := (win s)\<lparr>portText := t\<rparr>\<rparr>)"

inductive_cases ui_progressE: "ui_progress s s'"
inductive_cases ui_stepE: "ui_step opus lib s s'"

definition no_meters :: "AudioVolumeMeter_Peak \<times> AudioVolumeMeter_Peak" where
  "no_meters = (AudioVolumeMeter_Peak_new In 0, AudioVolumeMeter_Peak_new Out 0)"

inductive ui_reachable :: "('d, 'e) opus_ops \<Rightarrow> 'w \<Rightarrow> session \<Rightarrow> bool" for opus lib where
  start: "MainWindow_new json alignedRect available git_tag file designed_window = Inr m \<Longrightarrow>
    ui_reachable opus lib \<lparr>win = m, pending = [], resolved = True, meters = no_meters\<rparr>"
| step: "ui_reachable opus lib s \<Longrightarrow> ui_step opus lib s s' \<Longrightarrow> ui_reachable opus lib s'"

subsection \<open>The invariant\<close>

text \<open>
  The tokens are the changes of the network state that the worker still owes to the window:
  queued ones and those the network thread has still to report.
\<close>

fun queued :: "ui_event list \<Rightarrow> NetworkState list" where
  "queued [] = []"
| "queued (NetworkStateEvent st # es) = st # queued es"
| "queued (_ # es) = queued es"

definition tokens :: "session \<Rightarrow> NetworkState list" where
  "tokens s = queued (posted (win s)) @ map fst (toggles (pending s))"

definition widgets_ok :: "MainWindow \<Rightarrow> bool" where
  "widgets_ok m \<longleftrightarrow>
     hostEnabled m = (currentUiState m = Disconnected) \<and> portEnabled m = (currentUiState m = Disconnected) \<and>
     aecEnabled m = (currentUiState m = Disconnected) \<and> buttonEnabled m = (currentUiState m \<noteq> Connecting) \<and>
     (currentUiState m \<noteq> Disconnected \<longrightarrow> hasWorker m) \<and>
     (\<forall>v. AudioVolumeEvent v \<in> set (posted m) \<longrightarrow> level v \<le> 9 \<and> recentMaxLevel v \<le> 9)"

definition meters_ok :: "AudioVolumeMeter_Peak \<times> AudioVolumeMeter_Peak \<Rightarrow> bool" where
  "meters_ok ms \<longleftrightarrow> pk_recentMaxLevel (fst ms) \<le> 9 \<and> pk_recentMaxLevel (snd ms) \<le> 9"

definition ui_inv :: "session \<Rightarrow> bool" where
  "ui_inv s \<longleftrightarrow> widgets_ok (win s) \<and> meters_ok (meters s) \<and> (\<forall>v. ReportVolume v \<notin> set (pending s)) \<and>
     (if currentUiState (win s) = Connecting \<and> resolved s
      then tokens s \<in> {[Connected], [Disconnected]} else tokens s = [])"

named_theorems ui_defs

lemmas [ui_defs] = ui_perform_def worker_toggleState_def onVad_def onVolumeChanged_def showMessage_def
  onNetworkChanged_def postEvent_def

lemma queued_append [simp]: "queued (xs @ ys) = queued xs @ queued ys"
  by (induction xs rule: queued.induct) simp_all

lemma ui_perform_fields [simp]:
  "currentUiState (ui_perform e m) = currentUiState m" "hostEnabled (ui_perform e m) = hostEnabled m"
  "portEnabled (ui_perform e m) = portEnabled m" "aecEnabled (ui_perform e m) = aecEnabled m"
  "buttonEnabled (ui_perform e m) = buttonEnabled m" "hasWorker (ui_perform e m) = hasWorker m"
  by (simp_all add: ui_defs split: worker_event.split)

lemma ui_perform_posted:
  "queued (posted (ui_perform e m)) = queued (posted m) @ map fst (toggles [e])"
  "AudioVolumeEvent v \<in> set (posted (ui_perform e m)) \<longleftrightarrow> AudioVolumeEvent v \<in> set (posted m) \<or> e = ReportVolume v"
  by (auto simp: ui_defs split: worker_event.split)

lemma fold_perform:
  "widgets_ok m \<Longrightarrow> (\<And>v. ReportVolume v \<notin> set es) \<Longrightarrow>
   widgets_ok (fold ui_perform es m) \<and> currentUiState (fold ui_perform es m) = currentUiState m \<and>
   queued (posted (fold ui_perform es m)) = queued (posted m) @ map fst (toggles es)"
proof (induction es arbitrary: m)
  case (Cons e es)
  have "widgets_ok (ui_perform e m)"
    using Cons.prems by (auto simp: widgets_ok_def ui_perform_posted)
  then show ?case
    using Cons.IH [of "ui_perform e m"] Cons.prems(2) by (cases e) (auto simp: ui_perform_posted)
qed simp

text \<open>What the network thread reports: at most one change of the state, and never a volume.\<close>

lemma heartbeat_loop_sends:
  "heartbeat_loop ver rs w = (fin, evs, w') \<Longrightarrow> set evs \<subseteq> range SendPacket \<union> range SleepMs"
proof (induction rs arbitrary: w evs)
  case (Cons r rs)
  obtain ev w1 where s: "Worker_sendHeartbeat ver (hr_up r) (hr_clock r) w = (ev, w1)"
    by fastforce
  then have "set ev \<subseteq> range SendPacket"
    by (auto simp: Worker_sendHeartbeat_def Let_def split: prod.splits if_splits)
  then show ?case
    using Cons.prems Cons.IH [of w1] by (auto simp: s split: prod.splits if_splits)
qed simp

lemma syncStart_toggles:
  assumes "Worker_syncStart env w = (res, evs, w')"
  shows "(if st_initThrows env = None then map fst (toggles evs) \<in> {[Connected], [Disconnected]} else evs = []) \<and>
    (\<forall>v. ReportVolume v \<notin> set evs)"
proof -
  obtain c ev1 where c: "poll 10 10 (st_connected env) = (c, ev1)" by fastforce
  obtain l ev2 where l: "poll 30 10 (st_login env) = (l, ev2)" by fastforce
  have p: "set ev1 \<subseteq> {SleepMs 10}" "set ev2 \<subseteq> {SleepMs 30}"
    using poll_events [of 10 10 "st_connected env"] poll_events [of 30 10 "st_login env"] by (simp_all add: c l)
  then have t: "toggles ev1 = []" "toggles ev2 = []"
    by (auto intro!: toggles_empty)
  show ?thesis
  proof (cases "st_initThrows env = None \<and> c \<and> st_loginAfter env \<and> st_endpointReturns env")
    case False
    then show ?thesis
      using assms p t by (auto simp: Worker_syncStart_def c l Let_def split: if_splits option.splits)
  next
    case True
    let ?w = "w\<lparr>w_gotoStop := False\<rparr>"
    obtain fin ev4 w4 where h: "heartbeat_loop (st_ver env) (st_rounds env)
        (if w_durationReporter w then ?w\<lparr>w_durationTimer := True\<rparr> else ?w) = (fin, ev4, w4)"
      by (metis surj_pair)
    have h4: "set ev4 \<subseteq> range SendPacket \<union> range SleepMs"
      by (rule heartbeat_loop_sends [OF h])
    then have "toggles ev4 = []"
      by (auto intro!: toggles_empty)
    then show ?thesis
      using assms p t h4 True h
      by (auto simp: Worker_syncStart_def c l Let_def split: if_splits)
  qed
qed

text \<open>What a meter reports is in the range of the bars; init and syncStart do not touch the meters.\<close>

lemma meter_report:
  assumes "AudioVolumeMeter_Peak_calculate seg clock m = (m', v)" and "pk_recentMaxLevel m \<le> 9"
  shows "pk_recentMaxLevel m' \<le> 9" and "level v \<le> 9" and "recentMaxLevel v \<le> 9"
proof -
  have h: "pk_recentMaxLevel m' \<le> 9" "recentMaxLevel v = pk_recentMaxLevel m'" "level v \<le> recentMaxLevel v"
    using peak_meter.held_le_9 [OF TrueI assms(2), of seg clock] peak_meter.reports_held [of seg clock m] assms(1) by simp_all
  then show "pk_recentMaxLevel m' \<le> 9" "level v \<le> 9" "recentMaxLevel v \<le> 9"
    by (auto intro: order_trans)
qed

definition worker_meters :: "('e, 'w) Worker \<Rightarrow> AudioVolumeMeter_Peak \<times> AudioVolumeMeter_Peak" where
  "worker_meters w = (w_volumeMeterIn w, w_volumeMeterOut w)"

lemma init_meters:
  "Worker_init opus android env cfg reportInfo reportVolume vadReporter w = (ret, w') \<Longrightarrow> worker_meters w' = worker_meters w"
  by (auto simp: Worker_init_def Worker_initCodec_def worker_meters_def Let_def split: if_splits prod.splits sum.splits)

lemma heartbeat_loop_meters:
  "heartbeat_loop ver rs w = (fin, evs, w') \<Longrightarrow> worker_meters w' = worker_meters w"
proof (induction rs arbitrary: w evs)
  case (Cons r rs)
  obtain ev w1 where s: "Worker_sendHeartbeat ver (hr_up r) (hr_clock r) w = (ev, w1)"
    by fastforce
  then have "worker_meters w1 = worker_meters w"
    by (auto simp: Worker_sendHeartbeat_def worker_meters_def Let_def split: prod.splits if_splits)
  then show ?case
    using Cons.prems Cons.IH [of w1] by (auto simp: s split: prod.splits if_splits)
qed simp

lemma worker_meters_upd [simp]:
  "worker_meters (w\<lparr>w_gotoStop := b\<rparr>) = worker_meters w" "worker_meters (w\<lparr>w_durationTimer := b\<rparr>) = worker_meters w"
  by (simp_all add: worker_meters_def)

lemma syncStart_meters:
  "Worker_syncStart env w = (res, evs, w') \<Longrightarrow> worker_meters w' = worker_meters w"
  by (auto simp: Worker_syncStart_def Let_def dest!: heartbeat_loop_meters split: option.splits prod.splits if_splits)

lemma connected_meters:
  assumes "Worker_init opus android env cfg reportInfo reportVolume vadReporter (Worker_new enc lib t u statics) = (ret, w)"
    and "Worker_syncStart senv (Worker_asyncStart (Worker_setDurationReporter True w)) = (res, evs, w')"
  shows "meters_ok (w_volumeMeterIn w', w_volumeMeterOut w')"
  using init_meters [OF assms(1)] syncStart_meters [OF assms(2)]
  by (simp add: worker_meters_def meters_ok_def Worker_asyncStart_def Worker_setDurationReporter_def Worker_new_def
      AudioVolumeMeter_Peak_new_def)

subsection \<open>Every step keeps the invariant\<close>

lemma onNetworkChanged_main:
  "widgets_ok m \<Longrightarrow> st \<noteq> Disconnected \<longrightarrow> hasWorker m \<Longrightarrow> widgets_ok (onNetworkChanged True st m)"
  by (auto simp: widgets_ok_def onNetworkChanged_def postEvent_def split: NetworkState.split)

lemma onNetworkChanged_main_fields [simp]:
  "currentUiState (onNetworkChanged True st m) = st"
  "queued (posted (onNetworkChanged True st m)) = queued (posted m)"
  by (simp_all add: onNetworkChanged_def postEvent_def Let_def split: NetworkState.split)

lemma map_sum_Inr_iff: "map_sum f g x = Inr y \<longleftrightarrow> (\<exists>z. x = Inr z \<and> y = g z)"
  by (cases x) auto

lemma widgets_ok_upd [simp]:
  "widgets_ok (m\<lparr>vadText := t\<rparr>) = widgets_ok m" "widgets_ok (m\<lparr>durationText := t\<rparr>) = widgets_ok m"
  "widgets_ok (m\<lparr>statusBar := sb\<rparr>) = widgets_ok m" "widgets_ok (m\<lparr>bars_in := bs\<rparr>) = widgets_ok m"
  "widgets_ok (m\<lparr>bars_out := bs\<rparr>) = widgets_ok m" "widgets_ok (m\<lparr>helpOpened := n\<rparr>) = widgets_ok m"
  "widgets_ok (m\<lparr>micMuteChecked := b\<rparr>) = widgets_ok m" "widgets_ok (m\<lparr>hostText := t\<rparr>) = widgets_ok m"
  "widgets_ok (m\<lparr>portText := t\<rparr>) = widgets_ok m" "widgets_ok (toggleAdvancedMode b m) = widgets_ok m"
  by (simp_all add: widgets_ok_def toggleAdvancedMode_def)

lemma onVolumeChanged_main:
  "onVolumeChanged True v m = Inr m' \<Longrightarrow> widgets_ok m' = widgets_ok m \<and>
     currentUiState m' = currentUiState m \<and> posted m' = posted m"
  by (cases "io v") (auto simp: onVolumeChanged_def map_sum_Inr_iff)

lemma toggleAdvancedMode_fields [simp]:
  "currentUiState (toggleAdvancedMode b m) = currentUiState m" "posted (toggleAdvancedMode b m) = posted m"
  by (simp_all add: toggleAdvancedMode_def)

lemma event_inv:
  assumes "widgets_ok m" and "posted m = e # es" and "MainWindow_event e (m\<lparr>posted := es\<rparr>) = Inr m'"
    and "\<And>st. e = NetworkStateEvent st \<Longrightarrow> st \<noteq> Disconnected \<longrightarrow> hasWorker m"
  shows "widgets_ok m' \<and> queued (posted m') = queued es \<and>
    currentUiState m' = (case e of NetworkStateEvent st \<Rightarrow> st | _ \<Rightarrow> currentUiState m)"
proof -
  have w: "widgets_ok (m\<lparr>posted := es\<rparr>)"
    using assms(1,2) by (simp add: widgets_ok_def)
  show ?thesis
  proof (cases e)
    case (KeyPress k)
    then show ?thesis
      using assms(3) w by (cases k) (auto simp: MainWindow_event_def)
  next
    case (AudioVolumeEvent v)
    then show ?thesis
      using assms(3) w onVolumeChanged_main [of v "m\<lparr>posted := es\<rparr>" m']
      by (auto simp: MainWindow_event_def split: if_splits)
  next
    case (VadEvent b)
    then show ?thesis
      using assms(3) w by (auto simp: MainWindow_event_def onVad_def)
  next
    case (NetworkStateEvent st)
    then show ?thesis
      using assms(3,4) onNetworkChanged_main [OF w, of st] by (auto simp: MainWindow_event_def)
  next
    case (ShowTextMessageEvent t)
    then show ?thesis
      using assms(3) w by (auto simp: MainWindow_event_def showMessage_def)
  next
    case (SetDurationEvent d)
    then show ?thesis
      using assms(3) w by (auto simp: MainWindow_event_def)
  qed
qed

lemma ui_progress_inv:
  assumes "ui_progress s s'" and "ui_inv s"
  shows "ui_inv s' \<and> resolved s' = resolved s"
  using assms(1)
proof (cases rule: ui_progress.cases)
  case (network e es)
  have "widgets_ok (ui_perform e (win s))"
    using fold_perform [of "win s" "[e]"] assms(2) network by (auto simp: ui_inv_def)
  moreover have "tokens s' = tokens s"
    by (cases e) (simp_all add: network tokens_def ui_perform_posted)
  ultimately show ?thesis
    using assms(2) network by (auto simp: ui_inv_def)
next
  case (deliver e es m)
  have inv: "widgets_ok (win s)" using assms(2) by (simp add: ui_inv_def)
  have tok: "tokens s = queued (e # es) @ map fst (toggles (pending s))"
    by (simp add: tokens_def deliver)
  have net: "currentUiState (win s) = Connecting \<and> resolved s \<and> queued es = [] \<and> toggles (pending s) = [] \<and>
      st \<noteq> Connecting \<and> hasWorker (win s)" if "e = NetworkStateEvent st" for st
    using assms(2) that by (auto simp: ui_inv_def tok widgets_ok_def split: if_splits)
  from event_inv [OF inv deliver(2,3)] net
  have ev: "widgets_ok m" "queued (posted m) = queued es"
    "currentUiState m = (case e of NetworkStateEvent st \<Rightarrow> st | _ \<Rightarrow> currentUiState (win s))"
    by blast+
  show ?thesis
  proof (cases "\<exists>st. e = NetworkStateEvent st")
    case True
    then show ?thesis
      using net ev assms(2) by (auto simp: deliver ui_inv_def tokens_def)
  next
    case False
    then have "queued (e # es) = queued es" "currentUiState m = currentUiState (win s)"
      using ev(3) by (cases e; simp)+
    then show ?thesis
      using ev assms(2) by (auto simp: deliver ui_inv_def tokens_def)
  qed
qed

lemma gotoWork_window:
  assumes "gotoWork init m = Inr m'"
  shows "hasWorker m'"
    "hostEnabled m' = hostEnabled (onNetworkChanged True Connecting m)"
    "portEnabled m' = portEnabled (onNetworkChanged True Connecting m)"
    "aecEnabled m' = aecEnabled (onNetworkChanged True Connecting m)"
    "buttonEnabled m' = buttonEnabled (onNetworkChanged True Connecting m)"
    "currentUiState m' = Connecting" "posted m' = posted (onNetworkChanged True Connecting m)"
  using assms by (auto simp: gotoWork_def Let_def split: outcome.splits if_splits)

lemma gotoWork_eq:
  assumes "gotoWork init m = Inr m'" and "widgets_ok m"
  shows "widgets_ok m' \<and> currentUiState m' = Connecting \<and> queued (posted m') = queued (posted m)"
  using assms(2) gotoWork_window [OF assms(1)] by (simp add: widgets_ok_def) (simp add: onNetworkChanged_def)

lemma click_disconnect:
  assumes "on_pushButton_connecting_clicked init m = Inr m'" and "widgets_ok m" and "currentUiState m = Connected"
  shows "widgets_ok m' \<and> currentUiState m' = Disconnected \<and> queued (posted m') = queued (posted m)"
  using assms by (auto simp: on_pushButton_connecting_clicked_def onNetworkChanged_def widgets_ok_def postEvent_def
      Let_def)

lemma init_state_inv:
  "init_state m = Inr m' \<Longrightarrow> posted m = [] \<Longrightarrow>
   widgets_ok m' \<and> currentUiState m' = Disconnected \<and> queued (posted m') = []"
proof -
  assume i: "init_state m = Inr m'" and p: "posted m = []"
  obtain m1 m2 where v: "onVolumeChanged True \<lparr>io = In, level = 0, recentMaxLevel = 0\<rparr> m = Inr m1"
      "onVolumeChanged True \<lparr>io = Out, level = 0, recentMaxLevel = 0\<rparr> m1 = Inr m2"
      "m' = showMessage True ''F1: help    F2: toggle mode (advanced/easy mode)''
         (toggleAdvancedMode False (onNetworkChanged True Disconnected m2))"
    using i by (auto simp: init_state_def split: sum.splits)
  have "posted m2 = []"
    using onVolumeChanged_main [OF v(1)] onVolumeChanged_main [OF v(2)] p by simp
  then show ?thesis
    by (simp add: v(3) showMessage_def) (simp add: onNetworkChanged_def postEvent_def widgets_ok_def)
qed

lemma ui_step_inv:
  assumes "ui_step opus lib s s'" and "ui_inv s"
  shows "ui_inv s'"
  using assms(1)
proof (cases rule: ui_step.cases)
  case progress
  then show ?thesis
    using ui_progress_inv assms(2) by blast
next
  case (connect env enc t u statics m ret w senv res evs w')
  let ?m = "fold ui_perform (pending s) (win s)"
  have f: "widgets_ok ?m" "currentUiState ?m = Disconnected" "queued (posted ?m) = []"
    using fold_perform [of "win s" "pending s"] assms(2) connect(3) by (auto simp: ui_inv_def tokens_def)
  then have "widgets_ok m \<and> currentUiState m = Connecting \<and> queued (posted m) = []"
    using gotoWork_eq [of _ ?m m] connect(4) by (auto simp: on_pushButton_connecting_clicked_def)
  then show ?thesis
    using syncStart_toggles [OF connect(6)] connected_meters [OF connect(5,6)]
    by (auto simp: connect(1) ui_inv_def tokens_def)
next
  case (disconnect init m)
  let ?m = "fold ui_perform (pending s) (win s)"
  have f: "widgets_ok ?m" "currentUiState ?m = Connected" "queued (posted ?m) = []"
    using fold_perform [of "win s" "pending s"] assms(2) disconnect(3) by (auto simp: ui_inv_def tokens_def)
  then show ?thesis
    using click_disconnect [OF disconnect(4)] assms(2) by (simp add: disconnect(1) ui_inv_def tokens_def)
next
  case (volume_in seg clock vm v)
  have "pk_recentMaxLevel (fst (meters s)) \<le> 9"
    using assms(2) by (simp add: ui_inv_def meters_ok_def)
  note ms = meter_report [OF volume_in(3) this]
  then show ?thesis
    using assms(2) by (auto simp: volume_in(1) ui_inv_def meters_ok_def widgets_ok_def tokens_def ui_perform_posted)
next
  case (volume_out seg clock vm v)
  have "pk_recentMaxLevel (snd (meters s)) \<le> 9"
    using assms(2) by (simp add: ui_inv_def meters_ok_def)
  note ms = meter_report [OF volume_out(3) this]
  then show ?thesis
    using assms(2) by (auto simp: volume_out(1) ui_inv_def meters_ok_def widgets_ok_def tokens_def ui_perform_posted)
next
  case (report e)
  have "widgets_ok (ui_perform e (win s))"
    using assms(2) report(3) by (auto simp: ui_inv_def widgets_ok_def ui_perform_posted)
  moreover have "toggles [e] = []"
    using report(3) by auto
  ultimately show ?thesis
    using assms(2) by (auto simp: report(1) ui_inv_def tokens_def ui_perform_posted)
next
  case (key k m)
  have "widgets_ok m \<and> currentUiState m = currentUiState (win s) \<and> posted m = posted (win s)"
    using key(2) assms(2) by (cases k) (auto simp: MainWindow_event_def ui_inv_def)
  then show ?thesis
    using assms(2) by (auto simp: key(1) ui_inv_def tokens_def)
next
  case (mute checked m told)
  have "widgets_ok m \<and> currentUiState m = currentUiState (win s) \<and> posted m = posted (win s)"
    using mute(2) assms(2) onVolumeChanged_main [of _ "(win s)\<lparr>micMuteChecked := checked\<rparr>"]
    by (cases checked) (fastforce simp: on_toggleButton_micMute_clicked_def ui_inv_def map_sum_Inr_iff Let_def)+
  then show ?thesis
    using assms(2) by (auto simp: mute(1) ui_inv_def tokens_def)
next
  case (edit_host t)
  then show ?thesis
    using assms(2) by (auto simp: ui_inv_def tokens_def)
next
  case (edit_port t)
  then show ?thesis
    using assms(2) by (auto simp: ui_inv_def tokens_def)
qed

lemma MainWindow_new_init:
  assumes "MainWindow_new json alignedRect available git_tag file m = Inr m'"
  shows "\<exists>m1 m2. init_state m1 = Inr m2 \<and> posted m1 = posted m \<and> m' = m2\<lparr>windowTitle := window_title git_tag\<rparr>"
proof -
  let ?m1 = "connect_return (tool_tips (bar_labels (bars_in (label_images (place_window alignedRect available (load_settings json file m))))
    (bars_out (label_images (place_window alignedRect available (load_settings json file m))))
    (label_images (place_window alignedRect available (load_settings json file m)))))"
  obtain m2 where "init_state ?m1 = Inr m2" "m' = m2\<lparr>windowTitle := window_title git_tag\<rparr>"
    using assms by (cases "init_state ?m1") (auto simp: MainWindow_new_def Let_def)
  moreover have "posted ?m1 = posted m"
    by (simp add: connect_return_def tool_tips_def bar_labels_def label_images_def place_window_def load_settings_def
        split: prod.split option.split sum.split)
  ultimately show ?thesis
    by blast
qed

lemma new_window_inv:
  assumes "MainWindow_new json alignedRect available git_tag file designed_window = Inr m"
  shows "widgets_ok m \<and> currentUiState m = Disconnected \<and> queued (posted m) = []"
proof -
  obtain m1 m2 where m: "init_state m1 = Inr m2" "posted m1 = posted designed_window"
      "m = m2\<lparr>windowTitle := window_title git_tag\<rparr>"
    using MainWindow_new_init [OF assms] by blast
  have "posted m1 = []"
    by (simp add: m(2) designed_window_def)
  from init_state_inv [OF m(1) this] show ?thesis
    by (simp add: m(3) widgets_ok_def)
qed

lemma ui_reachable_inv: "ui_reachable opus lib s \<Longrightarrow> ui_inv s"
proof (induction rule: ui_reachable.induct)
  case (start json alignedRect available git_tag cfg m)
  show ?case
    using new_window_inv [OF start]
    by (simp add: ui_inv_def tokens_def meters_ok_def no_meters_def AudioVolumeMeter_Peak_new_def)
qed (rule ui_step_inv)

subsection \<open>A session to instantiate the properties\<close>

definition corner :: "nat \<times> nat \<Rightarrow> rect \<Rightarrow> rect" where
  "corner sz available = (0, 0, fst sz, snd sz)"

definition no_json :: json_ops where
  "no_json = \<lparr>read_json = (\<lambda>_. Inl ''no tree''), write_json = (\<lambda>_. [])\<rparr>"

definition start_session :: session where
  "start_session =
     \<lparr>win = (case MainWindow_new no_json corner (0, 0, 1920, 1080) None None designed_window of Inr m \<Rightarrow> m | Inl _ \<Rightarrow> designed_window),
      pending = [], resolved = True, meters = no_meters\<rparr>"

lemma onVolumeChanged_zero: "\<exists>m'. onVolumeChanged True \<lparr>io = d, level = 0, recentMaxLevel = 0\<rparr> m = Inr m'"
  by (cases d) (simp_all add: onVolumeChanged_def draw_bars_def Let_def)

lemma init_state_total: "\<exists>m. init_state m0 = Inr m"
proof -
  obtain m1 where 1: "onVolumeChanged True \<lparr>io = In, level = 0, recentMaxLevel = 0\<rparr> m0 = Inr m1"
    using onVolumeChanged_zero by blast
  obtain m2 where 2: "onVolumeChanged True \<lparr>io = Out, level = 0, recentMaxLevel = 0\<rparr> m1 = Inr m2"
    using onVolumeChanged_zero by blast
  show ?thesis
    by (simp add: init_state_def 1 2)
qed

lemma MainWindow_new_total: "\<exists>m. MainWindow_new json alignedRect available git_tag file m0 = Inr m"
  using init_state_total by (auto simp: MainWindow_new_def Let_def map_sum_def split: sum.split) (metis sum.distinct(1))

lemma start_window: "MainWindow_new no_json corner (0, 0, 1920, 1080) None None designed_window = Inr (win start_session)"
  using MainWindow_new_total [of no_json corner "(0, 0, 1920, 1080)" None None designed_window]
  by (auto simp: start_session_def)

lemma start_session_reachable: "ui_reachable opus lib start_session"
  using ui_reachable.start [OF start_window, of opus lib] by (simp add: start_session_def)

lemma start_session_state: "currentUiState (win start_session) = Disconnected" "pending start_session = []"
  using new_window_inv [OF start_window] by (simp_all add: start_session_def)

lemma init_raw_udp:
  "cfg_protocol cfg = Some ''raw_udp'' \<Longrightarrow>
   \<exists>w. Worker_init (toy_opus 160) False good_env
     (cfg\<lparr>cfg_needAec := b\<rparr>) True True True toy_worker = (Returns (ReturnType_int 0), w)"
  by (simp add: Worker_init_def good_env_def Worker_new_def get_or_def
        Worker_initCodec_def OpusEnc_reInit_def Let_def toy_opus_def)

lemma click_connects:
  "\<exists>m evs ms. ui_step (toy_opus 160) () start_session
       \<lparr>win = m, pending = evs, resolved = (st_initThrows (senv :: start_env) = None), meters = ms\<rparr> \<and>
     currentUiState m = Connecting \<and> hasWorker m \<and> posted m = posted (win start_session)"
proof -
  let ?init = "\<lambda>cfg. fst (Worker_init (toy_opus 160) False good_env cfg True True True toy_worker)"
  let ?s = "win start_session"
  obtain m where m: "on_pushButton_connecting_clicked ?init (fold ui_perform (pending start_session) ?s) = Inr m"
      "currentUiState m = Connecting" "hasWorker m" "posted m = posted ?s"
  proof -
    let ?cfg = "(root (onNetworkChanged True Connecting ?s))
      \<lparr>cfg_host := Some (trimmed (hostText ?s)), cfg_port := Some (trimmed (portText ?s)), cfg_protocol := Some ''raw_udp''\<rparr>"
    have "?init (?cfg\<lparr>cfg_needAec := Some (aecChecked ?s)\<rparr>) = Returns (ReturnType_int 0)"
      using init_raw_udp [of ?cfg "Some (aecChecked ?s)"] by auto
    then show ?thesis
      using that by (simp add: on_pushButton_connecting_clicked_def start_session_state gotoWork_def Let_def
          onNetworkChanged_def)
  qed
  obtain ret w where i: "Worker_init (toy_opus 160) False good_env (root m) True True True toy_worker = (ret, w)"
    by (metis surj_pair)
  obtain res evs w' where y: "Worker_syncStart senv (Worker_asyncStart (Worker_setDurationReporter True w)) = (res, evs, w')"
    by (metis surj_pair)
  have "buttonEnabled ?s"
    using ui_reachable_inv [OF start_session_reachable [of "toy_opus 160" "()"]]
    by (simp add: ui_inv_def widgets_ok_def start_session_state)
  from ui_step.connect [OF this start_session_state(1) m(1) [unfolded toy_worker_def] i [unfolded toy_worker_def] y] m(2-4) show ?thesis
    by blast
qed

subsection \<open>Properties of a session\<close>

text \<open>
  The widgets match the state of the call. In every reachable session the host, the
  port and the echo canceller can be changed exactly when the call is disconnected, the button
  works exactly when the call is not connecting, and a call in progress has a worker.
\<close>
lemma ui_widgets_match_state:
  assumes "ui_reachable opus lib s"
  shows "(hostEnabled (win s) \<longleftrightarrow> currentUiState (win s) = Disconnected) \<and>
    (portEnabled (win s) \<longleftrightarrow> currentUiState (win s) = Disconnected) \<and>
    (aecEnabled (win s) \<longleftrightarrow> currentUiState (win s) = Disconnected) \<and>
    (buttonEnabled (win s) \<longleftrightarrow> currentUiState (win s) \<noteq> Connecting) \<and>
    (currentUiState (win s) \<noteq> Disconnected \<longrightarrow> hasWorker (win s))"
  using ui_reachable_inv [OF assms] by (simp add: ui_inv_def widgets_ok_def)

lemma ui_widgets_match_state_witness: "buttonEnabled (win start_session)"
  using ui_widgets_match_state [OF start_session_reachable] by (simp add: start_session_state)

lemma window_event_total:
  assumes "ui_reachable opus lib s" and "posted (win s) = e # es"
  shows "\<exists>m. MainWindow_event e ((win s)\<lparr>posted := es\<rparr>) = Inr m"
proof -
  have "level v \<le> 9 \<and> recentMaxLevel v \<le> 9" if "e = AudioVolumeEvent v" for v
    using ui_reachable_inv [OF assms(1)] assms(2) that by (auto simp: ui_inv_def widgets_ok_def)
  then have "\<exists>bars. draw_bars v old = Inr bars" if "e = AudioVolumeEvent v" for v old
    using draw_bars_in_range [of v old] that by blast
  then show ?thesis
    by (cases e) (auto simp: MainWindow_event_def onVolumeChanged_def map_sum_Inr_iff split: key.split AudioInOut.split)
qed

text \<open>
  C36: no event breaks the window. In every reachable session the event at the front of the
  queue is handled without an access outside the bars.
\<close>
theorem window_handles_every_event:
  assumes "ui_reachable opus lib s" and "posted (win s) = e # es"
  shows "\<exists>m. MainWindow_event e ((win s)\<lparr>posted := es\<rparr>) = Inr m"
  by (rule window_event_total [OF assms])

lemma start_session_posted: "posted (win start_session) = [SetDurationEvent 0]"
  by (simp add: start_session_def MainWindow_new_def init_state_def load_settings_def designed_window_def corner_def
      place_window_def label_images_def bar_labels_def tool_tips_def connect_return_def onVolumeChanged_def draw_bars_def
      onNetworkChanged_def postEvent_def showMessage_def toggleAdvancedMode_def Let_def)

text \<open>A connecting client whose microphone meter has reported a loud block.\<close>

theorem window_handles_every_event_witness:
  "\<exists>s v m. ui_reachable (toy_opus 160) () s \<and> posted (win s) = [AudioVolumeEvent v] \<and>
     MainWindow_event (AudioVolumeEvent v) ((win s)\<lparr>posted := []\<rparr>) = Inr m"
proof -
  obtain m evs ms where c: "ui_step (toy_opus 160) () start_session
      \<lparr>win = m, pending = evs, resolved = (st_initThrows (quick_start []) = None), meters = ms\<rparr>"
      "hasWorker m" "posted m = [SetDurationEvent 0]"
    using click_connects [of "quick_start []"] start_session_posted by auto
  let ?s1 = "\<lparr>win = m, pending = evs, resolved = (st_initThrows (quick_start []) = None), meters = ms\<rparr>"
  let ?m2 = "m\<lparr>posted := [], durationText := []\<rparr>"
  have "ui_progress ?s1 (?s1\<lparr>win := ?m2\<rparr>)"
    by (rule ui_progress.deliver [where e = "SetDurationEvent 0" and es = "[]"])
      (simp_all add: c(3) MainWindow_event_def duration_string_def)
  with c(1) have r: "ui_reachable (toy_opus 160) () (?s1\<lparr>win := ?m2\<rparr>)"
    by (meson start_session_reachable ui_reachable.step ui_step.progress)
  obtain vm v where v: "AudioVolumeMeter_Peak_calculate [16384] (5, 6, 7) (fst ms) = (vm, v)"
    by fastforce
  let ?s3 = "?s1\<lparr>win := ui_perform (ReportVolume v) ?m2, meters := (vm, snd ms)\<rparr>"
  have "ui_step (toy_opus 160) () (?s1\<lparr>win := ?m2\<rparr>) ?s3"
    using ui_step.volume_in [of "?s1\<lparr>win := ?m2\<rparr>"] c(2) v by fastforce
  with r have r3: "ui_reachable (toy_opus 160) () ?s3"
    by (rule ui_reachable.step)
  have p3: "posted (win ?s3) = [AudioVolumeEvent v]"
    by (simp add: ui_perform_def onVolumeChanged_def postEvent_def)
  from window_handles_every_event [OF r3 p3] obtain m' where
    "MainWindow_event (AudioVolumeEvent v) ((win ?s3)\<lparr>posted := []\<rparr>) = Inr m'" ..
  with r3 p3 show ?thesis
    by (intro exI conjI)
qed

text \<open>Every step of the network thread and of the event loop uses up some of this weight.\<close>

fun event_weight :: "ui_event \<Rightarrow> nat" where
  "event_weight (NetworkStateEvent st) = 2"
| "event_weight _ = 1"

fun work_weight :: "worker_event \<Rightarrow> nat" where
  "work_weight (ToggleState st m) = 4"
| "work_weight _ = 2"

definition ui_weight :: "session \<Rightarrow> nat" where
  "ui_weight s = sum_list (map event_weight (posted (win s))) + sum_list (map work_weight (pending s))"

lemma ui_perform_weight:
  "sum_list (map event_weight (posted (ui_perform e m))) < sum_list (map event_weight (posted m)) + work_weight e"
  by (cases e) (simp_all add: ui_defs)

lemma event_weight_decreases:
  assumes "MainWindow_event e m = Inr m'"
  shows "sum_list (map event_weight (posted m')) < event_weight e + sum_list (map event_weight (posted m))"
proof (cases e)
  case (KeyPress k)
  then show ?thesis using assms by (cases k) (auto simp: MainWindow_event_def)
next
  case (AudioVolumeEvent v)
  then show ?thesis
    using assms onVolumeChanged_main [of v m m'] by (auto simp: MainWindow_event_def split: if_splits)
next
  case (NetworkStateEvent st)
  then show ?thesis
    using assms by (cases st) (auto simp: MainWindow_event_def onNetworkChanged_def postEvent_def)
qed (use assms in \<open>auto simp: MainWindow_event_def onVad_def showMessage_def\<close>)

lemma ui_progress_weight: "ui_progress s s' \<Longrightarrow> ui_weight s' < ui_weight s"
proof (erule ui_progress.cases)
  fix s1 e es
  assume "s = s1" "s' = s1\<lparr>win := ui_perform e (win s1), pending := es\<rparr>" "pending s1 = e # es"
  then show "ui_weight s' < ui_weight s"
    using ui_perform_weight [of e "win s1"] by (simp add: ui_weight_def)
next
  fix s1 e es m
  assume "s = s1" "s' = s1\<lparr>win := m\<rparr>" "posted (win s1) = e # es"
    "MainWindow_event e ((win s1)\<lparr>posted := es\<rparr>) = Inr m"
  then show "ui_weight s' < ui_weight s"
    using event_weight_decreases [of e "(win s1)\<lparr>posted := es\<rparr>" m] by (simp add: ui_weight_def)
qed

lemma ui_progress_bound: "(ui_progress ^^ n) s s' \<Longrightarrow> n + ui_weight s' \<le> ui_weight s"
proof (induction n arbitrary: s')
  case (Suc n)
  then obtain t where "(ui_progress ^^ n) s t" "ui_progress t s'"
    by auto
  then show ?case
    using Suc.IH [of t] ui_progress_weight [of t s'] by simp
qed simp

lemma ui_progress_reachable:
  "(ui_progress ^^ n) s s' \<Longrightarrow> ui_reachable opus lib s \<Longrightarrow> ui_reachable opus lib s' \<and> resolved s' = resolved s"
proof (induction n arbitrary: s')
  case (Suc n)
  then obtain t where t: "(ui_progress ^^ n) s t" "ui_progress t s'"
    by auto
  have r: "ui_reachable opus lib t" "resolved t = resolved s"
    using Suc.IH [OF t(1) Suc.prems(2)] by simp_all
  from ui_reachable.step [OF r(1) ui_step.progress [OF t(2)]] ui_progress_inv [OF t(2) ui_reachable_inv [OF r(1)]] r(2)
  show ?case
    by simp
qed simp

text \<open>
  C15: connecting ends. From any reachable session whose client came up, the network
  thread and the event loop can take only a bounded number of steps without the user, whatever
  their order, and when none is left the window shows connected or disconnected.
\<close>
theorem connecting_resolves:
  assumes "ui_reachable opus lib s" and "resolved s" and "(ui_progress ^^ n) s s'"
  shows "n \<le> ui_weight s \<and> ((\<nexists>t. ui_progress s' t) \<longrightarrow> currentUiState (win s') \<noteq> Connecting)"
proof -
  have r: "ui_reachable opus lib s'" "resolved s'"
    using ui_progress_reachable [OF assms(3,1)] assms(2) by simp_all
  have "currentUiState (win s') \<noteq> Connecting" if "\<nexists>t. ui_progress s' t"
  proof -
    have "pending s' = []"
      using that ui_progress.network [of s'] by (cases "pending s'") blast+
    moreover have "posted (win s') = []"
      using that ui_progress.deliver [of s'] window_event_total [OF r(1)] by (cases "posted (win s')") blast+
    ultimately have "tokens s' = []"
      by (simp add: tokens_def)
    then show ?thesis
      using ui_reachable_inv [OF r(1)] r(2) by (auto simp: ui_inv_def)
  qed
  then show ?thesis
    using ui_progress_bound [OF assms(3)] by simp
qed

theorem connecting_resolves_witness:
  "\<exists>s. ui_reachable (toy_opus 160) () s \<and> currentUiState (win s) = Connecting \<and>
     (\<forall>n s'. (ui_progress ^^ n) s s' \<longrightarrow> n \<le> ui_weight s)"
proof -
  obtain m evs ms where c: "ui_step (toy_opus 160) () start_session \<lparr>win = m, pending = evs, resolved = True, meters = ms\<rparr>"
      "currentUiState m = Connecting"
    using click_connects [of "quick_start [False, True]"] by (auto simp: quick_start_def)
  have r: "ui_reachable (toy_opus 160) () \<lparr>win = m, pending = evs, resolved = True, meters = ms\<rparr>"
    by (rule ui_reachable.step [OF start_session_reachable c(1)])
  have "n \<le> ui_weight \<lparr>win = m, pending = evs, resolved = True, meters = ms\<rparr>"
    if "(ui_progress ^^ n) \<lparr>win = m, pending = evs, resolved = True, meters = ms\<rparr> s'" for n s'
    using connecting_resolves [OF r _ that] by simp
  with r c(2) show ?thesis
    by fastforce
qed

lemma stuck_step:
  assumes "ui_step opus lib t t'" and "ui_reachable opus lib t" and "currentUiState (win t) = Connecting" and "\<not> resolved t"
  shows "currentUiState (win t') = Connecting \<and> \<not> resolved t'"
proof -
  have inv: "ui_inv t" and tok: "queued (posted (win t)) = []" and b: "\<not> buttonEnabled (win t)"
    using ui_reachable_inv [OF assms(2)] assms(3,4) by (auto simp: ui_inv_def tokens_def widgets_ok_def)
  from assms(1) show ?thesis
  proof (cases rule: ui_step.cases)
    case progress
    then show ?thesis
    proof (cases rule: ui_progress.cases)
      case (network e es)
      then show ?thesis using assms(3,4) by simp
    next
      case (deliver e es m)
      have "\<nexists>st. e = NetworkStateEvent st"
        using tok by (auto simp: deliver)
      then have "currentUiState m = currentUiState (win t)"
        using event_inv [OF _ deliver(2,3)] inv by (cases e) (auto simp: ui_inv_def)
      then show ?thesis using assms(3,4) by (simp add: deliver)
    qed
  next
    case (key k m)
    then show ?thesis using assms(3,4) by (cases k) (auto simp: MainWindow_event_def)
  next
    case (mute checked m told)
    then have "currentUiState m = currentUiState (win t)"
      using onVolumeChanged_main [of _ "(win t)\<lparr>micMuteChecked := checked\<rparr>"]
      by (cases checked) (fastforce simp: on_toggleButton_micMute_clicked_def map_sum_Inr_iff Let_def)+
    then show ?thesis using assms(3,4) by (simp add: mute(1))
  qed (use assms(3,4) b in simp_all)
qed

text \<open>
  C16: an address that does not resolve disables the window for good. When the network client of
  the worker leaves its init by an exception, syncStart returns the message of the exception
  and tells the window nothing: from then on, whatever happens, the window shows
  connecting and its button, host and port stay disabled.
\<close>
theorem unresolved_host_stays_connecting:
  assumes "ui_reachable opus lib s" and "currentUiState (win s) = Connecting" and "\<not> resolved s"
    and "(ui_step opus lib)\<^sup>*\<^sup>* s s'"
  shows "currentUiState (win s') = Connecting \<and> \<not> buttonEnabled (win s') \<and> \<not> hostEnabled (win s') \<and> \<not> portEnabled (win s')"
proof -
  from assms(4,1-3) have "ui_reachable opus lib s' \<and> currentUiState (win s') = Connecting \<and> \<not> resolved s'"
  proof (induction rule: rtranclp_induct)
    case (step t t')
    then show ?case
      using ui_reachable.step [of opus lib t t'] stuck_step [of opus lib t t'] by blast
  qed blast
  then show ?thesis
    using ui_reachable_inv [of opus lib s'] by (auto simp: ui_inv_def widgets_ok_def)
qed

theorem unresolved_host_stays_connecting_witness:
  "\<exists>s. ui_step (toy_opus 160) () start_session s \<and> currentUiState (win s) = Connecting \<and>
     (\<forall>s'. (ui_step (toy_opus 160) ())\<^sup>*\<^sup>* s s' \<longrightarrow> \<not> buttonEnabled (win s'))"
proof -
  let ?senv = "(quick_start [])\<lparr>st_initThrows := Some ''Host not found''\<rparr>"
  obtain m evs ms where c: "ui_step (toy_opus 160) () start_session \<lparr>win = m, pending = evs, resolved = False, meters = ms\<rparr>"
      "currentUiState m = Connecting"
    using click_connects [of ?senv] by auto
  have r: "ui_reachable (toy_opus 160) () \<lparr>win = m, pending = evs, resolved = False, meters = ms\<rparr>"
    by (rule ui_reachable.step [OF start_session_reachable c(1)])
  have "\<not> buttonEnabled (win s')" if "(ui_step (toy_opus 160) ())\<^sup>*\<^sup>* \<lparr>win = m, pending = evs, resolved = False, meters = ms\<rparr> s'" for s'
    using unresolved_host_stays_connecting [OF r _ _ that] c(2) by simp
  with c show ?thesis
    by fastforce
qed

subsection \<open>What the constructor sets up for good\<close>

text \<open>Nothing changes the title, the tool tips, the images or the connections after the construction.\<close>

definition fixed_parts ::
    "MainWindow \<Rightarrow> string \<times> (string \<times> string \<times> string) \<times> (string option \<times> string option) \<times> (bool \<times> bool) \<times> line_edit list" where
  "fixed_parts m =
     (windowTitle m, (toolTip_host m, toolTip_port m, toolTip_mute m), (micImage m, speakerImage m),
      (imagesScaled m, barsScaled m), returnClicks m)"

lemma fixed_onVolumeChanged: "onVolumeChanged b v m = Inr m' \<Longrightarrow> fixed_parts m' = fixed_parts m"
  by (auto simp: onVolumeChanged_def postEvent_def fixed_parts_def map_sum_def split: if_splits AudioInOut.splits sum.splits)

lemma fixed_onNetworkChanged [simp]: "fixed_parts (onNetworkChanged b st m) = fixed_parts m"
  by (cases st) (simp_all add: onNetworkChanged_def postEvent_def fixed_parts_def)

lemma fixed_updates [simp]:
  "fixed_parts (m\<lparr>posted := es\<rparr>) = fixed_parts m" "fixed_parts (m\<lparr>hostText := t\<rparr>) = fixed_parts m"
  "fixed_parts (m\<lparr>portText := t\<rparr>) = fixed_parts m" "fixed_parts (m\<lparr>root := cfg\<rparr>) = fixed_parts m"
  "fixed_parts (m\<lparr>hasWorker := b\<rparr>) = fixed_parts m" "fixed_parts (m\<lparr>helpOpened := n\<rparr>) = fixed_parts m"
  "fixed_parts (m\<lparr>durationText := t\<rparr>) = fixed_parts m" "fixed_parts (m\<lparr>micMuteChecked := b\<rparr>) = fixed_parts m"
  "fixed_parts (onVad b1 b m) = fixed_parts m" "fixed_parts (showMessage b1 t m) = fixed_parts m"
  "fixed_parts (toggleAdvancedMode b m) = fixed_parts m" "fixed_parts (postEvent e m) = fixed_parts m"
  by (simp_all add: fixed_parts_def onVad_def showMessage_def toggleAdvancedMode_def postEvent_def)

lemma fixed_event: "MainWindow_event e m = Inr m' \<Longrightarrow> fixed_parts m' = fixed_parts m"
  by (auto simp: MainWindow_event_def dest: fixed_onVolumeChanged split: ui_event.splits key.splits if_splits)

lemma fixed_perform [simp]: "fixed_parts (ui_perform e m) = fixed_parts m"
  by (auto simp: ui_perform_def worker_toggleState_def dest: fixed_onVolumeChanged split: worker_event.split sum.split)

lemma fixed_fold_perform [simp]: "fixed_parts (fold ui_perform es m) = fixed_parts m"
  by (induction es arbitrary: m) simp_all

lemma fixed_gotoWork: "gotoWork init m = Inr m' \<Longrightarrow> fixed_parts m' = fixed_parts m"
  by (auto simp: gotoWork_def Let_def split: outcome.splits if_splits)

lemma fixed_click: "on_pushButton_connecting_clicked init m = Inr m' \<Longrightarrow> fixed_parts m' = fixed_parts m"
  by (auto simp: on_pushButton_connecting_clicked_def Let_def dest: fixed_gotoWork split: NetworkState.splits if_splits)

lemma fixed_mute: "on_toggleButton_micMute_clicked b m = Inr (m', told) \<Longrightarrow> fixed_parts m' = fixed_parts m"
  by (auto simp: on_toggleButton_micMute_clicked_def Let_def map_sum_def dest: fixed_onVolumeChanged
      split: if_splits sum.splits)

lemma fixed_step: "ui_step opus lib s s' \<Longrightarrow> fixed_parts (win s') = fixed_parts (win s)"
proof (induction rule: ui_step.induct)
  case (progress s s')
  then show ?case
    by (cases rule: ui_progress.cases) (auto dest: fixed_event)
qed (auto dest: fixed_click fixed_event fixed_mute)

lemma fixed_init_state: "init_state m = Inr m' \<Longrightarrow> fixed_parts m' = fixed_parts m"
  by (auto simp: init_state_def dest!: fixed_onVolumeChanged split: sum.splits)

lemma fixed_new:
  assumes "MainWindow_new json alignedRect available git_tag file m = Inr m'"
  shows "windowTitle m' = window_title git_tag \<and> micImage m' = Some '':/microphone.png'' \<and>
    speakerImage m' = Some '':/speaker.png'' \<and> imagesScaled m' \<and> barsScaled m' \<and> returnClicks m' = [ServerHost, ServerPort]"
proof -
  let ?placed = "label_images (place_window alignedRect available (load_settings json file m))"
  let ?m1 = "connect_return (tool_tips (bar_labels (bars_in ?placed) (bars_out ?placed) ?placed))"
  obtain m2 where i: "init_state ?m1 = Inr m2" "m' = m2\<lparr>windowTitle := window_title git_tag\<rparr>"
    using assms by (cases "init_state ?m1") (auto simp: MainWindow_new_def Let_def)
  have "micImage ?m1 = Some '':/microphone.png''" "speakerImage ?m1 = Some '':/speaker.png''" "imagesScaled ?m1" "barsScaled ?m1"
      "returnClicks ?m1 = [ServerHost, ServerPort]"
    by (simp_all add: connect_return_def tool_tips_def bar_labels_def label_images_def)
  with fixed_init_state [OF i(1)] i(2) show ?thesis
    by (simp add: fixed_parts_def)
qed

lemma fixed_reachable:
  "ui_reachable opus lib s \<Longrightarrow> \<exists>git_tag. windowTitle (win s) = window_title git_tag \<and>
     micImage (win s) = Some '':/microphone.png'' \<and> speakerImage (win s) = Some '':/speaker.png'' \<and>
     imagesScaled (win s) \<and> barsScaled (win s) \<and> returnClicks (win s) = [ServerHost, ServerPort]"
proof (induction rule: ui_reachable.induct)
  case (start json alignedRect available git_tag cfg m)
  show ?case
    using fixed_new [OF start] by auto
next
  case (step s s')
  with fixed_step [OF step.hyps(2)] show ?case
    by (simp add: fixed_parts_def)
qed

text \<open>
  The return key. In every state of a session the return key in a line edit does what a click on the
  button does while the client is disconnected, and nothing otherwise: it never hangs up.
\<close>
lemma return_key_connects:
  assumes "ui_reachable opus lib s"
  shows "returnPressed init l (win s) =
    (if currentUiState (win s) = Disconnected then on_pushButton_connecting_clicked init (win s) else Inr (win s))"
proof -
  have "widgets_ok (win s)"
    using ui_reachable_inv [OF assms] by (simp add: ui_inv_def)
  then show ?thesis
    using fixed_reachable [OF assms] by (cases l) (auto simp: returnPressed_def edit_enabled_def widgets_ok_def)
qed

end
