(* ===== verification/Client_Cli.thy ===== *)
theory Client_Cli
  imports Worker_Lifecycle
begin

text \<open>
  The command line client (client_cli/Entry.cpp). The configuration file is read by a library:
  read_json gives the tree, with the working duration if it has one, or the message of its
  exception. What the process does is the list of the lines that it prints or logs, and its
  exit code, which is None while it has not ended.
\<close>

definition printUsage :: string where
  "printUsage = ''Usage: CLI config.json''"

definition onNetworkStateChanged :: "NetworkState \<Rightarrow> string \<Rightarrow> string list" where
  "onNetworkStateChanged newState extraMessage =
     (case newState of
        Connected \<Rightarrow> [''Connected'']
      | Connecting \<Rightarrow> [''Connecting'']
      | Disconnected \<Rightarrow> [''Disconnected'']) @
     (if extraMessage \<noteq> [] then [''extraMessage='' @ extraMessage] else [])"

fun state_lines :: "worker_event list \<Rightarrow> string list" where
  "state_lines [] = []"
| "state_lines (ToggleState st m # evs) = onNetworkStateChanged st m @ state_lines evs"
| "state_lines (_ # evs) = state_lines evs"

text \<open>
  With a working duration the network thread runs while the main thread sleeps; the destructor of
  the worker then stops it, so that all its events happen. A missing argument is a null pointer.
\<close>

definition cli_main ::
    "('d, 'e) opus_ops \<Rightarrow> init_env \<Rightarrow> start_env \<Rightarrow> (string \<Rightarrow> string + config \<times> int option) \<Rightarrow> ('e, 'w) Worker \<Rightarrow>
     string list \<Rightarrow> fault + string list \<times> int option" where
  "cli_main opus env senv read_json worker argv =
     (case argv of
        prog # file # _ \<Rightarrow>
          (case read_json file of
             Inl what \<Rightarrow> Inr ([printUsage], Some (- 1))
           | Inr (tree, duration) \<Rightarrow>
               let workingDuration = get_or duration (- 1) in
               (case Worker_init opus False env tree True True True worker of
                  (Throws what, w) \<Rightarrow> Inl Terminate
                | (Faults e, w) \<Rightarrow> Inl e
                | (Returns ret, w) \<Rightarrow>
                    if ok ret then
                      if workingDuration < 0 then
                        let (res, evs, w) = Worker_syncStart senv w
                        in Inr (state_lines evs, case res of Some _ \<Rightarrow> Some 0 | None \<Rightarrow> None)
                      else
                        let w = Worker_asyncStart w; (res, evs, w) = Worker_syncStart senv w
                        in Inr (state_lines evs, case res of Some _ \<Rightarrow> Some 0 | None \<Rightarrow> None)
                    else Inr ([], Some 0)))
      | _ \<Rightarrow> Inl NullPointer)"

text \<open>
  The exit code tells nothing about the call: once the configuration is read it is 0, whether
  init fails, the server cannot be reached or refuses the login, or the call succeeds; and a
  failed init is not even logged.
\<close>

lemma cli_exit_code:
  assumes "cli_main opus env senv read_json worker (prog # file # rest) = Inr (lines, Some code)"
    and "read_json file = Inr (tree, duration)"
  shows "code = 0"
  using assms by (auto simp: cli_main_def Let_def split: outcome.splits if_splits option.splits prod.splits)

lemma cli_init_failure:
  assumes "read_json file = Inr (tree, duration)"
    and "Worker_init opus False env tree True True True worker = (Returns ret, w)" and "\<not> ok ret"
  shows "cli_main opus env senv read_json worker (prog # file # rest) = Inr ([], Some 0)"
  using assms by (simp add: cli_main_def Let_def)

end
