(* ===== verification/Worker_Threads.thy ===== *)
theory Worker_Threads
  imports Worker_Lifecycle
begin

text \<open>
  The threads of one worker (client_essential/Worker.cpp) as interleaved steps: the network thread that
  asyncStart creates runs syncStart statement by statement, the receiver thread of the client may set
  the login flag, the timer thread ends when it sees the flag, and the owner may call syncStop at
  any time. gotoStop_ and endpoint_ are shared and unprotected. A step makes at most one access to what the threads
  share, and a sleep is a step of its own, taken when the sleep is over, so a stop can come between the
  reading of a flag and what the thread does because of it. The theory Worker gives syncStart
  as a function of the readings that it takes; here the readings come from the other threads.
\<close>

subsection \<open>The steps\<close>

datatype net_pc =
    Entry
  | InitClient
  | PollConnected nat
  | WaitConnected nat
  | SendLogin
  | PollLogin nat
  | WaitLogin nat
  | CheckLogin
  | StartEndpoint
  | StartTimer
  | SendLoop
  | SendHeartbeat
  | SendSleep
  | Returned ReturnType
  | Crashed fault

datatype stop_pc = NotCalled | Flagged | EndpointCleared | NetThreadJoined | Stopped

record ('e, 'w) threads =
  th_pc :: net_pc
  th_stop :: stop_pc
  gotoStop :: bool
  isLogin :: bool
  endpoint :: bool
  receiver :: bool
  timer :: bool
  th_worker :: "('e, 'w) Worker"
  th_events :: "worker_event list"

text \<open>The state right after asyncStart on an initialised worker.\<close>

definition threads_start :: "('e, 'w) Worker \<Rightarrow> ('e, 'w) threads" where
  "threads_start w =
     \<lparr>th_pc = Entry, th_stop = NotCalled, gotoStop = w_gotoStop w, isLogin = False, endpoint = True,
      receiver = False, timer = False, th_worker = Worker_asyncStart w, th_events = []\<rparr>"

definition emit :: "worker_event list \<Rightarrow> net_pc \<Rightarrow> ('e, 'w) threads \<Rightarrow> ('e, 'w) threads" where
  "emit evs pc t = t\<lparr>th_events := th_events t @ evs, th_pc := pc\<rparr>"

inductive net_step :: "u32 \<Rightarrow> ('e, 'w) threads \<Rightarrow> ('e, 'w) threads \<Rightarrow> bool" for ver where
  enter: "th_pc t = Entry \<Longrightarrow>
    net_step ver t (emit [] InitClient
      (t\<lparr>gotoStop := False, isLogin := False, th_worker := (th_worker t)\<lparr>w_gotoStop := False\<rparr>\<rparr>))"
| init_throws: "th_pc t = InitClient \<Longrightarrow> net_step ver t (emit [] (Returned (ReturnType_str what)) t)"
| init_ok: "th_pc t = InitClient \<Longrightarrow> net_step ver t (emit [] (PollConnected 0) (t\<lparr>receiver := True\<rparr>))"
| connected: "th_pc t = PollConnected k \<Longrightarrow> k < 10 \<Longrightarrow> net_step ver t (emit [] SendLogin t)"
| unconnected: "th_pc t = PollConnected k \<Longrightarrow> k < 10 \<Longrightarrow>
    net_step ver t (emit [] (WaitConnected k) t)"
| wait_connected: "th_pc t = WaitConnected k \<Longrightarrow> net_step ver t (emit [SleepMs 10] (PollConnected (Suc k)) t)"
| no_connection: "th_pc t = PollConnected 10 \<Longrightarrow>
    net_step ver t (emit
      ([ToggleState Disconnected ''Could not connect to Server...''] @
        (if w_durationReporter (th_worker t) then [ReportDuration 0] else []))
      (Returned (ReturnType_str ''Could not connect to Server...'')) t)"
| send_login: "th_pc t = SendLogin \<Longrightarrow>
    net_step ver t (emit [SendPacket (NetPacket_new ver up (pt_code LoginRequest) 0)] (PollLogin 0) t)"
| login_seen: "th_pc t = PollLogin k \<Longrightarrow> k < 10 \<Longrightarrow> isLogin t \<Longrightarrow> net_step ver t (emit [] CheckLogin t)"
| login_unseen: "th_pc t = PollLogin k \<Longrightarrow> k < 10 \<Longrightarrow> \<not> isLogin t \<Longrightarrow> net_step ver t (emit [] (WaitLogin k) t)"
| wait_login: "th_pc t = WaitLogin k \<Longrightarrow> net_step ver t (emit [SleepMs 30] (PollLogin (Suc k)) t)"
| login_over: "th_pc t = PollLogin 10 \<Longrightarrow> net_step ver t (emit [] CheckLogin t)"
| no_login: "th_pc t = CheckLogin \<Longrightarrow> \<not> isLogin t \<Longrightarrow>
    net_step ver t (emit [ToggleState Disconnected ''Could not Login to Server...'']
      (Returned (ReturnType_str ''Could not Login to Server...'')) t)"
| logged_in: "th_pc t = CheckLogin \<Longrightarrow> isLogin t \<Longrightarrow>
    net_step ver t (emit [ToggleState Connected []] StartEndpoint t)"
| start_endpoint: "th_pc t = StartEndpoint \<Longrightarrow> endpoint t \<Longrightarrow> net_step ver t (emit [EndpointStart] StartTimer t)"
| null_endpoint: "th_pc t = StartEndpoint \<Longrightarrow> \<not> endpoint t \<Longrightarrow> net_step ver t (emit [] (Crashed NullPointer) t)"
| start_timer: "th_pc t = StartTimer \<Longrightarrow> w_durationReporter (th_worker t) \<Longrightarrow>
    net_step ver t (emit [TimerStart] SendLoop
      (t\<lparr>timer := True, th_worker := (th_worker t)\<lparr>w_durationTimer := True\<rparr>\<rparr>))"
| no_timer: "th_pc t = StartTimer \<Longrightarrow> \<not> w_durationReporter (th_worker t) \<Longrightarrow> net_step ver t (emit [] SendLoop t)"
| stop_seen: "th_pc t = SendLoop \<Longrightarrow> gotoStop t \<Longrightarrow>
    net_step ver t (emit [SendPacket (NetPacket_new ver up (pt_code LogoutRequest) 0)] (Returned (ReturnType_int 0)) t)"
| no_stop: "th_pc t = SendLoop \<Longrightarrow> \<not> gotoStop t \<Longrightarrow> net_step ver t (emit [] SendHeartbeat t)"
| send_heartbeat: "th_pc t = SendHeartbeat \<Longrightarrow> Worker_sendHeartbeat ver up clock (th_worker t) = (ev, w) \<Longrightarrow>
    net_step ver t (emit ev SendSleep (t\<lparr>th_worker := w\<rparr>))"
| send_sleep: "th_pc t = SendSleep \<Longrightarrow> net_step ver t (emit [SleepMs 3000] SendLoop t)"

text \<open>The other threads. A join waits for the thread to return; one that crashed ends the process.\<close>

inductive other_step :: "('e, 'w) threads \<Rightarrow> ('e, 'w) threads \<Rightarrow> bool" where
  login_response: "receiver t \<Longrightarrow> other_step t (t\<lparr>isLogin := True\<rparr>)"
| stop_called: "th_stop t = NotCalled \<Longrightarrow> other_step t (t\<lparr>th_stop := Flagged, gotoStop := True\<rparr>)"
| stop_endpoint: "th_stop t = Flagged \<Longrightarrow> other_step t (t\<lparr>th_stop := EndpointCleared, endpoint := False\<rparr>)"
| join_net: "th_stop t = EndpointCleared \<Longrightarrow> th_pc t = Returned r \<Longrightarrow>
    other_step t (t\<lparr>th_stop := NetThreadJoined\<rparr>)"
| timer_ends: "timer t \<Longrightarrow> gotoStop t \<Longrightarrow> other_step t (t\<lparr>timer := False\<rparr>)"
| join_timer: "th_stop t = NetThreadJoined \<Longrightarrow> \<not> timer t \<Longrightarrow> other_step t (t\<lparr>th_stop := Stopped\<rparr>)"

inductive_cases net_stepE: "net_step ver t t'"
inductive_cases other_stepE: "other_step t t'"

text \<open>A run with the number of steps that the network thread takes in it.\<close>

inductive threads_run :: "u32 \<Rightarrow> ('e, 'w) threads \<Rightarrow> nat \<Rightarrow> ('e, 'w) threads \<Rightarrow> bool" for ver t where
  run_start: "threads_run ver t 0 t"
| run_net: "threads_run ver t n t' \<Longrightarrow> net_step ver t' t'' \<Longrightarrow> threads_run ver t (Suc n) t''"
| run_other: "threads_run ver t n t' \<Longrightarrow> other_step t' t'' \<Longrightarrow> threads_run ver t n t''"

lemma emit_simps [simp]:
  "th_pc (emit evs pc t) = pc" "th_events (emit evs pc t) = th_events t @ evs" "th_stop (emit evs pc t) = th_stop t"
  "gotoStop (emit evs pc t) = gotoStop t" "isLogin (emit evs pc t) = isLogin t" "endpoint (emit evs pc t) = endpoint t"
  "receiver (emit evs pc t) = receiver t" "timer (emit evs pc t) = timer t" "th_worker (emit evs pc t) = th_worker t"
  by (simp_all add: emit_def)

lemma other_step_keeps:
  "other_step t t' \<Longrightarrow> th_pc t' = th_pc t \<and> th_events t' = th_events t \<and> th_worker t' = th_worker t \<and>
     (isLogin t \<longrightarrow> isLogin t') \<and> (gotoStop t \<longrightarrow> gotoStop t') \<and> (endpoint t' \<longrightarrow> endpoint t)"
  by (auto elim!: other_stepE)

subsection \<open>The network thread runs syncStart\<close>

lemma poll_seen: "k \<le> n \<Longrightarrow> poll ms n (\<lambda>i. k \<le> i) = (k < n, replicate k (SleepMs ms))"
proof (induction k arbitrary: n)
  case 0
  then show ?case by (cases n) simp_all
next
  case (Suc k)
  then show ?case by (cases n) simp_all
qed

lemma heartbeat_loop_snoc:
  "heartbeat_loop ver rs w = (False, evs, w') \<Longrightarrow> \<not> hr_stop r \<Longrightarrow>
   Worker_sendHeartbeat ver (hr_up r) (hr_clock r) w' = (ev, w'') \<Longrightarrow>
   heartbeat_loop ver (rs @ [r]) w = (False, evs @ ev @ [SleepMs 3000], w'')"
  by (induction rs arbitrary: w evs) (auto split: prod.splits if_splits)

lemma heartbeat_loop_stop:
  "heartbeat_loop ver rs w = (False, evs, w') \<Longrightarrow> hr_stop r \<Longrightarrow> heartbeat_loop ver (rs @ [r]) w = (True, evs, w')"
  by (induction rs arbitrary: w evs) (auto split: prod.splits if_splits)

abbreviation login_event :: "u32 \<Rightarrow> u32 \<Rightarrow> worker_event" where
  "login_event ver up \<equiv> SendPacket (NetPacket_new ver up (pt_code LoginRequest) 0)"

text \<open>What has been done when the network thread is at a statement.\<close>

definition before_login :: "nat \<Rightarrow> worker_event list" where
  "before_login k = replicate k (SleepMs 10)"

definition before_start :: "u32 \<Rightarrow> nat \<Rightarrow> u32 \<Rightarrow> nat \<Rightarrow> worker_event list" where
  "before_start ver k up j = before_login k @ [login_event ver up] @ replicate j (SleepMs 30)"

definition online_worker :: "('e, 'w) Worker \<Rightarrow> ('e, 'w) Worker" where
  "online_worker w = (if w_durationReporter w then w\<lparr>w_durationTimer := True\<rparr> else w)"

definition online_events :: "('e, 'w) Worker \<Rightarrow> worker_event list" where
  "online_events w = [ToggleState Connected [], EndpointStart] @ (if w_durationReporter w then [TimerStart] else [])"

definition at_statement :: "u32 \<Rightarrow> ('e, 'w) Worker \<Rightarrow> ('e, 'w) threads \<Rightarrow> bool" where
  "at_statement ver w t =
     (let w0 = w\<lparr>w_gotoStop := False\<rparr> in
      case th_pc t of
        Entry \<Rightarrow> th_events t = [] \<and> th_worker t = w
      | InitClient \<Rightarrow> th_events t = [] \<and> th_worker t = w0
      | PollConnected k \<Rightarrow> k \<le> 10 \<and> th_events t = before_login k \<and> th_worker t = w0
      | WaitConnected k \<Rightarrow> k < 10 \<and> th_events t = before_login k \<and> th_worker t = w0
      | SendLogin \<Rightarrow> (\<exists>k < 10. th_events t = before_login k) \<and> th_worker t = w0
      | PollLogin j \<Rightarrow> j \<le> 10 \<and> (\<exists>k < 10. \<exists>up. th_events t = before_start ver k up j) \<and> th_worker t = w0
      | WaitLogin j \<Rightarrow> j < 10 \<and> (\<exists>k < 10. \<exists>up. th_events t = before_start ver k up j) \<and> th_worker t = w0
      | CheckLogin \<Rightarrow>
          (\<exists>k < 10. \<exists>up j. (j < 10 \<and> isLogin t \<or> j = 10) \<and> th_events t = before_start ver k up j) \<and> th_worker t = w0
      | StartEndpoint \<Rightarrow>
          (\<exists>k < 10. \<exists>up. \<exists>j \<le> 10. th_events t = before_start ver k up j @ [ToggleState Connected []]) \<and> th_worker t = w0
      | StartTimer \<Rightarrow>
          (\<exists>k < 10. \<exists>up. \<exists>j \<le> 10. th_events t =
             before_start ver k up j @ [ToggleState Connected [], EndpointStart]) \<and> th_worker t = w0
      | SendLoop \<Rightarrow>
          (\<exists>k < 10. \<exists>up. \<exists>j \<le> 10. \<exists>rs evs. th_events t = before_start ver k up j @ online_events w0 @ evs \<and>
             heartbeat_loop ver rs (online_worker w0) = (False, evs, th_worker t))
      | SendHeartbeat \<Rightarrow>
          (\<exists>k < 10. \<exists>up. \<exists>j \<le> 10. \<exists>rs evs. th_events t = before_start ver k up j @ online_events w0 @ evs \<and>
             heartbeat_loop ver rs (online_worker w0) = (False, evs, th_worker t))
      | SendSleep \<Rightarrow>
          (\<exists>k < 10. \<exists>up. \<exists>j \<le> 10. \<exists>rs evs w1 ev. \<exists>r :: heartbeat_round. th_events t = before_start ver k up j @ online_events w0 @ evs @ ev \<and>
             heartbeat_loop ver rs (online_worker w0) = (False, evs, w1) \<and> \<not> hr_stop r \<and>
             Worker_sendHeartbeat ver (hr_up r) (hr_clock r) w1 = (ev, th_worker t))
      | Returned ret \<Rightarrow>
          (\<exists>env. st_ver env = ver \<and> st_endpointReturns env \<and>
             Worker_syncStart env w = (Some ret, th_events t, th_worker t))
      | Crashed e \<Rightarrow>
          (\<exists>k < 10. \<exists>up. \<exists>j \<le> 10. th_events t = before_start ver k up j @ [ToggleState Connected []]) \<and>
          e = NullPointer)"

lemma at_statement_other:
  assumes "other_step t t'" and "at_statement ver w t"
  shows "at_statement ver w t'"
proof -
  note keep = other_step_keeps [OF assms(1)]
  show ?thesis
  proof (cases "th_pc t = CheckLogin")
    case True
    then have "isLogin t \<longrightarrow> isLogin t'" "th_pc t' = CheckLogin" "th_events t' = th_events t" "th_worker t' = th_worker t"
      using keep by simp_all
    with assms(2) True show ?thesis
      unfolding at_statement_def Let_def by (simp only: net_pc.case) blast
  next
    case False
    with assms(2) keep show ?thesis
      by (cases "th_pc t") (simp_all add: at_statement_def Let_def)
  qed
qed

text \<open>The environment of the start-up that a run has observed.\<close>

definition seen_env :: "u32 \<Rightarrow> string option \<Rightarrow> nat \<Rightarrow> u32 \<Rightarrow> nat \<Rightarrow> bool \<Rightarrow> heartbeat_round list \<Rightarrow> u32 \<Rightarrow> start_env" where
  "seen_env ver failure k upLogin j after rounds upLogout =
     \<lparr>st_initThrows = failure, st_connected = \<lambda>i. k \<le> i, st_login = \<lambda>i. j \<le> i, st_loginAfter = after,
      st_endpointReturns = True, st_rounds = rounds, st_ver = ver, st_upLogin = upLogin, st_upLogout = upLogout\<rparr>"

lemma seen_throws:
  "Worker_syncStart (seen_env ver (Some what) k ul j after rs uo) w =
     (Some (ReturnType_str what), [], w\<lparr>w_gotoStop := False\<rparr>)"
  by (simp add: Worker_syncStart_def seen_env_def Let_def)

lemma seen_unconnected:
  "Worker_syncStart (seen_env ver None 10 ul j after rs uo) w =
     (Some (ReturnType_str ''Could not connect to Server...''),
      before_login 10 @ [ToggleState Disconnected ''Could not connect to Server...''] @
        (if w_durationReporter w then [ReportDuration 0] else []), w\<lparr>w_gotoStop := False\<rparr>)"
  using poll_seen [of 10 10 10] by (simp add: Worker_syncStart_def seen_env_def before_login_def Let_def)

lemma seen_no_login:
  "k < 10 \<Longrightarrow> j \<le> 10 \<Longrightarrow> Worker_syncStart (seen_env ver None k ul j False rs uo) w =
     (Some (ReturnType_str ''Could not Login to Server...''),
      before_start ver k ul j @ [ToggleState Disconnected ''Could not Login to Server...''], w\<lparr>w_gotoStop := False\<rparr>)"
  using poll_seen [of k 10 10] poll_seen [of j 10 30]
  by (simp add: Worker_syncStart_def seen_env_def before_start_def before_login_def Let_def)

lemma seen_stop:
  assumes "k < 10" and "j \<le> 10"
    and "heartbeat_loop ver rs (online_worker (w\<lparr>w_gotoStop := False\<rparr>)) = (True, evs, w')"
  shows "Worker_syncStart (seen_env ver None k ul j True rs uo) w =
     (Some (ReturnType_int 0),
      before_start ver k ul j @ online_events w @ evs @
        [SendPacket (NetPacket_new ver uo (pt_code LogoutRequest) 0)], w')"
  using poll_seen [of k 10 10] poll_seen [of j 10 30] assms
  by (cases "w_durationReporter w") (simp_all add: Worker_syncStart_def seen_env_def before_start_def before_login_def online_worker_def
      online_events_def Let_def)

lemma at_Returned:
  assumes "th_pc t = Returned ret"
    and "Worker_syncStart (seen_env ver f k ul j after rs uo) w = (Some ret, th_events t, th_worker t)"
  shows "at_statement ver w t"
proof -
  have "st_ver (seen_env ver f k ul j after rs uo) = ver \<and> st_endpointReturns (seen_env ver f k ul j after rs uo)"
    by (simp add: seen_env_def)
  with assms show ?thesis
    by (auto simp: at_statement_def Let_def)
qed

lemma at_loop:
  assumes "th_pc t = SendLoop \<or> th_pc t = SendHeartbeat" and "k < 10" and "j \<le> 10"
    and "th_events t = before_start ver k up j @ online_events w @ evs"
    and "heartbeat_loop ver rs (online_worker (w\<lparr>w_gotoStop := False\<rparr>)) = (False, evs, th_worker t)"
  shows "at_statement ver w t"
proof -
  have "online_events (w\<lparr>w_gotoStop := False\<rparr>) = online_events w"
    by (simp add: online_events_def)
  with assms show ?thesis
    unfolding at_statement_def Let_def by (elim disjE; simp only: net_pc.case; blast)
qed

text \<open>Every step of the network thread leads from statement to statement.\<close>

lemma at_statement_entry:
  "th_pc t = Entry \<Longrightarrow> at_statement ver w t \<Longrightarrow> net_step ver t t' \<Longrightarrow> at_statement ver w t'"
  by (auto elim!: net_stepE simp: at_statement_def)

lemma at_statement_init:
  assumes "th_pc t = InitClient" and "at_statement ver w t" and "net_step ver t t'"
  shows "at_statement ver w t'"
  using assms(3)
proof (cases rule: net_step.cases)
  case (init_throws what)
  then show ?thesis
    using assms(1,2) seen_throws [of ver what 0 0 0 False "[]" 0 w]
    by (intro at_Returned [of t' _ ver "Some what" 0 0 0 False "[]" 0 w]) (simp_all add: at_statement_def Let_def)
qed (use assms(1,2) in \<open>auto simp: at_statement_def Let_def before_login_def\<close>)

lemma at_statement_poll_connected:
  assumes "th_pc t = PollConnected k" and "at_statement ver w t" and "net_step ver t t'"
  shows "at_statement ver w t'"
proof -
  have inv: "k \<le> 10" "th_events t = before_login k" "th_worker t = w\<lparr>w_gotoStop := False\<rparr>"
    using assms(1,2) by (simp_all add: at_statement_def Let_def)
  from assms(3) show ?thesis
  proof (cases rule: net_step.cases)
    case (no_connection)
    then show ?thesis
      using assms(1) inv seen_unconnected [of ver 0 0 False "[]" 0 w]
      by (intro at_Returned [of t' _ ver None 10 0 0 False "[]" 0 w]) simp_all
  qed (use assms(1) inv in \<open>auto simp: at_statement_def Let_def before_login_def replicate_append_same\<close>)
qed

lemma at_statement_wait_connected:
  "th_pc t = WaitConnected k \<Longrightarrow> at_statement ver w t \<Longrightarrow> net_step ver t t' \<Longrightarrow> at_statement ver w t'"
  by (auto elim!: net_stepE simp: at_statement_def Let_def before_login_def replicate_append_same)

lemma before_start_Suc: "before_start ver k up j @ [SleepMs 30] = before_start ver k up (Suc j)"
  by (simp add: before_start_def replicate_append_same)

lemma at_statement_send_login:
  assumes "th_pc t = SendLogin" and "at_statement ver w t" and "net_step ver t t'"
  shows "at_statement ver w t'"
proof -
  obtain k where inv: "k < 10" "th_events t = before_login k" "th_worker t = w\<lparr>w_gotoStop := False\<rparr>"
    using assms(1,2) by (auto simp: at_statement_def Let_def)
  from assms(3) show ?thesis
  proof (cases rule: net_step.cases)
    case (send_login up)
    then have "th_events t' = before_start ver k up 0"
      using inv by (simp add: before_start_def)
    then show ?thesis
      using send_login inv unfolding at_statement_def Let_def by (simp only: emit_simps net_pc.case) blast
  qed (use assms(1) in simp_all)
qed

lemma at_statement_poll_login:
  assumes "th_pc t = PollLogin j" and "at_statement ver w t" and "net_step ver t t'"
  shows "at_statement ver w t'"
proof -
  obtain k up where inv: "k < 10" "j \<le> 10" "th_events t = before_start ver k up j" "th_worker t = w\<lparr>w_gotoStop := False\<rparr>"
    using assms(1,2) by (auto simp: at_statement_def Let_def)
  from assms(3) show ?thesis
  proof (cases rule: net_step.cases)
    case (login_unseen j')
    then have "th_events t' = before_start ver k up j" "th_pc t' = WaitLogin j" "j < 10" "th_worker t' = w\<lparr>w_gotoStop := False\<rparr>"
      using inv assms(1) by simp_all
    then show ?thesis
      using inv(1) unfolding at_statement_def Let_def by (simp only: net_pc.case) blast
  next
    case (login_seen j')
    then have "th_events t' = before_start ver k up j" "th_pc t' = CheckLogin" "j < 10" "isLogin t'"
        "th_worker t' = w\<lparr>w_gotoStop := False\<rparr>"
      using inv assms(1) by simp_all
    then show ?thesis
      using inv(1) unfolding at_statement_def Let_def by (simp only: net_pc.case) blast
  next
    case login_over
    then have "th_events t' = before_start ver k up 10" "th_pc t' = CheckLogin"
        "th_worker t' = w\<lparr>w_gotoStop := False\<rparr>"
      using inv assms(1) by simp_all
    then show ?thesis
      using inv(1) unfolding at_statement_def Let_def by (simp only: net_pc.case) blast
  qed (use assms(1) in simp_all)
qed

lemma at_statement_wait_login:
  assumes "th_pc t = WaitLogin j" and "at_statement ver w t" and "net_step ver t t'"
  shows "at_statement ver w t'"
proof -
  obtain k up where inv: "k < 10" "j < 10" "th_events t = before_start ver k up j" "th_worker t = w\<lparr>w_gotoStop := False\<rparr>"
    using assms(1,2) by (auto simp: at_statement_def Let_def)
  from assms(3) show ?thesis
  proof (cases rule: net_step.cases)
    case (wait_login j')
    then have "th_events t' = before_start ver k up (Suc j)" "th_pc t' = PollLogin (Suc j)" "Suc j \<le> 10"
        "th_worker t' = w\<lparr>w_gotoStop := False\<rparr>"
      using inv assms(1) by (simp_all add: before_start_Suc)
    then show ?thesis
      using inv(1) unfolding at_statement_def Let_def by (simp only: net_pc.case) blast
  qed (use assms(1) in simp_all)
qed

lemma at_statement_check_login:
  assumes "th_pc t = CheckLogin" and "at_statement ver w t" and "net_step ver t t'"
  shows "at_statement ver w t'"
proof -
  obtain k up j where inv: "k < 10" "j \<le> 10" "th_events t = before_start ver k up j" "th_worker t = w\<lparr>w_gotoStop := False\<rparr>"
    using assms(1,2) unfolding at_statement_def Let_def by (simp only: net_pc.case) (metis le_eq_less_or_eq)
  from assms(3) show ?thesis
  proof (cases rule: net_step.cases)
    case (no_login)
    then show ?thesis
      using inv seen_no_login [of k j ver up "[]" 0 w]
      by (intro at_Returned [of t' _ ver None k up j False "[]" 0 w]) simp_all
  next
    case logged_in
    then have "th_events t' = before_start ver k up j @ [ToggleState Connected []]" "th_pc t' = StartEndpoint"
        "th_worker t' = w\<lparr>w_gotoStop := False\<rparr>"
      using inv by simp_all
    then show ?thesis
      using inv(1,2) unfolding at_statement_def Let_def by (simp only: net_pc.case) blast
  qed (use assms(1) in simp_all)
qed

lemma at_statement_start_endpoint:
  assumes "th_pc t = StartEndpoint" and "at_statement ver w t" and "net_step ver t t'"
  shows "at_statement ver w t'"
proof -
  obtain k up j where inv: "k < 10" "j \<le> 10" "th_events t = before_start ver k up j @ [ToggleState Connected []]"
      "th_worker t = w\<lparr>w_gotoStop := False\<rparr>"
    using assms(1,2) by (auto simp: at_statement_def Let_def)
  from assms(3) show ?thesis
  proof (cases rule: net_step.cases)
    case start_endpoint
    then have "th_events t' = before_start ver k up j @ [ToggleState Connected [], EndpointStart]" "th_pc t' = StartTimer"
        "th_worker t' = w\<lparr>w_gotoStop := False\<rparr>"
      using inv by simp_all
    then show ?thesis
      using inv(1,2) unfolding at_statement_def Let_def by (simp only: net_pc.case) blast
  next
    case null_endpoint
    then have "th_events t' = before_start ver k up j @ [ToggleState Connected []]" "th_pc t' = Crashed NullPointer"
      using inv by simp_all
    then show ?thesis
      using inv(1,2) unfolding at_statement_def Let_def by (simp only: net_pc.case) blast
  qed (use assms(1) in simp_all)
qed

lemma at_statement_start_timer:
  assumes "th_pc t = StartTimer" and "at_statement ver w t" and "net_step ver t t'"
  shows "at_statement ver w t'"
proof -
  obtain k up j where inv: "k < 10" "j \<le> 10"
      "th_events t = before_start ver k up j @ [ToggleState Connected [], EndpointStart]"
      "th_worker t = w\<lparr>w_gotoStop := False\<rparr>"
    using assms(1,2) by (auto simp: at_statement_def Let_def)
  from assms(3) show ?thesis
  proof (cases rule: net_step.cases)
    case start_timer
    then show ?thesis
      using inv by (intro at_loop [of t' k j ver up w "[]" "[]"])
        (simp_all add: online_events_def online_worker_def)
  next
    case no_timer
    then show ?thesis
      using inv by (intro at_loop [of t' k j ver up w "[]" "[]"])
        (simp_all add: online_events_def online_worker_def)
  qed (use assms(1) in simp_all)
qed

lemma at_statement_send_loop:
  assumes "th_pc t = SendLoop" and "at_statement ver w t" and "net_step ver t t'"
  shows "at_statement ver w t'"
proof -
  obtain k up j rs evs where inv: "k < 10" "j \<le> 10" "th_events t = before_start ver k up j @ online_events w @ evs"
      "heartbeat_loop ver rs (online_worker (w\<lparr>w_gotoStop := False\<rparr>)) = (False, evs, th_worker t)"
    using assms(1,2) by (auto simp: at_statement_def Let_def online_events_def)
  from assms(3) show ?thesis
  proof (cases rule: net_step.cases)
    case (stop_seen up')
    let ?r = "\<lparr>hr_stop = True, hr_clock = (0, 0, 0), hr_up = 0\<rparr>"
    have "heartbeat_loop ver (rs @ [?r]) (online_worker (w\<lparr>w_gotoStop := False\<rparr>)) = (True, evs, th_worker t)"
      by (rule heartbeat_loop_stop [OF inv(4)]) simp
    from seen_stop [OF inv(1,2) this, of up up'] stop_seen inv show ?thesis
      by (intro at_Returned [of t' _ ver None k up j True "rs @ [?r]" up' w]) simp_all
  next
    case no_stop
    then show ?thesis
      using inv by (intro at_loop [of t' k j ver up w evs rs]) simp_all
  qed (use assms(1) in simp_all)
qed

lemma at_statement_send_heartbeat:
  assumes "th_pc t = SendHeartbeat" and "at_statement ver w t" and "net_step ver t t'"
  shows "at_statement ver w t'"
proof -
  let ?w0 = "w\<lparr>w_gotoStop := False\<rparr>"
  obtain k up j rs evs where inv: "k < 10" "j \<le> 10" "th_events t = before_start ver k up j @ online_events ?w0 @ evs"
      "heartbeat_loop ver rs (online_worker ?w0) = (False, evs, th_worker t)"
    using assms(1,2) by (auto simp: at_statement_def Let_def)
  from assms(3) show ?thesis
  proof (cases rule: net_step.cases)
    case (send_heartbeat up' clock ev w')
    let ?r = "\<lparr>hr_stop = False, hr_clock = clock, hr_up = up'\<rparr>"
    have "th_pc t' = SendSleep" "th_events t' = before_start ver k up j @ online_events ?w0 @ evs @ ev" "\<not> hr_stop ?r"
        "Worker_sendHeartbeat ver (hr_up ?r) (hr_clock ?r) (th_worker t) = (ev, th_worker t')"
      using send_heartbeat inv(3) by simp_all
    then show ?thesis
      using inv(1,2,4) unfolding at_statement_def Let_def by (simp only: net_pc.case) blast
  qed (use assms(1) in simp_all)
qed

lemma at_statement_send_sleep:
  assumes "th_pc t = SendSleep" and "at_statement ver w t" and "net_step ver t t'"
  shows "at_statement ver w t'"
proof -
  let ?w0 = "w\<lparr>w_gotoStop := False\<rparr>"
  obtain k up j rs evs w1 ev and r :: heartbeat_round where inv: "k < 10" "j \<le> 10"
      "th_events t = before_start ver k up j @ online_events ?w0 @ evs @ ev"
      "heartbeat_loop ver rs (online_worker ?w0) = (False, evs, w1)" "\<not> hr_stop r"
      "Worker_sendHeartbeat ver (hr_up r) (hr_clock r) w1 = (ev, th_worker t)"
    using assms(1,2) unfolding at_statement_def Let_def by (simp only: net_pc.case) blast
  have "online_events ?w0 = online_events w"
    by (simp add: online_events_def)
  note inv = inv(1,2) inv(3) [unfolded this] inv(4-6)
  from assms(3) show ?thesis
  proof (cases rule: net_step.cases)
    case send_sleep
    then show ?thesis
      using inv heartbeat_loop_snoc [OF inv(4,5,6)]
      by (intro at_loop [of t' k j ver up w "evs @ ev @ [SleepMs 3000]" "rs @ [r]"]) simp_all
  qed (use assms(1) in simp_all)
qed

lemma no_step_after_end:
  "th_pc t = Returned r \<or> th_pc t = Crashed e \<Longrightarrow> \<not> net_step ver t t'"
  by (auto elim!: net_stepE)

lemmas at_statement_steps =
  at_statement_entry at_statement_init at_statement_poll_connected at_statement_wait_connected at_statement_send_login
  at_statement_poll_login at_statement_wait_login at_statement_check_login at_statement_start_endpoint
  at_statement_start_timer at_statement_send_loop at_statement_send_heartbeat at_statement_send_sleep

lemma at_statement_step:
  assumes "net_step ver t t'" and "at_statement ver w t"
  shows "at_statement ver w t'"
  using assms(1) by (cases rule: net_step.cases) (rule at_statement_steps [OF _ assms(2,1)], assumption)+

lemma threads_run_at_statement:
  "threads_run ver (threads_start w) n t \<Longrightarrow> at_statement ver (Worker_asyncStart w) t"
proof (induction n t rule: threads_run.induct)
  case run_start
  then show ?case by (simp add: at_statement_def threads_start_def)
qed (blast intro: at_statement_step at_statement_other)+

text \<open>
  C11: the interleaved model implements the sequential one. Whatever the other threads do, when the
  network thread returns then its result, what it did and the worker it leaves are those of syncStart
  for some readings of the flags and of the clock.
\<close>
theorem net_thread_refines_syncStart:
  assumes "threads_run ver (threads_start w) n t" and "th_pc t = Returned ret"
  shows "\<exists>env. st_ver env = ver \<and> st_endpointReturns env \<and>
    Worker_syncStart env (Worker_asyncStart w) = (Some ret, th_events t, th_worker t)"
  using threads_run_at_statement [OF assms(1)] assms(2) by (simp add: at_statement_def)

theorem net_thread_refines_syncStart_witness:
  "\<exists>t env. threads_run 3 (threads_start toy_worker) 2 t \<and>
    Worker_syncStart env (Worker_asyncStart toy_worker) = (Some (ReturnType_str ''resolve''), th_events t, th_worker t)"
proof -
  let ?t0 = "threads_start toy_worker"
  obtain t1 where t1: "net_step 3 ?t0 t1" "th_pc t1 = InitClient"
    using enter [of ?t0 3] by (fastforce simp: threads_start_def)
  obtain t2 where t2: "net_step 3 t1 t2" "th_pc t2 = Returned (ReturnType_str ''resolve'')"
    using init_throws [OF t1(2), of 3 "''resolve''"] by fastforce
  have "threads_run 3 ?t0 2 t2"
    using run_net [OF run_net [OF run_start t1(1)] t2(1)] by (simp add: numeral_2_eq_2)
  with net_thread_refines_syncStart [OF this t2(2)] show ?thesis
    by blast
qed

subsection \<open>Stopping\<close>

text \<open>The steps that the network thread can still take once the flag is set, and the sleeping that is left.\<close>

fun net_weight :: "net_pc \<Rightarrow> nat" where
  "net_weight Entry = 49"
| "net_weight InitClient = 48"
| "net_weight (PollConnected k) = 27 + 2 * (10 - k)"
| "net_weight (WaitConnected k) = 28 + 2 * (9 - k)"
| "net_weight SendLogin = 26"
| "net_weight (PollLogin j) = 5 + 2 * (10 - j)"
| "net_weight (WaitLogin j) = 6 + 2 * (9 - j)"
| "net_weight CheckLogin = 4"
| "net_weight StartEndpoint = 3"
| "net_weight StartTimer = 2"
| "net_weight SendHeartbeat = 3"
| "net_weight SendSleep = 2"
| "net_weight SendLoop = 1"
| "net_weight (Returned ret) = 0"
| "net_weight (Crashed e) = 0"

fun sleep_left :: "net_pc \<Rightarrow> nat" where
  "sleep_left (PollConnected k) = 10 * (10 - k) + 300"
| "sleep_left (WaitConnected k) = 10 * (9 - k) + 310"
| "sleep_left SendLogin = 300"
| "sleep_left (PollLogin j) = 30 * (10 - j)"
| "sleep_left (WaitLogin j) = 30 * (9 - j) + 30"
| "sleep_left SendHeartbeat = 3000"
| "sleep_left SendSleep = 3000"
| "sleep_left pc = (if net_weight pc \<ge> 48 then 400 else 0)"

lemma sendHeartbeat_slept: "Worker_sendHeartbeat ver up clock w = (ev, w') \<Longrightarrow> slept ev = 0"
  by (auto simp: Worker_sendHeartbeat_def Let_def split: prod.splits if_splits)

lemma stopping_step:
  assumes "net_step ver t t'" and "gotoStop t" and "th_pc t \<noteq> Entry"
  shows "gotoStop t' \<and> th_pc t' \<noteq> Entry \<and> net_weight (th_pc t') < net_weight (th_pc t) \<and>
    slept (th_events t') + sleep_left (th_pc t') \<le> slept (th_events t) + sleep_left (th_pc t)"
  using assms(1) by (cases rule: net_step.cases, use assms(2,3) in \<open>simp_all add: sendHeartbeat_slept\<close>) arith+

lemma stopping_run:
  "threads_run ver t n t' \<Longrightarrow> gotoStop t \<Longrightarrow> th_pc t \<noteq> Entry \<Longrightarrow>
   gotoStop t' \<and> th_pc t' \<noteq> Entry \<and> n + net_weight (th_pc t') \<le> net_weight (th_pc t) \<and>
   slept (th_events t') + sleep_left (th_pc t') \<le> slept (th_events t) + sleep_left (th_pc t)"
proof (induction n t' rule: threads_run.induct)
  case (run_net n t' t'')
  then show ?case
    using stopping_step [OF run_net.hyps(2)] by fastforce
next
  case (run_other n t' t'')
  then show ?case
    using other_step_keeps [OF run_other.hyps(2)] by simp
qed simp

lemma threads_run_trans:
  assumes "threads_run ver t n t'" and "threads_run ver t' m t''"
  shows "threads_run ver t (m + n) t''"
  using assms(2,1) by (induction m t'' rule: threads_run.induct) (auto intro: threads_run.intros)

text \<open>Before its end the network thread can always take a step.\<close>

lemma net_thread_progress:
  assumes "at_statement ver w t" and "\<And>t'. \<not> net_step ver t t'"
  shows "(\<exists>r. th_pc t = Returned r) \<or> th_pc t = Crashed NullPointer"
proof (cases "th_pc t")
  case (PollConnected k)
  then have "k < 10 \<or> k = 10"
    using assms(1) by (auto simp: at_statement_def Let_def)
  with PollConnected assms(2) show ?thesis
    using connected [of t k ver] no_connection [of t ver] by blast
next
  case (PollLogin j)
  then have "j < 10 \<or> j = 10"
    using assms(1) by (auto simp: at_statement_def Let_def)
  with PollLogin assms(2) show ?thesis
    using login_seen [of t j ver] login_unseen [of t j ver] login_over [of t ver] by blast
next
  case SendHeartbeat
  obtain ev w where "Worker_sendHeartbeat ver 0 (0, 0, 0) (th_worker t) = (ev, w)"
    by fastforce
  with SendHeartbeat assms(2) show ?thesis
    using send_heartbeat [of t ver 0 "(0, 0, 0)" ev w] by blast
next
  case (Crashed e)
  then show ?thesis
    using assms(1) by (simp add: at_statement_def)
qed (use assms(2) in \<open>blast intro: net_step.intros\<close>)+

text \<open>The bookkeeping of syncStop: how far it is agrees with the flag, the endpoint and the network thread.\<close>

definition stop_inv :: "('e, 'w) threads \<Rightarrow> bool" where
  "stop_inv t \<longleftrightarrow>
     (th_pc t \<noteq> Entry \<and> gotoStop t \<longrightarrow> th_stop t \<noteq> NotCalled) \<and>
     (endpoint t \<longleftrightarrow> th_stop t \<in> {NotCalled, Flagged}) \<and>
     (th_stop t \<in> {NetThreadJoined, Stopped} \<longrightarrow> (\<exists>r. th_pc t = Returned r)) \<and>
     (\<forall>e. th_pc t = Crashed e \<longrightarrow> \<not> endpoint t)"

lemma stop_inv_net: "net_step ver t t' \<Longrightarrow> stop_inv t \<Longrightarrow> stop_inv t'"
  by (erule net_step.cases) (auto simp: stop_inv_def)

lemma stop_inv_other: "other_step t t' \<Longrightarrow> stop_inv t \<Longrightarrow> stop_inv t'"
  by (erule other_step.cases) (auto simp: stop_inv_def)

lemma threads_run_stop_inv: "threads_run ver (threads_start w) n t \<Longrightarrow> stop_inv t"
proof (induction n t rule: threads_run.induct)
  case run_start
  then show ?case by (simp add: stop_inv_def threads_start_def)
qed (blast intro: stop_inv_net stop_inv_other)+

lemma sleep_left_bound: "sleep_left pc \<le> (if pc \<in> {SendHeartbeat, SendSleep} then 3000 else 400)"
  by (cases pc) simp_all

lemma net_weight_bound: "pc \<noteq> Entry \<Longrightarrow> net_weight pc \<le> 48"
  by (cases pc) simp_all

text \<open>When nobody but the receiver can take a step any more, the stop is through.\<close>

lemma stop_complete:
  assumes "at_statement ver w t" and "stop_inv t" and "gotoStop t" and "th_pc t \<noteq> Entry"
    and "\<And>t'. \<not> net_step ver t t'"
    and quiet: "\<And>t'. other_step t t' \<Longrightarrow> th_stop t' = th_stop t \<and> timer t' = timer t"
  shows "th_stop t = Stopped \<or> th_pc t = Crashed NullPointer"
proof (cases "th_pc t = Crashed NullPointer")
  case False
  then obtain r where r: "th_pc t = Returned r"
    using net_thread_progress [OF assms(1,5)] by blast
  have "\<not> timer t"
    using quiet [OF timer_ends [OF _ assms(3)]] by fastforce
  moreover have "th_stop t \<noteq> NotCalled"
    using assms(2-4) by (simp add: stop_inv_def)
  moreover have "th_stop t \<noteq> Flagged" "th_stop t \<noteq> EndpointCleared"
    using quiet [OF stop_endpoint] quiet [OF join_net [OF _ r]] by fastforce+
  moreover have "\<not> (th_stop t = NetThreadJoined \<and> \<not> timer t)"
    using quiet [OF join_timer] by fastforce
  ultimately show ?thesis
    by (cases "th_stop t") blast+
qed simp

text \<open>
  C21: a stop ends the worker. From a reachable state in which syncStop has set the flag and the network
  thread is past its first statement, the network thread takes at most 48 more steps, whatever the other threads do. In them
  it sleeps for at most 400 milliseconds, but for up to 3 seconds when it has read the flag before the stop and is now
  at the heartbeat or in the sleep of a round of the sending loop; and when no thread but the receiver can go on,
  syncStop has joined both threads and is through, unless the network thread has crashed.
\<close>
theorem stop_ends_threads:
  assumes "threads_run ver (threads_start w) m t" and "gotoStop t" and "th_pc t \<noteq> Entry"
    and "threads_run ver t n t'"
  shows "n \<le> 48 \<and>
    slept (th_events t') \<le> slept (th_events t) + (if th_pc t \<in> {SendHeartbeat, SendSleep} then 3000 else 400) \<and>
    ((\<forall>t''. \<not> net_step ver t' t'') \<and> (\<forall>t''. other_step t' t'' \<longrightarrow> th_stop t'' = th_stop t' \<and> timer t'' = timer t') \<longrightarrow>
      th_stop t' = Stopped \<or> th_pc t' = Crashed NullPointer)"
proof -
  have r: "threads_run ver (threads_start w) (n + m) t'"
    by (rule threads_run_trans [OF assms(1,4)])
  have s: "gotoStop t'" "th_pc t' \<noteq> Entry" "n + net_weight (th_pc t') \<le> net_weight (th_pc t)"
      "slept (th_events t') + sleep_left (th_pc t') \<le> slept (th_events t) + sleep_left (th_pc t)"
    using stopping_run [OF assms(4,2,3)] by blast+
  have "n \<le> 48"
      "slept (th_events t') \<le> slept (th_events t) + (if th_pc t \<in> {SendHeartbeat, SendSleep} then 3000 else 400)"
    using s(3,4) net_weight_bound [OF assms(3)] sleep_left_bound [of "th_pc t"] by linarith+
  then show ?thesis
    using stop_complete [OF threads_run_at_statement [OF r] threads_run_stop_inv [OF r] s(1,2)] by blast
qed

theorem stop_ends_threads_witness:
  "\<exists>m t t'. threads_run 3 (threads_start toy_worker) m t \<and> gotoStop t \<and> threads_run 3 t 1 t' \<and>
     slept (th_events t') \<le> slept (th_events t) + 400"
proof -
  let ?s = "threads_start toy_worker"
  obtain t1 where t1: "threads_run 3 ?s 1 t1" "th_pc t1 = InitClient" "th_stop t1 = NotCalled"
    using run_net [OF run_start enter [of ?s 3]] by (fastforce simp: threads_start_def)
  obtain t2 where t2: "threads_run 3 ?s 1 t2" "gotoStop t2" "th_pc t2 = InitClient"
    using run_other [OF t1(1) stop_called [OF t1(3)]] t1(2) by fastforce
  have "threads_run 3 t2 1 (emit [] (PollConnected 0) (t2\<lparr>receiver := True\<rparr>))"
    using run_net [OF run_start init_ok [OF t2(3)]] by simp
  with t2 stop_ends_threads [OF t2(1,2) _ this] show ?thesis
    by fastforce
qed

subsection \<open>Two ways to stop badly\<close>

text \<open>The run to the login: the client connects at once and the answer is there before the first wait.\<close>

lemma run_to_check:
  assumes "threads_run ver t0 n t" and "th_pc t = Entry"
  shows "\<exists>m t'. threads_run ver t0 m t' \<and> th_pc t' = CheckLogin \<and> isLogin t' \<and> endpoint t' = endpoint t \<and>
    th_stop t' = th_stop t \<and> \<not> gotoStop t' \<and> th_events t' = th_events t @ [login_event ver 0]"
proof -
  let ?a = "emit [] InitClient (t\<lparr>gotoStop := False, isLogin := False, th_worker := (th_worker t)\<lparr>w_gotoStop := False\<rparr>\<rparr>)"
  let ?b = "emit [] (PollConnected 0) (?a\<lparr>receiver := True\<rparr>)"
  let ?c = "emit [] SendLogin ?b"
  let ?d = "emit [login_event ver 0] (PollLogin 0) ?c"
  let ?e = "?d\<lparr>isLogin := True\<rparr>"
  let ?f = "emit [] CheckLogin ?e"
  have "threads_run ver t0 (Suc (Suc (Suc n))) ?c"
    by (intro run_net [OF run_net [OF run_net [OF assms(1) enter] init_ok] connected [of _ 0]])
      (simp_all add: assms(2))
  then have "threads_run ver t0 (Suc (Suc (Suc (Suc n)))) ?e"
    by (intro run_other [OF run_net [OF _ send_login] login_response]) (simp_all add: emit_def)
  then have "threads_run ver t0 (Suc (Suc (Suc (Suc (Suc n))))) ?f"
    by (intro run_net [OF _ login_seen [of _ 0]]) simp_all
  then show ?thesis
    by (intro exI [of _ "Suc (Suc (Suc (Suc (Suc n))))"] exI [of _ ?f]) simp
qed

lemma run_from_check:
  assumes "threads_run ver t0 n t" and "th_pc t = CheckLogin" and "isLogin t"
  shows "\<exists>m t'. threads_run ver t0 m t' \<and> th_pc t' = StartEndpoint \<and> endpoint t' = endpoint t \<and>
    th_stop t' = th_stop t \<and> gotoStop t' = gotoStop t"
  using run_net [OF assms(1) logged_in [OF assms(2,3)]] by fastforce

text \<open>The calls of syncStop up to the join.\<close>

lemma run_stop:
  assumes "threads_run ver t0 n t" and "th_stop t = NotCalled"
  shows "\<exists>t'. threads_run ver t0 n t' \<and> th_stop t' = EndpointCleared \<and> gotoStop t' \<and> \<not> endpoint t' \<and>
    th_pc t' = th_pc t \<and> isLogin t' = isLogin t"
  using run_other [OF run_other [OF assms(1) stop_called [OF assms(2)]] stop_endpoint] by fastforce

lemma crashed_before_start:
  assumes "threads_run ver (threads_start w) n t" and "th_pc t = Crashed e"
  shows "e = NullPointer \<and> \<not> endpoint t \<and> th_stop t = EndpointCleared \<and> EndpointStart \<notin> set (th_events t)"
proof -
  have "e = NullPointer" "EndpointStart \<notin> set (th_events t)"
    using threads_run_at_statement [OF assms(1)] assms(2)
    by (auto simp: at_statement_def before_start_def before_login_def)
  moreover have "\<not> endpoint t" "th_stop t = EndpointCleared"
    using threads_run_stop_inv [OF assms(1)] assms(2) by (cases "th_stop t"; auto simp: stop_inv_def)+
  ultimately show ?thesis
    by blast
qed

text \<open>
  C31: stopping while the worker connects crashes it. There is a run in which the network thread crashes after a
  stop, and whenever it crashes, that is because syncStop has cleared the endpoint, waits for the thread, and the thread
  then dereferences the null pointer: the endpoint was never started.
\<close>
theorem stop_while_connecting_crashes:
  "(\<exists>n t. threads_run ver (threads_start w) n t \<and> th_pc t = Crashed NullPointer \<and> gotoStop t) \<and>
   (\<forall>n t e. threads_run ver (threads_start w) n t \<and> th_pc t = Crashed e \<longrightarrow>
      e = NullPointer \<and> \<not> endpoint t \<and> th_stop t = EndpointCleared \<and> EndpointStart \<notin> set (th_events t))"
proof
  have start: "th_pc (threads_start w) = Entry" "th_stop (threads_start w) = NotCalled"
    by (simp_all add: threads_start_def)
  obtain n1 t1 where t1: "threads_run ver (threads_start w) n1 t1" "th_pc t1 = CheckLogin" "isLogin t1" "th_stop t1 = NotCalled"
    using run_to_check [OF run_start start(1), of ver] start(2) by auto
  obtain t2 where t2: "threads_run ver (threads_start w) n1 t2" "gotoStop t2" "\<not> endpoint t2"
      "th_pc t2 = CheckLogin" "isLogin t2"
    using run_stop [OF t1(1,4)] t1(2,3) by auto
  obtain n3 t3 where t3: "threads_run ver (threads_start w) n3 t3" "th_pc t3 = StartEndpoint" "\<not> endpoint t3" "gotoStop t3"
    using run_from_check [OF t2(1,4,5)] t2(2,3) by auto
  show "\<exists>n t. threads_run ver (threads_start w) n t \<and> th_pc t = Crashed NullPointer \<and> gotoStop t"
    using run_net [OF t3(1) null_endpoint [OF t3(2,3)]] t3(4) by fastforce
qed (use crashed_before_start in blast)

theorem stop_while_connecting_crashes_witness:
  "\<exists>n t. threads_run 3 (threads_start toy_worker) n t \<and> th_stop t = EndpointCleared \<and> th_pc t = Crashed NullPointer"
  using stop_while_connecting_crashes [of 3 toy_worker] by blast

text \<open>A stop that comes before the first statement of the network thread is forgotten by it.\<close>

definition stop_lost :: "('e, 'w) threads \<Rightarrow> bool" where
  "stop_lost t \<longleftrightarrow> th_stop t \<noteq> NotCalled \<and>
     (th_pc t = Entry \<or> \<not> gotoStop t \<and> th_pc t \<noteq> Returned (ReturnType_int 0))"

lemma stop_lost_net: "net_step ver t t' \<Longrightarrow> stop_lost t \<Longrightarrow> stop_lost t'"
  by (erule net_step.cases) (auto simp: stop_lost_def)

lemma stop_lost_other: "other_step t t' \<Longrightarrow> stop_lost t \<Longrightarrow> stop_lost t'"
  by (erule other_step.cases) (auto simp: stop_lost_def)

lemma stop_lost_run: "threads_run ver t n t' \<Longrightarrow> stop_lost t \<Longrightarrow> stop_lost t'"
  by (induction n t' rule: threads_run.induct) (blast intro: stop_lost_net stop_lost_other)+

text \<open>In the sending loop, with the stop lost, nothing moves any more but the heartbeats.\<close>

definition in_loop :: "net_pc \<Rightarrow> bool" where
  "in_loop pc \<longleftrightarrow> pc \<in> {SendLoop, SendHeartbeat, SendSleep}"

lemma lost_in_loop_net:
  "net_step ver t t' \<Longrightarrow> in_loop (th_pc t) \<Longrightarrow> \<not> gotoStop t \<Longrightarrow> in_loop (th_pc t') \<and> \<not> gotoStop t' \<and> th_stop t' = th_stop t"
  by (erule net_step.cases) (simp_all add: in_loop_def)

lemma lost_in_loop_other:
  "other_step t t' \<Longrightarrow> in_loop (th_pc t) \<Longrightarrow> \<not> gotoStop t \<Longrightarrow> th_stop t = EndpointCleared \<Longrightarrow>
   in_loop (th_pc t') \<and> \<not> gotoStop t' \<and> th_stop t' = EndpointCleared"
  by (erule other_step.cases) (auto simp: in_loop_def)

lemma lost_in_loop_run:
  "threads_run ver t n t' \<Longrightarrow> in_loop (th_pc t) \<Longrightarrow> \<not> gotoStop t \<Longrightarrow> th_stop t = EndpointCleared \<Longrightarrow>
   in_loop (th_pc t') \<and> \<not> gotoStop t' \<and> th_stop t' = EndpointCleared"
proof (induction n t' rule: threads_run.induct)
  case (run_net n t' t'')
  then show ?case
    using lost_in_loop_net [OF run_net.hyps(2)] by fastforce
next
  case (run_other n t' t'')
  then show ?case
    using lost_in_loop_other [OF run_other.hyps(2)] by fastforce
qed simp

text \<open>
  C32: a stop can be lost. If syncStop sets the flag before the network thread has executed its first statement, then that
  statement resets the flag: the thread never leaves by its stop condition, and there is such a run after
  which it sends heartbeats for ever while syncStop waits in its join, with the caller told that it is connected.
\<close>
theorem stop_can_be_lost:
  "(\<forall>n t m t'. threads_run ver (threads_start w) n t \<and> th_pc t = Entry \<and> th_stop t \<noteq> NotCalled \<and>
      threads_run ver t m t' \<longrightarrow> th_pc t' \<noteq> Returned (ReturnType_int 0)) \<and>
   (\<exists>n t. threads_run ver (threads_start w) n t \<and> ToggleState Connected [] \<in> set (th_events t) \<and>
      (\<forall>m t'. threads_run ver t m t' \<longrightarrow>
        th_pc t' \<in> {SendLoop, SendHeartbeat, SendSleep} \<and> th_stop t' = EndpointCleared))"
proof (intro conjI allI impI)
  fix n t m t'
  assume "threads_run ver (threads_start w) n t \<and> th_pc t = Entry \<and> th_stop t \<noteq> NotCalled \<and> threads_run ver t m t'"
  then have "stop_lost t'"
    using stop_lost_run [of ver t m t'] by (simp add: stop_lost_def)
  then show "th_pc t' \<noteq> Returned (ReturnType_int 0)"
    by (auto simp: stop_lost_def)
next
  let ?s = "threads_start w"
  have "threads_run ver ?s 0 (?s\<lparr>th_stop := Flagged, gotoStop := True\<rparr>)"
    by (rule run_other [OF run_start stop_called]) (simp add: threads_start_def)
  from run_to_check [OF this] obtain n1 t1 where t1: "threads_run ver ?s n1 t1" "th_pc t1 = CheckLogin" "isLogin t1"
      "th_stop t1 = Flagged" "\<not> gotoStop t1" "endpoint t1"
    by (auto simp: threads_start_def)
  obtain n2 t2 where t2: "threads_run ver ?s n2 t2" "th_pc t2 = StartEndpoint" "th_stop t2 = Flagged"
      "\<not> gotoStop t2" "endpoint t2"
    using run_from_check [OF t1(1,2,3)] t1(4-6) by auto
  obtain n3 t3 where t3: "threads_run ver ?s n3 t3" "th_pc t3 = StartTimer" "th_stop t3 = Flagged" "\<not> gotoStop t3"
    using run_net [OF t2(1) start_endpoint [OF t2(2,5)]] t2(3,4) by fastforce
  obtain t4 where t4: "threads_run ver ?s n3 t4" "th_pc t4 = StartTimer" "th_stop t4 = EndpointCleared" "\<not> gotoStop t4"
    using run_other [OF t3(1) stop_endpoint [OF t3(3)]] t3(2,4) by fastforce
  obtain n5 t5 where t5: "threads_run ver ?s n5 t5" "th_pc t5 = SendLoop" "th_stop t5 = EndpointCleared" "\<not> gotoStop t5"
    using run_net [OF t4(1) start_timer [OF t4(2)]] run_net [OF t4(1) no_timer [OF t4(2)]] t4(3,4) by fastforce
  have "ToggleState Connected [] \<in> set (th_events t5)"
    using threads_run_at_statement [OF t5(1)] t5(2) by (auto simp: at_statement_def online_events_def Let_def)
  then show "\<exists>n t. threads_run ver ?s n t \<and> ToggleState Connected [] \<in> set (th_events t) \<and>
      (\<forall>m t'. threads_run ver t m t' \<longrightarrow>
        th_pc t' \<in> {SendLoop, SendHeartbeat, SendSleep} \<and> th_stop t' = EndpointCleared)"
    using t5(1) lost_in_loop_run [OF _ _ t5(4,3)] t5(2) unfolding in_loop_def by blast
qed

theorem stop_can_be_lost_witness:
  "\<exists>n t. threads_run 3 (threads_start toy_worker) n t \<and> th_pc t \<in> {SendLoop, SendHeartbeat, SendSleep} \<and>
     th_stop t = EndpointCleared"
  using stop_can_be_lost [of 3 toy_worker] run_start [of 3] by blast

end
