(* ===== verification/Voice_Path.thy ===== *)
theory Voice_Path
  imports Worker_Properties Raw_Udp_Server Net_Client
begin

text \<open>
  The path of speech from the microphone of one client over the UDP server to the loudspeaker of another: what the
  sending pipeline of the worker puts into packets (client_essential/Worker.cpp), what the server relays in a run of
  several events (server/RawUdpServer.cpp), what the receiver thread hands over (net_engine/RawUdpClient.cpp),
  and what the callbacks of the other worker play (audio_engine/DownstreamProcessor.cpp).
\<close>

subsection \<open>The server relays a sequence of packets\<close>

lemma sends_to_one:
  assumes "set out = (\<lambda>r. (r, bs)) ` S" and "distinct (map fst out)"
  shows "filter (\<lambda>x. fst x = b) out = (if b \<in> S then [(b, bs)] else [])"
proof -
  have "filter (\<lambda>x. fst x = b) out = map (\<lambda>r. (r, bs)) (filter (\<lambda>r. r = b) (map fst out))"
    using assms(1) by (auto simp: filter_map comp_def map_idI image_iff intro!: map_idI [symmetric])
  moreover have "filter (\<lambda>r. r = b) rs = (if b \<in> set rs then [b] else [])" if "distinct rs" for rs
    using that by (induction rs) (auto simp: filter_empty_conv)
  moreover have "set (map fst out) = S"
    by (simp add: assms(1) image_image)
  ultimately show ?thesis
    using assms(2) by simp
qed

text \<open>The datagrams that one side receives, from the sends of the server.\<close>

definition sent_to :: "'ep \<Rightarrow> 'ep sends list \<Rightarrow> byte list list" where
  "sent_to b outs = map snd (filter (\<lambda>x. fst x = b) (concat outs))"

lemma sent_to_simps [simp]:
  "sent_to b [] = []" "sent_to b (out # outs) = map snd (filter (\<lambda>x. fst x = b) out) @ sent_to b outs"
  by (simp_all add: sent_to_def)

text \<open>
  A sequence of receives of the server in which a sends the given packets, in this order; the other endpoints
  send anything that is not a media packet (log in, log out, heartbeats, broken datagrams), and b, which may
  talk at the same time, sends media packets or broken datagrams.
\<close>

fun conversation :: "'ep \<Rightarrow> 'ep \<Rightarrow> NetPacket list \<Rightarrow> 'ep recv_event list \<Rightarrow> bool" where
  "conversation a b ps [] \<longleftrightarrow> ps = []"
| "conversation a b ps (e # es) \<longleftrightarrow>
     (if ev_from e = a then
        \<not> ev_ec e \<and> (case ps of [] \<Rightarrow> False | p # ps \<Rightarrow> ev_bytes e = wholePacket p \<and> conversation a b ps es)
      else
        (\<forall>msg. datagram_packet (ev_bytes e) = Some msg \<longrightarrow> (isMediaType msg \<longleftrightarrow> ev_from e = b)) \<and> conversation a b ps es)"

text \<open>Such a message of an endpoint other than a changes nothing for b.\<close>

lemma relay_spec_bystander:
  assumes "relay_spec ver up False c m (E, n) = ((E', n'), out)" and "b \<in> E"
    and "\<And>msg. m = Some msg \<Longrightarrow> isMediaType msg \<longleftrightarrow> c = b"
  shows "b \<in> E' \<and> b \<notin> fst ` out"
  using assms by (cases m) (auto simp: relay_spec_def split: option.splits PayloadType.splits if_splits)

lemma udp_step_bystander:
  assumes "udp_reachable ver False s" and "udp_step ver s e out s'" and "b \<in> endpoints s"
    and "\<And>msg. datagram_packet (ev_bytes e) = Some msg \<Longrightarrow> isMediaType msg \<longleftrightarrow> ev_from e = b"
  shows "b \<in> endpoints s' \<and> filter (\<lambda>x. fst x = b) out = []"
proof (cases "ev_ec e \<or> ev_bytes e = []")
  case True
  then have "out = []" "endpoints s' = endpoints s"
    using doReceive_ignored(2,3) [of s ver e s' out] udp_reachable_inv [OF assms(1)] assms(2)
    by (auto elim: udp_stepE)
  then show ?thesis
    using assms(3) by simp
next
  case False
  then have "((endpoints s', counterUserMessage s'), set out) =
      relay_spec ver (ev_up e) False (ev_from e) (datagram_packet (ev_bytes e)) (endpoints s, counterUserMessage s)"
    using udp_step_refines(2) [OF assms(1,2)] by blast
  from relay_spec_bystander [OF this [symmetric] assms(3,4)] show ?thesis
    by (auto simp: filter_empty_conv)
qed

lemma udp_step_relays:
  assumes "udp_reachable ver False s" and "udp_step ver s e out s'" and "\<not> ev_ec e" and "ev_bytes e = wholePacket p"
    and "packet_wf p" and "length (wholePacket p) \<le> max_length" and "isMediaType p"
    and "b \<in> endpoints s" and "ev_from e \<noteq> b"
  shows "b \<in> endpoints s' \<and> filter (\<lambda>x. fst x = b) out = [(b, wholePacket p)]"
proof -
  have out: "set out = (\<lambda>r. (r, wholePacket p)) ` (endpoints s - {ev_from e})" "distinct (map fst out)"
      "endpoints s' = insert (ev_from e) (endpoints s)"
    using udp_step_refines [OF assms(1,2,3)] assms(4-7)
    by (simp_all add: relay_spec_def datagram_packet_wf packet_wf_nonempty)
  then show ?thesis
    using sends_to_one [OF out(1,2), of b] assms(8,9) by simp
qed

lemma conversation_relayed:
  assumes "udp_steps ver s es outs s'" and "udp_reachable ver False s" and "b \<in> endpoints s" and "a \<noteq> b"
    and "conversation a b ps es"
    and "\<And>p. p \<in> set ps \<Longrightarrow> packet_wf p \<and> length (wholePacket p) \<le> max_length \<and> isMediaType p"
  shows "sent_to b outs = map wholePacket ps"
  using assms
proof (induction arbitrary: ps rule: udp_steps.induct)
  case (more s e out s' es outs s'')
  note reach = udp_reachable.step [OF more.prems(1) more.hyps(1)]
  show ?case
  proof (cases "ev_from e = a")
    case True
    then obtain p ps' where ps: "ps = p # ps'" "\<not> ev_ec e" "ev_bytes e = wholePacket p" "conversation a b ps' es"
      using more.prems(4) by (auto split: list.splits)
    then have st: "b \<in> endpoints s' \<and> filter (\<lambda>x. fst x = b) out = [(b, wholePacket p)]"
      using more.prems(2,3,5) True by (intro udp_step_relays [OF more.prems(1) more.hyps(1)]) auto
    then have "sent_to b outs = map wholePacket ps'"
      using more.IH [OF reach _ more.prems(3) ps(4)] more.prems(5) by (simp add: ps(1))
    with st show ?thesis
      by (simp add: ps(1))
  next
    case False
    then have c: "conversation a b ps es"
        "\<And>msg. datagram_packet (ev_bytes e) = Some msg \<Longrightarrow> isMediaType msg \<longleftrightarrow> ev_from e = b"
      using more.prems(4) by simp_all
    from udp_step_bystander [OF more.prems(1) more.hyps(1) more.prems(2) c(2)] show ?thesis
      using more.IH [OF reach _ more.prems(3) c(1)] more.prems(5) by simp
  qed
qed simp

subsection \<open>The receiver thread and the callback of the worker\<close>

definition receive_rounds :: "byte list list \<Rightarrow> u32 \<Rightarrow> recv_round list" where
  "receive_rounds ds up = map (\<lambda>d. \<lparr>going_on = True, received = Some d, round_up = up\<rparr>) ds"

lemma receiver_packets:
  assumes "length reply = client_max_length"
    and "\<And>p. p \<in> set ps \<Longrightarrow> packet_wf p \<and> length (wholePacket p) \<le> max_length"
  shows "receiver_loop ver (receive_rounds (map wholePacket ps) up) reply = ps"
proof -
  have "receiver_loop ver (receive_rounds (map wholePacket ps) up) reply =
      List.map_filter (\<lambda>(bs, up). datagram_packet bs) (map (\<lambda>p. (wholePacket p, up)) ps)"
    using receiver_loop_packets [OF assms(1), of ver "map (\<lambda>p. (wholePacket p, up)) ps"]
    by (simp add: receive_rounds_def comp_def)
  also have "\<dots> = ps"
    using assms(2) by (induction ps) (simp_all add: map_filter_simps datagram_packet_wf)
  finally show ?thesis .
qed

text \<open>The callback of the worker on a list of packets: what it sends back, the login flag, the processor.\<close>

fun receive_all ::
    "('d, 'e) opus_ops \<Rightarrow> ('c, 'a) farend_ops \<Rightarrow> (u32 \<times> nat, 'q) spsc_ops \<Rightarrow> u32 \<Rightarrow> u32 \<Rightarrow> NetPacket list \<Rightarrow>
     bool \<times> ('q, 'd, 'c, 'a) DownstreamProcessor \<Rightarrow>
     fault + worker_event list \<times> bool \<times> ('q, 'd, 'c, 'a) DownstreamProcessor" where
  "receive_all opus far qlib ver up [] st = Inr ([], st)"
| "receive_all opus far qlib ver up (p # ps) st =
     (case Worker_onDataReceived opus far qlib ver up p st of
        Inl e \<Rightarrow> Inl e
      | Inr (evs, st) \<Rightarrow>
          (case receive_all opus far qlib ver up ps st of
             Inl e \<Rightarrow> Inl e
           | Inr (evs', st) \<Rightarrow> Inr (evs @ evs', st)))"

abbreviation is_audio :: "NetPacket \<Rightarrow> bool" where
  "is_audio p \<equiv> payloadType p \<in> {pt_code AudioMessage, pt_code AudioMessage_CN}"

lemma is_audio_decoded: "is_audio p \<Longrightarrow> pt_of_code (payloadType p) \<in> Some ` {AudioMessage, AudioMessage_CN}"
  by (auto simp: pt_of_code_Some simp del: pt_code.simps)

lemma onDataReceived_audio:
  assumes "is_audio p"
  shows "Worker_onDataReceived opus far qlib ver up p (login, ds) =
    map_sum id (\<lambda>ds. ([], login, ds)) (DownstreamProcessor_append opus far qlib p ds)"
  using is_audio_decoded [OF assms] by (auto simp: Worker_onDataReceived_def)

lemma receive_all_audio:
  "ds_run opus far qlib (map Received ps) ds = Inr ([], ds') \<Longrightarrow> (\<And>p. p \<in> set ps \<Longrightarrow> is_audio p) \<Longrightarrow>
   receive_all opus far qlib ver up ps (login, ds) = Inr ([], login, ds')"
proof (induction ps arbitrary: ds)
  case (Cons p ps)
  obtain ds1 where a: "DownstreamProcessor_append opus far qlib p ds = Inr ds1"
      "ds_run opus far qlib (map Received ps) ds1 = Inr ([], ds')"
    using Cons.prems(1) by (auto split: sum.splits)
  moreover have "Worker_onDataReceived opus far qlib ver up p (login, ds) = Inr ([], login, ds1)"
    using onDataReceived_audio [of p opus far qlib ver up login ds] Cons.prems(2) a(1) by simp
  ultimately show ?case
    using Cons.IH [OF a(2)] Cons.prems(2) by simp
qed simp

text \<open>The blocks that the packets decode to, in the states in which the processor decodes them.\<close>

fun decoded_blocks ::
    "('d, 'e) opus_ops \<Rightarrow> ('c, 'a) farend_ops \<Rightarrow> (u32 \<times> nat, 'q) spsc_ops \<Rightarrow> NetPacket list \<Rightarrow>
     ('q, 'd, 'c, 'a) DownstreamProcessor \<Rightarrow> PcmSegment list" where
  "decoded_blocks opus far qlib [] ds = []"
| "decoded_blocks opus far qlib (p # ps) ds =
     (case decodeAndAecBufferFarend opus far p (replicate blockSize 0) ds of
        Inl e \<Rightarrow> []
      | Inr (pcm, _) \<Rightarrow>
          take blockSize pcm #
            (case DownstreamProcessor_append opus far qlib p ds of
               Inl e \<Rightarrow> []
             | Inr ds \<Rightarrow> decoded_blocks opus far qlib ps ds))"

context segment_queue
begin

lemma append_run:
  assumes "opus_contract opus" and "farend_ok far" and "\<And>p. p \<in> set ps \<Longrightarrow> full_packet opus p"
    and "ds_inv contents capacity ds" and "decoder (ds_decoder ds) \<noteq> None"
    and "playback_of contents ds = (ys, a, b)" and "length ys + length ps \<le> 100"
  shows "\<exists>ds'. ds_run opus far lib (map Received ps) ds = Inr ([], ds') \<and> ds_inv contents capacity ds' \<and>
    playback_of contents ds' = (ys @ decoded_blocks opus far lib ps ds, a, b) \<and>
    length (decoded_blocks opus far lib ps ds) = length ps"
  using assms(3-7)
proof (induction ps arbitrary: ds ys)
  case (Cons p ps)
  have "\<not> short_packet opus p ds"
    using Cons.prems(1) [of p] by (intro full_not_short) simp
  then obtain pcm ds1 where d: "decodeAndAecBufferFarend opus far p (replicate blockSize 0) ds = Inr (pcm, ds1)"
      "blockSize \<le> length pcm" "decoder (ds_decoder ds1) \<noteq> None"
    using decodeAndAecBufferFarend_total [OF assms(1) _ assms(2) Cons.prems(3) length_replicate] by blast
  obtain ds2 where r: "DownstreamProcessor_append opus far lib p ds = Inr ds2" "ds_inv contents capacity ds2"
      "ds_decoder ds2 = ds_decoder ds1" "playback_of contents ds2 = (ys @ [take blockSize pcm], a, b)"
    using append_step [OF Cons.prems(2) d(1,2)] Cons.prems(4,5) by auto
  then show ?case
    using Cons.IH [OF _ r(2) _ r(4)] d Cons.prems(1,5) by simp
qed simp

lemma new_playback:
  "playback_of contents (DownstreamProcessor_new opus lib dec cng prof needAec aec path isOpen) = ([], None, None)"
  by (simp add: playback_of_def DownstreamProcessor_new_def JitterBuffer_new_def new)

text \<open>A new processor that receives a burst and then plays it.\<close>

lemma receive_and_play:
  fixes dec and cng and prof and needAec and aec and path and isOpen
  assumes "opus_contract opus" and "farend_ok far" and "\<And>p. p \<in> set ps \<Longrightarrow> full_packet opus p"
    and "fst (opus_decoder_create opus sampleRate 1) \<noteq> None"
    and "2 \<le> length ps" and "length ps \<le> 100" and "length ups = length ps" and "\<And>p. p \<in> set ps \<Longrightarrow> is_audio p"
  defines "ds \<equiv> DownstreamProcessor_new opus lib dec cng prof needAec aec path isOpen"
  shows "length (decoded_blocks opus far lib ps ds) = length ps \<and>
    (\<exists>ds1 ds2. receive_all opus far lib ver up ps (login, ds) = Inr ([], login, ds1) \<and>
      ds_run opus far lib (map Callback (ups @ [upl])) ds1 =
        Inr (silence # butlast (decoded_blocks opus far lib ps ds) @
          [faded 0 (last (decoded_blocks opus far lib ps ds))], ds2))"
proof -
  have inv: "ds_inv contents capacity ds" "playback_of contents ds = ([], None, None)"
    unfolding ds_def by (rule new_inv new_playback)+
  have dec: "decoder (ds_decoder ds) \<noteq> None"
    using assms(4) by (simp add: ds_def DownstreamProcessor_new_def OpusDec_reInit_def Let_def case_prod_beta)
  let ?xs = "decoded_blocks opus far lib ps ds"
  obtain ds1 where r: "ds_run opus far lib (map Received ps) ds = Inr ([], ds1)" "ds_inv contents capacity ds1"
      "playback_of contents ds1 = (?xs, None, None)" "length ?xs = length ps"
    using append_run [OF assms(1-3) inv(1) dec inv(2)] assms(6) by auto
  have n: "2 \<le> length ?xs" "length ups = length ?xs"
    using assms(5,7) r(4) by simp_all
  from burst [OF r(2) assms(2) r(3) n, of opus upl] receive_all_audio [OF r(1) assms(8)] r(4) show ?thesis
    by blast
qed

end

subsection \<open>From the microphone to the loudspeaker\<close>

lemma audio_is_media: "is_audio p \<Longrightarrow> isMediaType p"
  using is_audio_decoded [of p] by (auto simp: isMediaType_iff)

text \<open>
  What the path relies on of the libraries. The WebRTC functions fill the arrays of a block that the worker gives them.
  Opus is symmetric: a packet that the encoder makes of a block decodes, in any state of the decoder, to as many
  samples, unless the decoder reports an error; for an empty packet the decoder conceals the longest frame.
\<close>

definition webrtc_fills :: "'w webrtc_ops \<Rightarrow> bool" where
  "webrtc_fills rtc \<longleftrightarrow>
     (\<forall>b w. length b = blockSize \<longrightarrow> length (fst (Nsx_Process rtc b w)) = blockSize) \<and>
     (\<forall>fs w. length fs = blockSize \<longrightarrow> length (fst (snd (Aec_Process rtc fs w))) = blockSize)"

definition opus_frames :: "('a, 'e) opus_ops \<Rightarrow> ('d, 'b) opus_ops \<Rightarrow> bool" where
  "opus_frames enc_opus opus \<longleftrightarrow>
     (\<forall>e pcm r out e' d. length pcm = blockSize \<and>
        opus_encode enc_opus e pcm blockSize MAX_PACKET_SIZE = (r, out, e') \<and> 0 \<le> r \<longrightarrow>
        (let n = fst (opus_decode opus d (take (nat r) out) MAX_FRAME_SIZE)
         in n < 0 \<or> n = int (if r = 0 then MAX_FRAME_SIZE else blockSize)))"

lemma length_shorts: "shorts fs = Some xs \<Longrightarrow> length xs = length fs"
  by (induction fs arbitrary: xs) (auto split: option.splits)

lemma prepared_block:
  assumes "webrtc_fills rtc" and "length buffer = blockSize" and "prepared rtc ck buffer w = Inr (evs, pcm, w')"
  shows "length pcm = blockSize"
proof -
  obtain d lib where n: "Nsx_Process rtc buffer (w_webrtc w) = (d, lib)"
    by fastforce
  then have d: "length d = blockSize"
    using assms(1,2) unfolding webrtc_fills_def by (metis fst_conv)
  obtain r out lib' where a: "Aec_Process rtc (map (\<lambda>x. real_of_int (sint x) / 2 ^ 15) d) lib = (r, out, lib')"
    by (metis surj_pair)
  have "length out = blockSize"
    using assms(1) d unfolding webrtc_fills_def by (metis a fst_conv length_map snd_conv)
  moreover obtain t w1 where c: "cancel_echo rtc d (w\<lparr>w_webrtc := lib\<rparr>) = Inr (t, w1)" "pcm = t \<or> pcm = d"
    using assms(3) by (auto simp: prepared_def n Let_def split: sum.splits prod.splits)
  ultimately have "length t = blockSize"
    using a unfolding cancel_echo_def Let_def
    by (auto simp: blockSize_160 length_shorts split: if_splits option.splits)
  with c(2) d show ?thesis
    by blast
qed

lemma call_full_packets:
  assumes "opus_contract enc_opus" and "opus_frames enc_opus opus" and "webrtc_fills rtc" and "length buffer = blockSize"
    and "nsAecVolumeVadSend enc_opus rtc ck buffer w = Inr (evs, w')" and "p \<in> set (sent evs)"
  shows "full_packet opus p"
proof (cases "w_mute w \<or> \<not> w_sendOpus w'")
  case True
  then have "payloadType p \<noteq> pt_code AudioMessage"
    using assms(5,6) call_encodes [OF assms(5)] by (cases "w_mute w") (auto simp: nsAecVolumeVadSend_eq split: if_splits)
  then show ?thesis
    by (simp add: full_packet_def del: pt_code.simps)
next
  case False
  then obtain evs0 pcm w1 ret where e: "prepared rtc ck buffer w = Inr (evs0, pcm, w1)"
      "OpusEnc_encode enc_opus pcm [] (w_encoder w) = Inr (ret, payload p, w_encoder w')" "ok ret"
    using call_encodes [OF assms(5)] assms(6) by fastforce
  obtain enc where enc: "encoder (w_encoder w) = Some enc"
    using e(2) by (cases "encoder (w_encoder w)") (simp_all add: OpusEnc_encode_def)
  obtain r out enc' where o: "opus_encode enc_opus enc pcm (length pcm) MAX_PACKET_SIZE = (r, out, enc')"
    by (metis surj_pair)
  have r: "0 \<le> r" "payload p = take (nat r) out"
    using e(2,3) OpusEnc_encode_eq(1) [OF assms(1) enc o, of "[]"] by (auto split: if_splits)
  have pcm: "length pcm = blockSize"
    by (rule prepared_block [OF assms(3,4) e(1)])
  have "fst (opus_decode opus d (payload p) MAX_FRAME_SIZE) < 0 \<or>
      fst (opus_decode opus d (payload p) MAX_FRAME_SIZE) = int (if r = 0 then MAX_FRAME_SIZE else blockSize)" for d
    using assms(2) o pcm r(1) unfolding opus_frames_def r(2) Let_def by metis
  moreover have "int blockSize \<le> int (if r = 0 then MAX_FRAME_SIZE else blockSize)"
    by (simp add: MAX_FRAME_SIZE_def blockSize_160)
  ultimately show ?thesis
    unfolding full_packet_def by metis
qed

lemma run_full_packets:
  assumes "opus_contract enc_opus" and "opus_frames enc_opus opus" and "webrtc_fills rtc"
    and "send_run enc_opus rtc calls w = Inr (evs, w')"
    and "\<forall>ck buffer. MicBlock ck buffer \<in> set calls \<longrightarrow> length buffer = blockSize" and "p \<in> set (sent evs)"
  shows "full_packet opus p"
  using assms(4-6)
proof (induction calls arbitrary: w evs)
  case (Cons c calls)
  show ?case
  proof (cases c)
    case (SetMute b)
    then show ?thesis
      using Cons.IH [of "Worker_setMute b w" evs] Cons.prems by simp
  next
    case (MicBlock ck buffer)
    obtain ev1 w1 ev2 where r: "nsAecVolumeVadSend enc_opus rtc ck buffer w = Inr (ev1, w1)"
        "send_run enc_opus rtc calls w1 = Inr (ev2, w')" "evs = ev1 @ ev2"
      using Cons.prems by (auto simp: MicBlock split: sum.splits)
    have "length buffer = blockSize"
      using Cons.prems(2) by (auto simp: MicBlock)
    then show ?thesis
      using call_full_packets [OF assms(1-3) _ r(1)] Cons.IH [OF r(2)] Cons.prems(2,3) by (auto simp: r(3))
  qed
qed simp

text \<open>
  C2: speech arrives and is played. A worker sends any sequence of microphone blocks; its packets, of at most 1024
  bytes each and 2 to 100 of them, reach a UDP server in broadcast mode in order, among events of other
  endpoints, and the listener may talk at the same time. Then the receiver thread of the listener hands over exactly
  the packets that the sender made, its worker decodes each into one block, and the callbacks that follow play
  silence once, then all these blocks in the order of the microphone blocks, the last one faded out.
\<close>
theorem speech_is_played:
  fixes dec and cng and prof and needAec and aec and path and isOpen and ver' and up' and reply
  assumes "send_run enc_opus rtc calls w = Inr (evs, w')"
    and "\<forall>p \<in> set (sent evs). length (wholePacket p) \<le> max_length"
    and "udp_steps ver s es outs s'" and "udp_reachable ver False s" and "b \<in> endpoints s" and "a \<noteq> b"
    and "conversation a b (sent evs) es"
    and "spsc_queue qlib contents capacity" and "opus_contract opus" and "farend_ok far"
    and "opus_contract enc_opus" and "opus_frames enc_opus opus" and "webrtc_fills rtc"
    and "\<forall>ck buffer. MicBlock ck buffer \<in> set calls \<longrightarrow> length buffer = blockSize"
    and "fst (opus_decoder_create opus sampleRate 1) \<noteq> None"
    and "2 \<le> length (sent evs)" and "length (sent evs) \<le> 100" and "length ups = length (sent evs)"
    and "length reply = client_max_length"
  defines "ds \<equiv> DownstreamProcessor_new opus qlib dec cng prof needAec aec path isOpen"
    and "got \<equiv> receiver_loop ver' (receive_rounds (sent_to b outs) up') reply"
  shows "got = sent evs \<and> length (decoded_blocks opus far qlib got ds) = length (sent evs) \<and>
    (\<exists>ds1 ds2. receive_all opus far qlib ver' up' got (login, ds) = Inr ([], login, ds1) \<and>
      ds_run opus far qlib (map Callback (ups @ [up])) ds1 =
        Inr (silence # butlast (decoded_blocks opus far qlib got ds) @
          [faded 0 (last (decoded_blocks opus far qlib got ds))], ds2))"
proof -
  have wf: "packet_wf p \<and> is_audio p" if "p \<in> set (sent evs)" for p
    using send_run_packets [OF assms(1)] that by blast
  have "sent_to b outs = map wholePacket (sent evs)"
    using wf assms(2) audio_is_media by (intro conversation_relayed [OF assms(3-7)]) blast
  then have got: "got = sent evs"
    using receiver_packets [OF assms(19), of "sent evs" ver' up'] wf assms(2) by (simp add: got_def)
  have full: "full_packet opus p" if "p \<in> set (sent evs)" for p
    using run_full_packets [OF assms(11-13,1,14)] that by blast
  have "segment_queue qlib contents capacity"
    using assms(8) by (simp add: segment_queue_def)
  from segment_queue.receive_and_play [OF this assms(9,10) full assms(15), of "sent evs" ups] wf assms(16-18) show ?thesis
    unfolding got ds_def by blast
qed


text \<open>A concrete talk: two blocks of a worker whose encoder makes one byte of a sample.\<close>

lemma opus_frames_toy: "opus_frames (toy_opus 160) (toy_opus 160)"
  by (auto simp: opus_frames_def toy_opus_def MAX_FRAME_SIZE_def MAX_PACKET_SIZE_def blockSize_160)

lemma webrtc_fills_toy: "webrtc_fills (toy_webrtc v)"
  by (simp add: webrtc_fills_def toy_webrtc_def)

lemma toy_encode:
  "encoder enc = Some () \<Longrightarrow> length pcm \<le> 160 \<Longrightarrow>
   \<exists>d enc'. OpusEnc_encode (toy_opus 160) pcm [] enc = Inr (ReturnType_int 0, d, enc') \<and> length d \<le> 160 \<and> encoder enc' = Some ()"
  by (simp add: OpusEnc_encode_def toy_opus_def MAX_PACKET_SIZE_def Let_def)

definition talking :: "(unit, unit) Worker \<Rightarrow> bool" where
  "talking w \<longleftrightarrow> \<not> w_mute w \<and> \<not> w_needAec w \<and> w_sendOpus w \<and> encoder (w_encoder w) = Some () \<and>
     \<not> w_volumeReporter w \<and> \<not> w_vadReporter w \<and> w_voiceTimeStamp w \<in> {None, Some 0}"

lemma talking_prepared:
  "talking w \<Longrightarrow> \<exists>w1. prepared (toy_webrtc 1) (toy_clock 5) buf w = Inr ([], buf, w1) \<and> talking w1"
  by (simp add: prepared_def cancel_echo_def report_volume_in_def detect_voice_def toy_webrtc_def talking_def Let_def)

lemma talking_window: "talking w \<Longrightarrow> talking (update_voice_window (toy_clock 5) w)"
  by (auto simp: update_voice_window_def toy_clock_def talking_def Let_def)

lemma talking_sends:
  assumes "talking w" and "length buf \<le> 160"
  shows "\<exists>p w'. nsAecVolumeVadSend (toy_opus 160) (toy_webrtc 1) (toy_clock 5) buf w = Inr ([SendPacket p], w') \<and>
    length (wholePacket p) \<le> max_length \<and> talking w'"
proof -
  obtain w1 where p: "prepared (toy_webrtc 1) (toy_clock 5) buf w = Inr ([], buf, w1)" "talking w1"
    using talking_prepared [OF assms(1)] by blast
  let ?w = "update_voice_window (toy_clock 5) w1"
  have t: "talking ?w"
    by (rule talking_window [OF p(2)])
  then obtain d enc where e: "OpusEnc_encode (toy_opus 160) buf [] (w_encoder ?w) = Inr (ReturnType_int 0, d, enc)"
      "length d \<le> 160" "encoder enc = Some ()"
    using toy_encode [OF _ assms(2)] unfolding talking_def by blast
  have "\<exists>p w2. send_block (toy_opus 160) (toy_webrtc 1) (toy_clock 5) buf ?w = Inr ([SendPacket p], w2) \<and>
      length (wholePacket p) \<le> max_length \<and> talking w2"
    using t e by (simp add: send_block_def NetPacket_of_chars_eq talking_def max_length_def Let_def del: pt_code.simps)
  then show ?thesis
    using p(1) assms(1) by (auto simp: nsAecVolumeVadSend_eq talking_def)
qed

lemma toy_talk:
  "\<exists>p q evs w'. send_run (toy_opus 160) (toy_webrtc 1) [MicBlock (toy_clock 5) (replicate 160 1), MicBlock (toy_clock 5) (replicate 160 2)] toy_worker =
     Inr (evs, w') \<and> sent evs = [p, q] \<and> length (wholePacket p) \<le> max_length \<and> length (wholePacket q) \<le> max_length"
proof -
  have "talking toy_worker"
    by (simp add: talking_def toy_worker_def Worker_new_def)
  from talking_sends [OF this, of "replicate 160 1"] obtain p w1 where
    p: "nsAecVolumeVadSend (toy_opus 160) (toy_webrtc 1) (toy_clock 5) (replicate 160 1) toy_worker = Inr ([SendPacket p], w1)"
      "length (wholePacket p) \<le> max_length" "talking w1" by fastforce
  from talking_sends [OF p(3), of "replicate 160 2"] obtain q w2 where
    q: "nsAecVolumeVadSend (toy_opus 160) (toy_webrtc 1) (toy_clock 5) (replicate 160 2) w1 = Inr ([SendPacket q], w2)"
      "length (wholePacket q) \<le> max_length" by fastforce
  show ?thesis
    using p q by simp
qed

text \<open>Two receives of the server, one after the other.\<close>

lemma two_receives:
  "\<exists>es outs s'. udp_steps ver s es outs s' \<and> conversation (1 :: nat) 2 [p, q] es"
proof -
  let ?e = "\<lambda>p k. \<lparr>ev_ec = False, ev_from = 1 :: nat, ev_bytes = wholePacket p, ev_addr = k, ev_up = 0\<rparr>"
  obtain k out s1 where 1: "udp_step ver s (?e p k) out s1"
    by (meson udp_can_receive)
  obtain k' out' s2 where 2: "udp_step ver s1 (?e q k') out' s2"
    by (meson udp_can_receive)
  have "udp_steps ver s [?e p k, ?e q k'] [out, out'] s2"
    by (rule udp_steps.more [OF 1 udp_steps.more [OF 2 udp_steps.none]])
  moreover have "conversation 1 2 [p, q] [?e p k, ?e q k']"
    by simp
  ultimately show ?thesis
    by blast
qed

theorem speech_is_played_witness:
  "\<exists>evs w' (s :: nat RawUdpServer) es outs s' ds1 ds2 xs.
     send_run (toy_opus 160) (toy_webrtc 1) [MicBlock (toy_clock 5) (replicate 160 1), MicBlock (toy_clock 5) (replicate 160 2)] toy_worker = Inr (evs, w') \<and>
     udp_steps 0 s es outs s' \<and> length xs = 2 \<and>
     receive_all (toy_opus 160) toy_farend list_queue 0 0
       (receiver_loop 0 (receive_rounds (sent_to 2 outs) 0) (replicate 1024 0)) (True, toy_downstream) = Inr ([], True, ds1) \<and>
     ds_run (toy_opus 160) toy_farend list_queue (map Callback ([10, 20] @ [30])) ds1 =
       Inr (silence # butlast xs @ [faded 0 (last xs)], ds2)"
proof -
  obtain p q evs w' where t: "send_run (toy_opus 160) (toy_webrtc 1)
      [MicBlock (toy_clock 5) (replicate 160 1), MicBlock (toy_clock 5) (replicate 160 2)] toy_worker = Inr (evs, w')"
      "sent evs = [p, q]" "length (wholePacket p) \<le> max_length" "length (wholePacket q) \<le> max_length"
    using toy_talk by blast
  obtain s :: "nat RawUdpServer" where s: "udp_reachable 0 False s" "endpoints s = {1, 2}"
    using udp_two_clients by blast
  obtain es outs s' where st: "udp_steps 0 s es outs s'" "conversation 1 2 (sent evs) es"
    using two_receives t(2) by metis
  have h: "fst (opus_decoder_create (toy_opus 160) sampleRate 1) \<noteq> None" "\<forall>p \<in> set (sent evs). length (wholePacket p) \<le> max_length"
      "2 \<in> endpoints s" "(1 :: nat) \<noteq> 2" "length (replicate 1024 (0 :: byte)) = client_max_length"
      "2 \<le> length (sent evs)" "length (sent evs) \<le> 100" "length [10, 20 :: u32] = length (sent evs)"
    using t(2-4) s(2) by (simp_all add: toy_opus_def client_max_length_def)
  have m: "\<forall>ck buffer. MicBlock ck buffer \<in> set [MicBlock (toy_clock 5) (replicate 160 1), MicBlock (toy_clock 5) (replicate 160 2)] \<longrightarrow>
      length buffer = blockSize"
    by (simp add: blockSize_160)
  let ?xs = "decoded_blocks (toy_opus 160) toy_farend list_queue
      (receiver_loop 0 (receive_rounds (sent_to 2 outs) 0) (replicate 1024 0)) toy_downstream"
  have "length ?xs = 2 \<and> (\<exists>ds1 ds2. receive_all (toy_opus 160) toy_farend list_queue 0 0
       (receiver_loop 0 (receive_rounds (sent_to 2 outs) 0) (replicate 1024 0)) (True, toy_downstream) = Inr ([], True, ds1) \<and>
     ds_run (toy_opus 160) toy_farend list_queue (map Callback ([10, 20] @ [30])) ds1 =
       Inr (silence # butlast ?xs @ [faded 0 (last ?xs)], ds2))"
    using conjunct2 [OF speech_is_played [OF t(1) h(2) st(1) s(1) h(3,4) st(2) list_queue.spsc_queue_axioms opus_contract_toy
      farend_ok_toy opus_contract_toy opus_frames_toy webrtc_fills_toy m h(1,6,7,8,5), where ver' = 0 and up' = 0 and login = True
      and up = 30 and dec = "\<lparr>dec_err = 0, decoder = None\<rparr>" and cng = "()" and prof = "EventList_new True ''audioOutBufferSize_.csv''"
      and needAec = False and aec = "()" and path = "[]" and isOpen = False]]
    unfolding toy_downstream_def t(2) length_Cons list.size(3) numeral_2_eq_2 .
  with t(1) st(1) show ?thesis
    by blast
qed

end
