(* ===== verification/Tcp_Types.thy ===== *)
theory Tcp_Types
  imports Tcp_Server
begin

text \<open>
  The typing of the TCP server's state (server/TcpServer.hpp, Room.hpp): what the byte buffers of the sessions and
  the pending operations of the socket library hold between two completions. Bytes from the network reach
  the buffers unchecked, so that this is an invariant of the handlers and not of the input.
\<close>

subsection \<open>The invariant\<close>

fun is_read :: "io_op \<Rightarrow> bool" where
  "is_read AsyncReadHeader = True"
| "is_read (AsyncReadPayload n) = True"
| "is_read _ = False"

definition reads_of :: "nat \<Rightarrow> (nat \<times> io_op) multiset \<Rightarrow> (nat \<times> io_op) multiset" where
  "reads_of a P = filter_mset (\<lambda>(b, op). b = a \<and> is_read op) P"

text \<open>A session between two completions, and an operation that is pending for it.\<close>

definition session_typed :: "TcpSession \<Rightarrow> bool" where
  "session_typed x \<longleftrightarrow> FixHeaderLength \<le> length (wholePacket (read_msg x)) \<and> (\<forall>p \<in> set (write_msgs x). packet_wf p)"

fun op_typed :: "TcpSession option \<Rightarrow> io_op \<Rightarrow> bool" where
  "op_typed None op = (op = AsyncAccept)"
| "op_typed (Some x) (AsyncReadPayload n) = (packet_wf (read_msg x) \<and> payloadLength (read_msg x) = n)"
| "op_typed (Some x) (AsyncWrite bs) = packet_wf \<lparr>wholePacket = bs\<rparr>"
| "op_typed (Some x) op = True"

definition tcp_typed :: "TcpServer \<Rightarrow> (nat \<times> io_op) multiset \<Rightarrow> bool" where
  "tcp_typed s P \<longleftrightarrow>
     (\<forall>a x. sessions s a = Some x \<longrightarrow> session_typed x) \<and>
     (\<forall>a op. (a, op) \<in># P \<longrightarrow> op_typed (sessions s a) op) \<and>
     (\<forall>a. size (reads_of a P) \<le> 1)"

lemma reads_of_simps [simp]:
  "reads_of a (P + Q) = reads_of a P + reads_of a Q"
  "reads_of a {#} = {#}"
  "reads_of a (add_mset (b, op) P) = (if b = a \<and> is_read op then add_mset (b, op) (reads_of a P) else reads_of a P)"
  by (simp_all add: reads_of_def)

lemma tcp_typed_sub:
  assumes "tcp_typed s (add_mset x P)"
  shows "tcp_typed s P"
proof -
  have "size (reads_of a P) \<le> size (reads_of a (add_mset x P))" for a
    by (cases x) simp
  then have "size (reads_of a P) \<le> 1" for a
    using assms unfolding tcp_typed_def by (meson le_trans)
  then show ?thesis
    using assms unfolding tcp_typed_def by simp
qed

lemma no_reads:
  assumes "size (reads_of a P) = 0" and "(a, op) \<in># P"
  shows "\<not> is_read op"
proof
  assume "is_read op"
  with assms(2) have "(a, op) \<in># reads_of a P"
    unfolding reads_of_def set_mset_filter by simp
  with assms(1) show False
    by simp
qed

text \<open>A session whose last read has just completed: the read buffer may change, and one read may start.\<close>

lemma tcp_typed_put:
  assumes "tcp_typed s P" and "reads_of a P = {#}" and "session_typed y" and "sessions s a \<noteq> None"
  shows "tcp_typed (put_session a y s) P"
proof -
  have "op_typed (Some y) op" if "(a, op) \<in># P" for op
    using no_reads [OF _ that] assms(2) that assms(1,4) unfolding tcp_typed_def
    by (cases op) (fastforce)+
  then show ?thesis
    using assms(1,3) by (auto simp: tcp_typed_def put_session_def)
qed

lemma tcp_typed_add_read:
  assumes "tcp_typed s P" and "reads_of a P = {#}" and "op_typed (sessions s a) op" and "is_read op"
  shows "tcp_typed s (add_mset (a, op) P)"
  using assms by (auto simp: tcp_typed_def)

lemma tcp_typed_add_other:
  assumes "tcp_typed s P" and "op_typed (sessions s a) op" and "\<not> is_read op"
  shows "tcp_typed s (add_mset (a, op) P)"
  using assms by (auto simp: tcp_typed_def)

text \<open>Handlers that change only a queue of packets.\<close>

lemma tcp_typed_queue:
  assumes "tcp_typed s P" and "sessions s a = Some x" and "\<forall>p \<in> set q. packet_wf p"
  shows "tcp_typed (put_session a (x\<lparr>write_msgs := q\<rparr>) s) P"
proof -
  have "op_typed (Some (x\<lparr>write_msgs := q\<rparr>)) op" if "(a, op) \<in># P" for op
  proof -
    have "op_typed (Some x) op"
      using assms(1,2) that unfolding tcp_typed_def by metis
    then show ?thesis
      by (cases op) simp_all
  qed
  then show ?thesis
    using assms by (auto simp: tcp_typed_def put_session_def session_typed_def)
qed

lemma tcp_typed_participants [simp]:
  "tcp_typed (s\<lparr>participants := r\<rparr>) P = tcp_typed s P" "tcp_typed (s\<lparr>tcp_counter := n\<rparr>) P = tcp_typed s P"
  by (simp_all add: tcp_typed_def)

subsection \<open>Every handler keeps it\<close>

lemma packet_wf_bytes [simp]: "\<lparr>wholePacket = wholePacket p\<rparr> = p"
  by (cases p) simp

lemma deliver_to_typed:
  assumes "tcp_typed s (P + mset ops)" and "deliver_to (a, msg) (s, ops) = (s', ops')" and "packet_wf msg"
  shows "tcp_typed s' (P + mset ops')"
proof (cases "sessions s a")
  case None
  then show ?thesis
    using assms(1,2) by (simp add: deliver_to_def)
next
  case (Some x)
  let ?q = "write_msgs x @ [msg]"
  have s': "s' = put_session a (x\<lparr>write_msgs := ?q\<rparr>) s"
      "ops' = ops @ (if write_msgs x = [] then [(a, AsyncWrite (wholePacket msg))] else [])"
    using assms(2) Some by (auto simp: deliver_to_def session_writer.deliver)
  have "\<forall>p \<in> set ?q. packet_wf p"
    using assms(1,3) Some unfolding tcp_typed_def session_typed_def by auto
  then have "tcp_typed s' (P + mset ops)"
    unfolding s' by (rule tcp_typed_queue [OF assms(1) Some])
  then show ?thesis
    using assms(3) by (auto simp: s' put_session_def intro: tcp_typed_add_other)
qed

lemma deliver_all_typed:
  assumes "tcp_typed s (P + mset ops)" and "fold deliver_to calls (s, ops) = (s', ops')"
    and "\<forall>c \<in> set calls. packet_wf (snd c)"
  shows "tcp_typed s' (P + mset ops')"
  using assms
proof (induction calls arbitrary: s ops)
  case (Cons c calls)
  obtain a msg s1 ops1 where d: "c = (a, msg)" "deliver_to (a, msg) (s, ops) = (s1, ops1)"
    by (metis surj_pair)
  then show ?case
    using deliver_to_typed [OF Cons.prems(1) d(2)] Cons.IH [of s1 ops1] Cons.prems(2,3) by simp
qed simp

text \<open>What a dispatch delivers is the message itself or an answer that it builds.\<close>

lemma dispatch_wf:
  assumes "Room_dispatch ver up echo msg sender (room, c) = ((room', c'), calls)" and "packet_wf msg"
  shows "\<forall>call \<in> set calls. packet_wf (snd call)"
  using assms
  by (cases msg rule: tcp_room.branches; cases echo)
    (auto simp: tcp_room.heartbeat tcp_room.login tcp_room.logout tcp_room.media_echo tcp_room.media_broadcast tcp_room.other)

lemma Room_process_typed:
  assumes "tcp_typed s P" and "packet_wf msg"
    and "Room_processClientMessagePayload ver up alive msg a s = Inr (s', ops)"
  shows "tcp_typed s' (P + mset ops)"
proof -
  obtain room c calls where d: "Room_dispatch ver up (tcp_echo s) msg a (participants s, tcp_counter s) = ((room, c), calls)"
    by (metis surj_pair)
  have f: "fold deliver_to calls (s\<lparr>participants := room, tcp_counter := c\<rparr>, []) = (s', ops)"
    using assms(3) by (auto simp: Room_processClientMessagePayload_def d Let_def split: prod.splits if_splits)
  show ?thesis
    using deliver_all_typed [OF _ f dispatch_wf [OF d assms(2)], of P] assms(1) by simp
qed

text \<open>Delivering starts no read and keeps the sessions.\<close>

lemma deliver_to_frame:
  "deliver_to call (s, ops) = (s', ops') \<Longrightarrow>
   reads_of a (mset ops') = reads_of a (mset ops) \<and> (sessions s' a = None \<longleftrightarrow> sessions s a = None)"
  by (cases call)
    (auto simp: deliver_to_def session_writer.deliver put_session_def split: option.splits if_splits)

lemma deliver_all_frame:
  "fold deliver_to calls (s, ops) = (s', ops') \<Longrightarrow>
   reads_of a (mset ops') = reads_of a (mset ops) \<and> (sessions s' a = None \<longleftrightarrow> sessions s a = None)"
proof (induction calls arbitrary: s ops)
  case (Cons c calls)
  obtain s1 ops1 where d: "deliver_to c (s, ops) = (s1, ops1)"
    by fastforce
  then show ?case
    using deliver_to_frame [OF d, of a] Cons.IH [of s1 ops1] Cons.prems by simp
qed simp

lemma Room_process_frame:
  assumes "Room_processClientMessagePayload ver up alive msg b s = Inr (s', ops)"
  shows "reads_of a (mset ops) = {#} \<and> (sessions s' a = None \<longleftrightarrow> sessions s a = None)"
proof -
  obtain room c calls where d: "Room_dispatch ver up (tcp_echo s) msg b (participants s, tcp_counter s) = ((room, c), calls)"
    by (metis surj_pair)
  have f: "fold deliver_to calls (s\<lparr>participants := room, tcp_counter := c\<rparr>, []) = (s', ops)"
    using assms by (auto simp: Room_processClientMessagePayload_def d Let_def split: prod.splits if_splits)
  show ?thesis
    using deliver_all_frame [OF f, of a] by simp
qed

lemma pending_typed:
  assumes "tcp_typed s (add_mset (a, op) Q)" and "sessions s a = Some x"
  shows "session_typed x" and "op_typed (Some x) op"
  using assms unfolding tcp_typed_def by (metis, metis add_mset_add_single union_single_eq_member)

lemma last_read:
  assumes "tcp_typed s (add_mset (a, op) Q)" and "is_read op"
  shows "reads_of a Q = {#}"
proof -
  have "size (reads_of a (add_mset (a, op) Q)) \<le> 1"
    using assms(1) unfolding tcp_typed_def by blast
  then show ?thesis
    using assms(2) by simp
qed

lemma onHeader_typed:
  assumes "tcp_typed s (add_mset (a, AsyncReadHeader) Q)" and "sessions s a = Some x"
    and "ec \<or> length bs = FixHeaderLength" and "TcpSession_onHeader ec bs a x s = (s', ops)"
  shows "tcp_typed s' (Q + mset ops)"
proof (cases ec)
  case True
  then show ?thesis
    using tcp_typed_sub [OF assms(1)] assms(4) by (auto simp: TcpSession_onHeader_eq)
next
  case False
  let ?m = "TcpSession_headerRead bs (read_msg x)"
  have m: "packet_wf ?m"
    using header_filled [of bs "read_msg x"] assms(3) False pending_typed(1) [OF assms(1,2)]
    by (simp add: session_typed_def TcpSession_headerRead_def)
  have n: "reads_of a Q = {#}"
    by (rule last_read [OF assms(1)]) simp
  have s': "s' = put_session a (x\<lparr>read_msg := ?m\<rparr>) s" "ops = [(a, AsyncReadPayload (payloadLength ?m))]"
    using assms(4) False by (auto simp: TcpSession_onHeader_eq Let_def)
  have "tcp_typed s' Q"
    unfolding s' using pending_typed(1) [OF assms(1,2)] packet_wf_header [OF m] assms(2)
    by (intro tcp_typed_put [OF tcp_typed_sub [OF assms(1)] n]) (simp_all add: session_typed_def)
  then show ?thesis
    using m n by (auto simp: s' put_session_def intro!: tcp_typed_add_read)
qed

lemma onPayload_typed:
  assumes "tcp_typed s (add_mset (a, AsyncReadPayload n) Q)" and "sessions s a = Some x"
    and "ec \<or> length bs = n" and "TcpSession_onPayload ver up alive ec bs a x s = Inr (s', ops)"
  shows "tcp_typed s' (Q + mset ops)"
proof (cases ec)
  case True
  then show ?thesis
    using tcp_typed_sub [OF assms(1)] assms(4) by (auto simp: TcpSession_onPayload_def)
next
  case False
  let ?m = "TcpSession_payloadRead bs (read_msg x)" and ?s = "put_session a (x\<lparr>read_msg := TcpSession_payloadRead bs (read_msg x)\<rparr>) s"
  have m: "packet_wf ?m"
    using pending_typed(2) [OF assms(1,2)] assms(3) False payload_filled [of "read_msg x" bs]
    by (simp add: TcpSession_payloadRead_def)
  have n: "reads_of a Q = {#}"
    by (rule last_read [OF assms(1)]) simp
  obtain ops' where p: "Room_processClientMessagePayload ver up alive ?m a ?s = Inr (s', ops')"
      "ops = ops' @ [(a, AsyncReadHeader)]"
    using assms(4) False by (auto simp: TcpSession_onPayload_def Let_def split: sum.splits)
  have "tcp_typed ?s Q"
    using pending_typed(1) [OF assms(1,2)] packet_wf_header [OF m] assms(2)
    by (intro tcp_typed_put [OF tcp_typed_sub [OF assms(1)] n]) (simp_all add: session_typed_def)
  then have "tcp_typed s' (Q + mset ops')"
    by (rule Room_process_typed [OF _ m p(1)])
  moreover have "reads_of a (mset ops') = {#}" "\<exists>y. sessions s' a = Some y"
    using Room_process_frame [OF p(1), of a] by (simp_all add: put_session_def)
  ultimately show ?thesis
    using n p(2) by (auto intro!: tcp_typed_add_read)
qed

lemma onWritten_typed:
  assumes "tcp_typed s (add_mset (a, AsyncWrite bs) Q)" and "sessions s a = Some x" and "write_msgs x \<noteq> []"
    and "TcpSession_onWritten ec a x s = (s', ops)"
  shows "tcp_typed s' (Q + mset ops)"
proof (cases ec)
  case True
  then show ?thesis
    using tcp_typed_sub [OF assms(1)] assms(4) by (auto simp: TcpSession_onWritten_def)
next
  case False
  obtain m q where q: "write_msgs x = m # q"
    using assms(3) by (cases "write_msgs x") auto
  have s': "s' = put_session a (x\<lparr>write_msgs := q\<rparr>) s"
      "ops = (if q = [] then [] else [(a, AsyncWrite (wholePacket (hd q)))])"
    using assms(4) False by (auto simp: TcpSession_onWritten_def q session_writer.written)
  have wf: "\<forall>p \<in> set q. packet_wf p"
    using pending_typed(1) [OF assms(1,2)] by (simp add: session_typed_def q)
  have "tcp_typed s' Q"
    unfolding s' by (rule tcp_typed_queue [OF tcp_typed_sub [OF assms(1)] assms(2) wf])
  then show ?thesis
    using wf by (cases q) (auto simp: s' put_session_def intro: tcp_typed_add_other)
qed

lemma doAccept_typed:
  assumes "tcp_typed s (add_mset (0, AsyncAccept) Q)" and "sessions s a = None"
    and "TcpServer_doAccept ver up alive ec a s = Inr (s', ops)"
  shows "tcp_typed s' (Q + mset ops)"
proof -
  let ?x = "TcpSession_new ver up"
  have Q: "tcp_typed s Q"
    by (rule tcp_typed_sub [OF assms(1)])
  have only: "op = AsyncAccept" if "(a, op) \<in># Q" for op
    using Q that assms(2) unfolding tcp_typed_def by (metis op_typed.simps(1))
  then have "set_mset (reads_of a Q) = {}"
    unfolding reads_of_def set_mset_filter by fastforce
  then have n: "reads_of a Q = {#}"
    by simp
  have x: "session_typed ?x"
    by (simp add: session_typed_def TcpSession_new_def packet_wf_header)
  have "tcp_typed (put_session a ?x s) Q"
    using Q x by (auto simp: tcp_typed_def put_session_def dest!: only)
  then have r: "tcp_typed (put_session a ?x s) (add_mset (a, AsyncReadHeader) Q)"
    using n by (intro tcp_typed_add_read) (simp_all add: put_session_def)
  have same: "s\<lparr>sessions := (sessions s)(a := None)\<rparr> = s"
    using assms(2) by (simp add: fun_upd_idem)
  have acc: "op_typed o1 AsyncAccept" for o1
    by (cases o1) simp_all
  obtain ret room where j: "Room_join a (participants s) = (ret, room)"
    by fastforce
  consider "s' = s" "ops = [(0, AsyncAccept)]"
    | "s' = s\<lparr>sessions := (sessions s)(a := None), participants := room\<rparr>" "ops = [(0, AsyncAccept)]"
    | "s' = (put_session a ?x s)\<lparr>participants := room\<rparr>" "ops = [(a, AsyncReadHeader), (0, AsyncAccept)]"
    using assms(3) j by (cases ec)
      (auto simp: TcpServer_doAccept_def TcpSession_start_def put_session_def Let_def split: if_splits)
  then show ?thesis
  proof cases
    case 3
    then show ?thesis
      using tcp_typed_add_other [OF r acc] by (simp add: add_mset_commute)
  qed (use tcp_typed_add_other [OF Q acc] same in simp_all)
qed

text \<open>The whole server; that a write is pending only with a queued packet is writer_inv.\<close>

lemma tcp_step_typed:
  assumes "tcp_step ver (s, P) (s', P')" and "tcp_typed s P" and "writer_inv s P"
  shows "tcp_typed s' P'"
  using assms(1)
proof cases
  case (accept a up alive ec ops Q)
  then show ?thesis
    using doAccept_typed assms(2) by simp
next
  case (header a x ec bs ops Q)
  then show ?thesis
    using onHeader_typed assms(2) by simp
next
  case (payload a x ec bs n up alive ops Q)
  then show ?thesis
    using onPayload_typed assms(2) by simp
next
  case (written a x ec ops bs Q)
  have "(a, AsyncWrite bs) \<in># P"
    by (simp add: written(1))
  then have "write_msgs x \<noteq> []"
    using assms(3) written(3) unfolding writer_inv_def by (metis option.inject)
  then show ?thesis
    using onWritten_typed assms(2) written by simp
qed

lemma tcp_reachable_typed:
  "tcp_reachable ver echo st \<Longrightarrow>
   tcp_typed (fst st) (snd st) \<and> writer_inv (fst st) (snd st) \<and> tcp_room_inv (fst st)"
proof (induction rule: tcp_reachable.induct)
  case start
  then show ?case
    by (simp add: TcpServer_new_def tcp_typed_def writer_inv_def tcp_room_inv_def)
next
  case (step st st')
  obtain s P s' P' where p: "st = (s, P)" "st' = (s', P')"
    by (metis surj_pair)
  then show ?case
    using step tcp_step_typed [of ver s P s' P'] tcp_step_inv [of ver s P s' P'] by simp
qed

text \<open>
  C12: the state of the TCP server is typed. Whatever bytes the network delivers, in every reachable state
  every packet that a session has queued is well formed, and so are the bytes of every write in progress; a session has
  at most one read in progress; the read of a payload asks for exactly the number of bytes that the header in
  the buffer announces, at most 65535, and the buffer has room for them behind the header.
\<close>
theorem tcp_state_typed:
  assumes "tcp_reachable ver echo (s, P)"
  shows "(\<forall>a x p. sessions s a = Some x \<and> p \<in> set (write_msgs x) \<longrightarrow> packet_wf p) \<and>
    (\<forall>a bs. (a, AsyncWrite bs) \<in># P \<longrightarrow> packet_wf \<lparr>wholePacket = bs\<rparr>) \<and>
    (\<forall>a. size (reads_of a P) \<le> 1) \<and>
    (\<forall>a n. (a, AsyncReadPayload n) \<in># P \<longrightarrow>
      (\<exists>x. sessions s a = Some x \<and> announced (wholePacket (read_msg x)) = FixHeaderLength + n \<and> n \<le> 65535 \<and>
        length (wholePacket (read_msg x)) = FixHeaderLength + n))"
proof -
  have t: "tcp_typed s P"
    using tcp_reachable_typed [OF assms] by simp
  have w: "packet_wf \<lparr>wholePacket = bs\<rparr>" if "(a, AsyncWrite bs) \<in># P" for a bs
  proof -
    have "op_typed (sessions s a) (AsyncWrite bs)"
      using t that unfolding tcp_typed_def by blast
    then show ?thesis
      by (cases "sessions s a") simp_all
  qed
  have r: "\<exists>x. sessions s a = Some x \<and> announced (wholePacket (read_msg x)) = FixHeaderLength + n \<and> n \<le> 65535 \<and>
      length (wholePacket (read_msg x)) = FixHeaderLength + n" if "(a, AsyncReadPayload n) \<in># P" for a n
  proof -
    have "op_typed (sessions s a) (AsyncReadPayload n)"
      using t that unfolding tcp_typed_def by blast
    then obtain x where x: "sessions s a = Some x" "packet_wf (read_msg x)" "payloadLength (read_msg x) = n"
      by (cases "sessions s a") simp_all
    moreover have "unat (rd16 (wholePacket (read_msg x)) 18) \<le> 65535"
      using unsigned_less [of "rd16 (wholePacket (read_msg x)) 18", where 'a = nat] by simp
    ultimately show ?thesis
      by (auto simp: packet_wf_def payloadLength_def FixHeaderLength_20 announced_def)
  qed
  show ?thesis
    using t w r unfolding tcp_typed_def session_typed_def by blast
qed

theorem tcp_state_typed_witness:
  "\<exists>s P a n. tcp_reachable 0 True (s, P) \<and> (a, AsyncReadPayload n) \<in># P \<and> n \<le> 65535"
proof -
  let ?s0 = "fst (TcpServer_new True)" and ?x = "TcpSession_new 0 0"
  have r0: "tcp_reachable 0 True (?s0, {#(0, AsyncAccept)#})"
    using tcp_reachable.start [of 0 True] by (simp add: TcpServer_new_def)
  obtain s1 where s1: "TcpServer_doAccept 0 0 True False 1 ?s0 = Inr (s1, [(1, AsyncReadHeader), (0, AsyncAccept)])"
      "sessions s1 1 = Some ?x"
    by (simp add: TcpServer_doAccept_def TcpSession_start_def TcpServer_new_def Room_join_def put_session_def Let_def)
  have r1: "tcp_reachable 0 True (s1, {#} + mset [(1, AsyncReadHeader), (0, AsyncAccept)])"
    by (rule tcp_reachable.step [OF r0 tcp_step.accept [OF _ s1(1), of "{#}"]]) (simp add: TcpServer_new_def)
  obtain s2 ops where s2: "TcpSession_onHeader False (replicate 20 0) 1 ?x s1 = (s2, ops)"
      "\<exists>n. ops = [(1, AsyncReadPayload n)]"
    by (simp add: TcpSession_onHeader_eq Let_def)
  have "tcp_step 0 (s1, add_mset (1, AsyncReadHeader) {#(0, AsyncAccept)#}) (s2, {#(0, AsyncAccept)#} + mset ops)"
    by (rule tcp_step.header [OF s1(2) _ s2(1)]) (simp add: FixHeaderLength_20)
  then have r2: "tcp_reachable 0 True (s2, {#(0, AsyncAccept)#} + mset ops)"
    by (intro tcp_reachable.step [OF r1]) (simp add: add_mset_commute)
  obtain n where n: "(1, AsyncReadPayload n) \<in># {#(0, AsyncAccept)#} + mset ops"
    using s2(2) by auto
  then have "n \<le> 65535"
    using tcp_state_typed [OF r2] by blast
  then show ?thesis
    using r2 n by blast
qed

end
