(* ===== verification/Tcp_Client.thy ===== *)
theory Tcp_Client
  imports Framing Concealment "HOL-Library.Multiset"
begin

text \<open>
  The TCP client (client_essential/TcpClient.hpp): the functions that its objects run on the thread of the event loop,
  what the other threads post to that loop, and the client as a whole as a step relation. Asynchronous calls of
  the socket library are pending operations, and their completions are steps with an open error flag.
\<close>

subsection \<open>The handlers\<close>

record BoostAsioTcpClient =
  tc_read_msg :: NetPacket
  tc_write_msgs :: "NetPacket list"
  tc_open :: bool

text \<open>The pending operations of the socket, and the functions that other threads post to the event loop.\<close>

datatype client_io =
    Connect
  | ReadHeader
  | ReadPayload nat
  | Write "byte list"

datatype posted_call = PostWrite NetPacket | PostClose

text \<open>The client holds no object of the inner class before init.\<close>

record TcpClient =
  tc_id :: string
  pClient :: "BoostAsioTcpClient option"
  pThread :: bool
  tc_isConnected :: bool
  posted_calls :: "posted_call list"

definition BoostAsioTcpClient_startWrite :: "NetPacket list \<Rightarrow> byte list" where
  "BoostAsioTcpClient_startWrite q = take (wholePackLength (hd q)) (header (hd q))"

text \<open>The function that write posts to the event loop, and the completion of a write.\<close>

definition BoostAsioTcpClient_write ::
    "NetPacket \<Rightarrow> NetPacket list \<Rightarrow> NetPacket list \<times> byte list option" where
  "BoostAsioTcpClient_write msg q =
     (let write_in_progress = (q \<noteq> []);
          q = q @ [msg]
      in if \<not> write_in_progress then (q, Some (BoostAsioTcpClient_startWrite q)) else (q, None))"

definition BoostAsioTcpClient_written :: "NetPacket list \<Rightarrow> NetPacket list \<times> byte list option" where
  "BoostAsioTcpClient_written q =
     (let q = tl q in if q \<noteq> [] then (q, Some (BoostAsioTcpClient_startWrite q)) else (q, None))"

interpretation client_writer: write_queue BoostAsioTcpClient_write BoostAsioTcpClient_written
  by unfold_locales
    (auto simp: BoostAsioTcpClient_write_def BoostAsioTcpClient_written_def
      BoostAsioTcpClient_startWrite_def header_def wholePackLength_def)

definition BoostAsioTcpClient_headerRead :: "byte list \<Rightarrow> NetPacket \<Rightarrow> NetPacket" where
  "BoostAsioTcpClient_headerRead bs msg =
     snd (checkHeader (msg\<lparr>wholePacket := write_at 0 bs (wholePacket msg)\<rparr>))"

definition BoostAsioTcpClient_payloadRead :: "byte list \<Rightarrow> NetPacket \<Rightarrow> NetPacket" where
  "BoostAsioTcpClient_payloadRead bs msg =
     msg\<lparr>wholePacket := write_at FixHeaderLength bs (wholePacket msg)\<rparr>"

interpretation client_reader: framed_reader BoostAsioTcpClient_headerRead payloadLength
  BoostAsioTcpClient_payloadRead
proof (unfold_locales, goal_cases)
  case (1 h m)
  then show ?case
    using checkHeader_header(2,3) [of "m\<lparr>wholePacket := write_at 0 h (wholePacket m)\<rparr>"]
    by (simp add: BoostAsioTcpClient_headerRead_def write_at_0 announced_def rd16_append)
qed (auto simp: payloadLength_def FixHeaderLength_20 BoostAsioTcpClient_payloadRead_def write_at_def)

text \<open>The constructor starts to connect; the handlers run on the event loop.\<close>

definition BoostAsioTcpClient_new :: "u32 \<Rightarrow> u32 \<Rightarrow> BoostAsioTcpClient \<times> client_io list" where
  "BoostAsioTcpClient_new ver up =
     (\<lparr>tc_read_msg = NetPacket_new ver up (pt_code Undefined) 0, tc_write_msgs = [], tc_open = True\<rparr>, [Connect])"

definition BoostAsioTcpClient_close :: "BoostAsioTcpClient \<Rightarrow> BoostAsioTcpClient" where
  "BoostAsioTcpClient_close b = b\<lparr>tc_open := False\<rparr>"

text \<open>The flag of the outer object that the completion of the connect sets is the second component.\<close>

definition BoostAsioTcpClient_onConnect ::
    "bool \<Rightarrow> BoostAsioTcpClient \<Rightarrow> bool \<Rightarrow> BoostAsioTcpClient \<times> bool \<times> client_io list" where
  "BoostAsioTcpClient_onConnect ec b isConnected =
     (if ec then (BoostAsioTcpClient_close b, isConnected, []) else (b, True, [ReadHeader]))"

definition BoostAsioTcpClient_onHeader ::
    "bool \<Rightarrow> byte list \<Rightarrow> BoostAsioTcpClient \<Rightarrow> BoostAsioTcpClient \<times> client_io list" where
  "BoostAsioTcpClient_onHeader ec bs b =
     (if \<not> ec then
        let (valid, m) = checkHeader
              ((tc_read_msg b)\<lparr>wholePacket := write_at 0 bs (wholePacket (tc_read_msg b))\<rparr>);
            b = b\<lparr>tc_read_msg := m\<rparr>
        in if valid then (b, [ReadPayload (payloadLength m)]) else (BoostAsioTcpClient_close b, [])
      else (BoostAsioTcpClient_close b, []))"

text \<open>The check of the header never fails.\<close>

lemma BoostAsioTcpClient_onHeader_eq:
  "BoostAsioTcpClient_onHeader ec bs b =
     (if \<not> ec then
        let m = BoostAsioTcpClient_headerRead bs (tc_read_msg b)
        in (b\<lparr>tc_read_msg := m\<rparr>, [ReadPayload (payloadLength m)])
      else (BoostAsioTcpClient_close b, []))"
  by (simp add: BoostAsioTcpClient_onHeader_def BoostAsioTcpClient_headerRead_def checkHeader_def Let_def)

text \<open>The packet handed to the callback is a copy of the message buffer.\<close>

definition BoostAsioTcpClient_onPayload ::
    "bool \<Rightarrow> byte list \<Rightarrow> BoostAsioTcpClient \<Rightarrow> BoostAsioTcpClient \<times> NetPacket option \<times> client_io list" where
  "BoostAsioTcpClient_onPayload ec bs b =
     (if ec then (BoostAsioTcpClient_close b, None, [])
      else
        let m = BoostAsioTcpClient_payloadRead bs (tc_read_msg b)
        in (b\<lparr>tc_read_msg := m\<rparr>, Some m, [ReadHeader]))"

definition BoostAsioTcpClient_onWritten :: "bool \<Rightarrow> BoostAsioTcpClient \<Rightarrow> BoostAsioTcpClient \<times> client_io list" where
  "BoostAsioTcpClient_onWritten ec b =
     (if \<not> ec then
        let (q, w) = BoostAsioTcpClient_written (tc_write_msgs b)
        in (b\<lparr>tc_write_msgs := q\<rparr>, case w of Some bs \<Rightarrow> [Write bs] | None \<Rightarrow> [])
      else (BoostAsioTcpClient_close b, []))"

fun BoostAsioTcpClient_posted :: "posted_call \<Rightarrow> BoostAsioTcpClient \<Rightarrow> BoostAsioTcpClient \<times> client_io list" where
  "BoostAsioTcpClient_posted (PostWrite msg) b =
     (let (q, w) = BoostAsioTcpClient_write msg (tc_write_msgs b)
      in (b\<lparr>tc_write_msgs := q\<rparr>, case w of Some bs \<Rightarrow> [Write bs] | None \<Rightarrow> []))"
| "BoostAsioTcpClient_posted PostClose b = (BoostAsioTcpClient_close b, [])"

subsection \<open>The interface of the client\<close>

definition TcpClient_new :: TcpClient where
  "TcpClient_new = \<lparr>tc_id = [], pClient = None, pThread = False, tc_isConnected = False, posted_calls = []\<rparr>"

text \<open>The host is resolved first; an exception of the resolver leaves init, and the client as it was.\<close>

definition TcpClient_init ::
    "u32 \<Rightarrow> u32 \<Rightarrow> (string \<Rightarrow> string \<Rightarrow> string + unit) \<Rightarrow> string \<Rightarrow> string \<Rightarrow> TcpClient \<Rightarrow>
     string + ReturnType \<times> TcpClient \<times> client_io list" where
  "TcpClient_init ver up resolve serverHost serverPort c =
     (case resolve serverHost serverPort of
        Inl what \<Rightarrow> Inl what
      | Inr _ \<Rightarrow>
          let (b, ops) = BoostAsioTcpClient_new ver up
          in Inr (ReturnType_int 0, c\<lparr>pClient := Some b, pThread := True\<rparr>, ops))"

definition TcpClient_post :: "posted_call \<Rightarrow> TcpClient \<Rightarrow> fault + TcpClient" where
  "TcpClient_post f c =
     (case pClient c of None \<Rightarrow> Inl NullPointer | Some _ \<Rightarrow> Inr (c\<lparr>posted_calls := posted_calls c @ [f]\<rparr>))"

definition TcpClient_send :: "NetPacket \<Rightarrow> TcpClient \<Rightarrow> fault + ReturnType \<times> TcpClient" where
  "TcpClient_send netPacket c = map_sum id (\<lambda>c. (ReturnType_int 0, c)) (TcpClient_post (PostWrite netPacket) c)"

definition TcpClient_isConnected :: "TcpClient \<Rightarrow> bool" where
  "TcpClient_isConnected c = tc_isConnected c"

definition TcpClient_id :: "TcpClient \<Rightarrow> string" where
  "TcpClient_id c = tc_id c"

text \<open>The destructor posts the close; then it joins the thread of the event loop.\<close>

definition TcpClient_destroy :: "TcpClient \<Rightarrow> fault + TcpClient" where
  "TcpClient_destroy c = TcpClient_post PostClose c"

text \<open>
  The TCP client sends and receives whole packets in order. The writes it starts are the
  bytes of the first packets sent, in order, one at a time; and whatever bytes arrive, the packets
  it hands over followed by the unread rest are the stream, every packet well formed.
\<close>
lemma tcp_client_in_order:
  assumes "client_writer.run calls [] = Some (q, ws)" and "20 \<le> length (wholePacket m)"
    and "client_reader.frames m bs = (ps, rest)"
  shows "q = drop (writer_completions calls) (writer_delivered calls) \<and>
    ws = map wholePacket (take (writer_completions calls + (if q = [] then 0 else 1)) (writer_delivered calls)) \<and>
    concat (map wholePacket ps) @ rest = bs \<and> (\<forall>p \<in> set ps. packet_wf p)"
  using client_writer.run_writes [OF assms(1)] client_reader.frames_partition [OF assms(2,3)] by simp

lemma tcp_client_in_order_witness:
  "\<exists>ps rest. client_reader.frames (NetPacket_new 0 0 0 0) [1, 2, 3] = (ps, rest) \<and>
     concat (map wholePacket ps) @ rest = [1, 2, 3]"
proof -
  obtain q ws where w: "client_writer.run [Deliver (NetPacket_new 1 2 3 4), Written] [] = Some (q, ws)"
    by (simp add: client_writer.deliver client_writer.written)
  have l: "20 \<le> length (wholePacket (NetPacket_new 0 0 0 0))"
    by (simp add: NetPacket_new_eq)
  obtain ps rest where f: "client_reader.frames (NetPacket_new 0 0 0 0) [1, 2, 3] = (ps, rest)"
    by fastforce
  then show ?thesis
    using tcp_client_in_order [OF w l f] by simp
qed

subsection \<open>Steps\<close>

text \<open>
  The client after init: its event loop runs as long as it has work, that is pending operations or posted
  functions. Besides the state of the program a run records what the caller has sent, the writes that the socket was given
  and the packets that the callback was given.
\<close>

record client_run =
  cl :: TcpClient
  pending :: "client_io multiset"
  loop_runs :: bool
  cl_sent :: "NetPacket list"
  cl_started :: "byte list list"
  cl_handed :: "NetPacket list"

fun io_writes :: "client_io list \<Rightarrow> byte list list" where
  "io_writes [] = []"
| "io_writes (Write bs # ops) = bs # io_writes ops"
| "io_writes (_ # ops) = io_writes ops"

definition completed :: "BoostAsioTcpClient \<Rightarrow> client_io list \<Rightarrow> client_io multiset \<Rightarrow> client_run \<Rightarrow> client_run" where
  "completed b ops P r =
     r\<lparr>cl := (cl r)\<lparr>pClient := Some b\<rparr>, pending := P + mset ops, cl_started := cl_started r @ io_writes ops\<rparr>"

inductive client_step :: "client_run \<Rightarrow> client_run \<Rightarrow> bool" where
  connect_done: "loop_runs r \<Longrightarrow> pending r = add_mset Connect P \<Longrightarrow> pClient (cl r) = Some b \<Longrightarrow>
    BoostAsioTcpClient_onConnect ec b (tc_isConnected (cl r)) = (b', up, ops) \<Longrightarrow>
    client_step r (completed b' ops P (r\<lparr>cl := (cl r)\<lparr>tc_isConnected := up\<rparr>\<rparr>))"
| header_done: "loop_runs r \<Longrightarrow> pending r = add_mset ReadHeader P \<Longrightarrow> pClient (cl r) = Some b \<Longrightarrow>
    ec \<or> length bs = FixHeaderLength \<Longrightarrow> BoostAsioTcpClient_onHeader ec bs b = (b', ops) \<Longrightarrow>
    client_step r (completed b' ops P r)"
| payload_done: "loop_runs r \<Longrightarrow> pending r = add_mset (ReadPayload n) P \<Longrightarrow> pClient (cl r) = Some b \<Longrightarrow>
    ec \<or> length bs = n \<Longrightarrow> BoostAsioTcpClient_onPayload ec bs b = (b', p, ops) \<Longrightarrow>
    client_step r (completed b' ops P (r\<lparr>cl_handed := cl_handed r @ (case p of None \<Rightarrow> [] | Some p \<Rightarrow> [p])\<rparr>))"
| write_done: "loop_runs r \<Longrightarrow> pending r = add_mset (Write bs) P \<Longrightarrow> pClient (cl r) = Some b \<Longrightarrow>
    BoostAsioTcpClient_onWritten ec b = (b', ops) \<Longrightarrow> client_step r (completed b' ops P r)"
| posted_runs: "loop_runs r \<Longrightarrow> posted_calls (cl r) = f # fs \<Longrightarrow> pClient (cl r) = Some b \<Longrightarrow>
    BoostAsioTcpClient_posted f b = (b', ops) \<Longrightarrow>
    client_step r (completed b' ops (pending r) (r\<lparr>cl := (cl r)\<lparr>posted_calls := fs\<rparr>\<rparr>))"
| loop_ends: "loop_runs r \<Longrightarrow> pending r = {#} \<Longrightarrow> posted_calls (cl r) = [] \<Longrightarrow> client_step r (r\<lparr>loop_runs := False\<rparr>)"
| caller_sends: "TcpClient_send p (cl r) = Inr (ret, c) \<Longrightarrow> client_step r (r\<lparr>cl := c, cl_sent := cl_sent r @ [p]\<rparr>)"
| destructor: "TcpClient_destroy (cl r) = Inr c \<Longrightarrow> client_step r (r\<lparr>cl := c\<rparr>)"

inductive_cases client_stepE: "client_step r r'"

text \<open>The run that begins with the client and the operations that init leaves.\<close>

definition client_start :: "TcpClient \<Rightarrow> client_io list \<Rightarrow> client_run" where
  "client_start c ops =
     \<lparr>cl = c, pending = mset ops, loop_runs = True, cl_sent = [], cl_started = [], cl_handed = []\<rparr>"

inductive client_reachable :: "client_run \<Rightarrow> client_run \<Rightarrow> bool" for r where
  here: "client_reachable r r"
| further: "client_reachable r r' \<Longrightarrow> client_step r' r'' \<Longrightarrow> client_reachable r r''"

subsection \<open>The invariant\<close>

fun is_write :: "client_io \<Rightarrow> bool" where
  "is_write (Write bs) = True"
| "is_write _ = False"

definition count_ops :: "(client_io \<Rightarrow> bool) \<Rightarrow> client_io multiset \<Rightarrow> nat" where
  "count_ops f P = size (filter_mset f P)"

lemma count_ops_simps [simp]:
  "count_ops f {#} = 0" "count_ops f (add_mset op P) = (if f op then 1 else 0) + count_ops f P"
  "count_ops f (P + Q) = count_ops f P + count_ops f Q"
  by (simp_all add: count_ops_def)

lemma count_ops_0:
  assumes "count_ops f P = 0" and "op \<in># P"
  shows "\<not> f op"
proof
  assume "f op"
  with assms(2) have "op \<in> set_mset (filter_mset f P)"
    unfolding set_mset_filter by simp
  with assms(1) show False
    by (auto simp: count_ops_def)
qed

fun posted_msgs :: "posted_call list \<Rightarrow> NetPacket list" where
  "posted_msgs [] = []"
| "posted_msgs (PostWrite m # fs) = m # posted_msgs fs"
| "posted_msgs (PostClose # fs) = posted_msgs fs"

lemma posted_msgs_append [simp]: "posted_msgs (fs @ gs) = posted_msgs fs @ posted_msgs gs"
  by (induction fs rule: posted_msgs.induct) simp_all

text \<open>
  The writing side: what was sent is what was executed and what is still posted; of the executed messages, n are
  written, the rest is the queue, and one more than n is started while the queue is not empty.
\<close>

definition writes_ok :: "BoostAsioTcpClient \<Rightarrow> client_run \<Rightarrow> bool" where
  "writes_ok b r \<longleftrightarrow>
     (\<exists>executed n. cl_sent r = executed @ posted_msgs (posted_calls (cl r)) \<and> n \<le> length executed \<and>
        tc_write_msgs b = drop n executed \<and>
        cl_started r = map wholePacket (take (n + (if tc_write_msgs b = [] then 0 else 1)) executed)) \<and>
     count_ops is_write (pending r) \<le> 1 \<and> (\<forall>bs. Write bs \<in># pending r \<longrightarrow> tc_write_msgs b \<noteq> [])"

text \<open>The reading side: one read or the connect is pending at most, and a payload read fits the buffer.\<close>

definition reads_ok :: "BoostAsioTcpClient \<Rightarrow> client_run \<Rightarrow> bool" where
  "reads_ok b r \<longleftrightarrow>
     count_ops (\<lambda>op. \<not> is_write op) (pending r) \<le> 1 \<and> FixHeaderLength \<le> length (wholePacket (tc_read_msg b)) \<and>
     (\<forall>n. ReadPayload n \<in># pending r \<longrightarrow> packet_wf (tc_read_msg b) \<and> payloadLength (tc_read_msg b) = n) \<and>
     (\<forall>p \<in> set (cl_handed r). packet_wf p)"

definition client_inv :: "client_run \<Rightarrow> bool" where
  "client_inv r \<longleftrightarrow> (\<exists>b. pClient (cl r) = Some b \<and> writes_ok b r \<and> reads_ok b r)"

lemma writes_ok_frame:
  assumes "writes_ok b r" and "tc_write_msgs b' = tc_write_msgs b"
    and "cl_sent r' = cl_sent r" and "posted_calls (cl r') = posted_calls (cl r)" and "cl_started r' = cl_started r"
    and "count_ops is_write (pending r') \<le> count_ops is_write (pending r)"
    and "\<And>bs. Write bs \<in># pending r' \<Longrightarrow> Write bs \<in># pending r"
  shows "writes_ok b' r'"
  using assms unfolding writes_ok_def by (auto intro: le_trans)

text \<open>Completions of a read or of the connect: one such operation goes and at most one comes.\<close>

lemma completed_fields [simp]:
  "pClient (cl (completed b ops P r)) = Some b" "posted_calls (cl (completed b ops P r)) = posted_calls (cl r)"
  "pending (completed b ops P r) = P + mset ops" "cl_sent (completed b ops P r) = cl_sent r"
  "cl_started (completed b ops P r) = cl_started r @ io_writes ops" "cl_handed (completed b ops P r) = cl_handed r"
  "loop_runs (completed b ops P r) = loop_runs r" "tc_isConnected (cl (completed b ops P r)) = tc_isConnected (cl r)"
  by (simp_all add: completed_def)

lemma read_completed:
  assumes "client_inv r" and "pending r = add_mset op P" and "\<not> is_write op" and "pClient (cl r) = Some b"
    and "tc_write_msgs b' = tc_write_msgs b" and "ops = [] \<or> (\<exists>op'. ops = [op'] \<and> \<not> is_write op')"
    and "FixHeaderLength \<le> length (wholePacket (tc_read_msg b'))"
    and "\<And>n. ops = [ReadPayload n] \<Longrightarrow> packet_wf (tc_read_msg b') \<and> payloadLength (tc_read_msg b') = n"
    and "cl_sent r' = cl_sent r" "posted_calls (cl r') = posted_calls (cl r)" "cl_started r' = cl_started r"
    and "\<And>p. p \<in> set (cl_handed r') \<Longrightarrow> packet_wf p"
  shows "client_inv (completed b' ops P r')"
proof -
  have w: "writes_ok b r" and rd: "reads_ok b r"
    using assms(1,4) by (auto simp: client_inv_def)
  have "count_ops (\<lambda>op. \<not> is_write op) P = 0"
    using rd assms(2,3) by (simp add: reads_ok_def)
  note none = this count_ops_0 [OF this]
  have "io_writes ops = []" "Write bs \<notin> set ops" for bs
    using assms(6) by (auto elim: is_write.elims)
  then have "writes_ok b' (completed b' ops P r')"
    using assms(2,3,5,6,9-11) by (intro writes_ok_frame [OF w]) auto
  moreover have "reads_ok b' (completed b' ops P r')"
    using none assms(6-8,12) unfolding reads_ok_def by fastforce
  ultimately show ?thesis
    by (simp add: client_inv_def)
qed

text \<open>The completion of a write, and the posted functions.\<close>

lemma write_completed:
  assumes "client_inv r" and "pending r = add_mset (Write bs) P" and "pClient (cl r) = Some b"
    and "BoostAsioTcpClient_onWritten ec b = (b', ops)"
  shows "client_inv (completed b' ops P r)"
proof -
  have w: "writes_ok b r" and rd: "reads_ok b r"
    using assms(1,3) by (auto simp: client_inv_def)
  obtain executed n where e: "cl_sent r = executed @ posted_msgs (posted_calls (cl r))" "n \<le> length executed"
      "tc_write_msgs b = drop n executed"
      "cl_started r = map wholePacket (take (n + (if tc_write_msgs b = [] then 0 else 1)) executed)"
    using w unfolding writes_ok_def by blast
  have q: "tc_write_msgs b \<noteq> []" and none: "count_ops is_write P = 0"
    using w assms(2) by (auto simp: writes_ok_def)
  have rest: "reads_ok b' (completed b' ops P r)" if "tc_read_msg b' = tc_read_msg b" "\<forall>op \<in> set ops. is_write op"
  proof -
    have "count_ops (\<lambda>op. \<not> is_write op) (mset ops) = 0"
      using that(2) by (simp add: count_ops_def filter_mset_eq_conv)
    then show ?thesis
      using rd that assms(2) by (auto simp: reads_ok_def)
  qed
  show ?thesis
  proof (cases ec)
    case True
    then have b': "b' = BoostAsioTcpClient_close b" "ops = []"
      using assms(4) by (simp_all add: BoostAsioTcpClient_onWritten_def)
    have "writes_ok b' (completed b' ops P r)"
      using assms(2) by (intro writes_ok_frame [OF w]) (auto simp: b' BoostAsioTcpClient_close_def)
    with rest show ?thesis
      by (simp add: client_inv_def b' BoostAsioTcpClient_close_def)
  next
    case False
    have d: "n < length executed" "drop n executed = executed ! n # drop (Suc n) executed"
      using q e(2,3) by (auto simp: Cons_nth_drop_Suc)
    then have b': "b' = b\<lparr>tc_write_msgs := drop (Suc n) executed\<rparr>"
        "ops = (if drop (Suc n) executed = [] then [] else [Write (wholePacket (executed ! Suc n))])"
      using assms(4) False e(3)
      by (auto simp: BoostAsioTcpClient_onWritten_def client_writer.written hd_drop_conv_nth split: if_splits)
    have "cl_started r @ io_writes ops = map wholePacket (take (Suc n + (if drop (Suc n) executed = [] then 0 else 1)) executed)"
      using e(4) q d(1) by (auto simp: b'(2) take_Suc_conv_app_nth)
    moreover have "count_ops is_write (P + mset ops) \<le> 1" "\<forall>bs. Write bs \<in># P + mset ops \<longrightarrow> drop (Suc n) executed \<noteq> []"
      using none by (auto simp: b'(2) dest: count_ops_0 [OF none] split: if_splits)
    ultimately have "writes_ok b' (completed b' ops P r)"
      using e(1) d(1) unfolding writes_ok_def
      by (intro conjI exI [of _ executed] exI [of _ "Suc n"]) (simp_all add: b'(1))
    with rest show ?thesis
      by (auto simp: client_inv_def b')
  qed
qed

lemma posted_executed:
  assumes "client_inv r" and "posted_calls (cl r) = f # fs" and "pClient (cl r) = Some b"
    and "BoostAsioTcpClient_posted f b = (b', ops)"
  shows "client_inv (completed b' ops (pending r) (r\<lparr>cl := (cl r)\<lparr>posted_calls := fs\<rparr>\<rparr>))"
    (is "client_inv ?r'")
proof -
  have w: "writes_ok b r" and rd: "reads_ok b r"
    using assms(1,3) by (auto simp: client_inv_def)
  show ?thesis
  proof (cases f)
    case PostClose
    then have b': "b' = BoostAsioTcpClient_close b" "ops = []"
      using assms(4) by simp_all
    have "writes_ok b' ?r'"
      using w assms(2) PostClose by (simp add: writes_ok_def b' BoostAsioTcpClient_close_def)
    then show ?thesis
      using rd by (simp add: client_inv_def reads_ok_def b' BoostAsioTcpClient_close_def)
  next
    case (PostWrite m)
    obtain executed n where e: "cl_sent r = executed @ m # posted_msgs fs" "n \<le> length executed"
        "tc_write_msgs b = drop n executed"
        "cl_started r = map wholePacket (take (n + (if tc_write_msgs b = [] then 0 else 1)) executed)"
      using w assms(2) PostWrite unfolding writes_ok_def by auto
    have b': "b' = b\<lparr>tc_write_msgs := drop n (executed @ [m])\<rparr>"
        "ops = (if tc_write_msgs b = [] then [Write (wholePacket m)] else [])"
      using assms(4) PostWrite e(2,3) by (auto simp: client_writer.deliver)
    have "count_ops is_write (pending r) = 0" if "tc_write_msgs b = []"
    proof -
      have "\<not> is_write op" if "op \<in># pending r" for op
        using w that \<open>tc_write_msgs b = []\<close> by (cases op) (auto simp: writes_ok_def)
      then have "filter_mset is_write (pending r) = {#}"
        by (simp add: filter_mset_eq_conv)
      then show ?thesis
        by (simp add: count_ops_def)
    qed
    then have "count_ops is_write (pending r + mset ops) \<le> 1"
      using w by (auto simp: b'(2) writes_ok_def)
    moreover have "cl_started r @ io_writes ops = map wholePacket (take (n + 1) (executed @ [m]))"
      using e(2-4) by (auto simp: b'(2))
    ultimately have "writes_ok b' ?r'"
      using e(1,2) unfolding writes_ok_def
      by (intro conjI exI [of _ "executed @ [m]"] exI [of _ n]) (simp_all add: b'(1))
    moreover have "reads_ok b' ?r'"
      using rd by (auto simp: reads_ok_def b' split: if_splits)
    ultimately show ?thesis
      by (simp add: client_inv_def)
  qed
qed

lemma connect_completed:
  assumes "client_inv r" and "pending r = add_mset Connect P" and "pClient (cl r) = Some b"
    and "BoostAsioTcpClient_onConnect ec b u = (b', up, ops)"
  shows "client_inv (completed b' ops P (r\<lparr>cl := (cl r)\<lparr>tc_isConnected := up\<rparr>\<rparr>))"
  using assms(1,3,4)
  by (intro read_completed [OF assms(1,2) _ assms(3)])
    (auto simp: BoostAsioTcpClient_onConnect_def BoostAsioTcpClient_close_def client_inv_def reads_ok_def split: if_splits)

lemma header_completed:
  assumes "client_inv r" and "pending r = add_mset ReadHeader P" and "pClient (cl r) = Some b"
    and "ec \<or> length bs = FixHeaderLength" and "BoostAsioTcpClient_onHeader ec bs b = (b', ops)"
  shows "client_inv (completed b' ops P r)"
proof -
  have l: "FixHeaderLength \<le> length (wholePacket (tc_read_msg b))" and h: "\<forall>p \<in> set (cl_handed r). packet_wf p"
    using assms(1,3) by (auto simp: client_inv_def reads_ok_def)
  show ?thesis
  proof (cases ec)
    case True
    then show ?thesis
      using assms(5) l h
      by (intro read_completed [OF assms(1,2) _ assms(3)])
        (auto simp: BoostAsioTcpClient_onHeader_eq BoostAsioTcpClient_close_def)
  next
    case False
    let ?m = "BoostAsioTcpClient_headerRead bs (tc_read_msg b)"
    have "packet_wf ?m"
      using header_filled [of bs "tc_read_msg b"] assms(4) False l by (simp add: BoostAsioTcpClient_headerRead_def)
    then show ?thesis
      using assms(5) False h
      by (intro read_completed [OF assms(1,2) _ assms(3)])
        (auto simp: BoostAsioTcpClient_onHeader_eq Let_def packet_wf_header)
  qed
qed

lemma payload_completed:
  assumes "client_inv r" and "pending r = add_mset (ReadPayload n) P" and "pClient (cl r) = Some b"
    and "ec \<or> length bs = n" and "BoostAsioTcpClient_onPayload ec bs b = (b', p, ops)"
  shows "client_inv (completed b' ops P (r\<lparr>cl_handed := cl_handed r @ (case p of None \<Rightarrow> [] | Some p \<Rightarrow> [p])\<rparr>))"
proof -
  have l: "packet_wf (tc_read_msg b)" "payloadLength (tc_read_msg b) = n" and h: "\<forall>p \<in> set (cl_handed r). packet_wf p"
    using assms(1-3) by (auto simp: client_inv_def reads_ok_def)
  show ?thesis
  proof (cases ec)
    case True
    then show ?thesis
      using assms(5) l h
      by (intro read_completed [OF assms(1,2) _ assms(3)])
        (auto simp: BoostAsioTcpClient_onPayload_def BoostAsioTcpClient_close_def packet_wf_header)
  next
    case False
    let ?m = "BoostAsioTcpClient_payloadRead bs (tc_read_msg b)"
    have "packet_wf ?m"
      using payload_filled [of "tc_read_msg b" bs] assms(4) False l by (simp add: BoostAsioTcpClient_payloadRead_def)
    then show ?thesis
      using assms(5) False h
      by (intro read_completed [OF assms(1,2) _ assms(3)])
        (auto simp: BoostAsioTcpClient_onPayload_def Let_def packet_wf_header)
  qed
qed

lemma posted_inv:
  assumes "client_inv r" and "TcpClient_post f (cl r) = Inr c" and "cl_sent r' = cl_sent r @ posted_msgs [f]"
    and "cl r' = c" and "pending r' = pending r" "cl_started r' = cl_started r" "cl_handed r' = cl_handed r"
  shows "client_inv r'"
proof -
  obtain b where b: "pClient (cl r) = Some b" "writes_ok b r" "reads_ok b r"
    using assms(1) by (auto simp: client_inv_def)
  have c: "cl r' = (cl r)\<lparr>posted_calls := posted_calls (cl r) @ [f]\<rparr>"
    using assms(2,4) b(1) by (simp add: TcpClient_post_def)
  obtain executed n where e: "cl_sent r = executed @ posted_msgs (posted_calls (cl r))" "n \<le> length executed"
      "tc_write_msgs b = drop n executed"
      "cl_started r = map wholePacket (take (n + (if tc_write_msgs b = [] then 0 else 1)) executed)"
    using b(2) unfolding writes_ok_def by blast
  have "cl_sent r' = executed @ posted_msgs (posted_calls (cl r'))"
    using e(1) assms(3) c by simp
  then have "writes_ok b r'"
    using b(2) e(2-4) assms(5,6) unfolding writes_ok_def by auto
  moreover have "reads_ok b r'"
    using b(3) by (simp add: reads_ok_def assms(5,7))
  ultimately show ?thesis
    using b(1) by (simp add: client_inv_def c)
qed

lemma send_posts: "TcpClient_send p c = Inr (ret, c') \<Longrightarrow> TcpClient_post (PostWrite p) c = Inr c' \<and> ret = ReturnType_int 0"
  by (cases "TcpClient_post (PostWrite p) c") (simp_all add: TcpClient_send_def)

lemma client_inv_loop [simp]: "client_inv (r\<lparr>loop_runs := x\<rparr>) = client_inv r"
  by (simp add: client_inv_def writes_ok_def reads_ok_def)

lemma client_step_inv:
  assumes "client_step r r'" and "client_inv r"
  shows "client_inv r'"
  using assms(1)
proof (cases rule: client_step.cases)
  case (caller_sends p ret c)
  have "TcpClient_post (PostWrite p) (cl r) = Inr c"
    using send_posts [OF caller_sends(2)] by blast
  then show ?thesis
    unfolding caller_sends(1) by (rule posted_inv [OF assms(2)]) simp_all
next
  case (destructor c)
  have "TcpClient_post PostClose (cl r) = Inr c"
    using destructor(2) by (simp add: TcpClient_destroy_def)
  then show ?thesis
    unfolding destructor(1) by (rule posted_inv [OF assms(2)]) simp_all
qed (use assms(2) connect_completed header_completed payload_completed write_completed posted_executed in simp_all)

lemma client_start_inv:
  assumes "TcpClient_init ver up resolve host port TcpClient_new = Inr (ret, c, ops)"
  shows "client_inv (client_start c ops)"
  using assms
  by (auto simp: TcpClient_init_def BoostAsioTcpClient_new_def TcpClient_new_def client_start_def client_inv_def
      writes_ok_def reads_ok_def packet_wf_header split: sum.splits)

lemma client_reachable_inv:
  "client_reachable r r' \<Longrightarrow> client_inv r \<Longrightarrow> client_inv r'"
  by (induction rule: client_reachable.induct) (blast intro: client_step_inv)+

text \<open>
  C13: the TCP client as a whole. After a successful init, whatever the other threads post, in whichever order
  the operations of the socket complete and with whichever errors and bytes: the writes it has started are the bytes of
  the first packets sent, whole, in order and each once; at most one write is in progress, and at most one read; the read of a
  payload fits the buffer; and every packet the callback was given is well formed.
\<close>
theorem tcp_client_session:
  assumes "TcpClient_init ver up resolve host port TcpClient_new = Inr (ret, c, ops)"
    and "client_reachable (client_start c ops) r"
  shows "(\<exists>n. cl_started r = map wholePacket (take n (cl_sent r))) \<and>
    count_ops is_write (pending r) \<le> 1 \<and> count_ops (\<lambda>op. \<not> is_write op) (pending r) \<le> 1 \<and>
    (\<forall>n. ReadPayload n \<in># pending r \<longrightarrow>
      (\<exists>b. pClient (cl r) = Some b \<and> length (wholePacket (tc_read_msg b)) = FixHeaderLength + n)) \<and>
    (\<forall>p \<in> set (cl_handed r). packet_wf p)"
proof -
  obtain b where b: "pClient (cl r) = Some b" "writes_ok b r" "reads_ok b r"
    using client_reachable_inv [OF assms(2) client_start_inv [OF assms(1)]] by (auto simp: client_inv_def)
  obtain executed n where e: "cl_sent r = executed @ posted_msgs (posted_calls (cl r))" "n \<le> length executed"
      "tc_write_msgs b = drop n executed"
      "cl_started r = map wholePacket (take (n + (if tc_write_msgs b = [] then 0 else 1)) executed)"
    using b(2) unfolding writes_ok_def by blast
  have "n + (if tc_write_msgs b = [] then 0 else 1) \<le> length executed"
    using e(2,3) by auto
  then have "cl_started r = map wholePacket (take (n + (if tc_write_msgs b = [] then 0 else 1)) (cl_sent r))"
    using e(1,4) by simp
  then have "\<exists>n. cl_started r = map wholePacket (take n (cl_sent r))"
    by blast
  moreover have "length (wholePacket (tc_read_msg b)) = FixHeaderLength + n" if "ReadPayload n \<in># pending r" for n
    using b(3) that by (auto simp: reads_ok_def packet_wf_def payloadLength_def FixHeaderLength_20)
  ultimately show ?thesis
    using b unfolding writes_ok_def reads_ok_def by blast
qed

theorem tcp_client_session_witness:
  "\<exists>c ops r. TcpClient_init 0 0 (\<lambda>_ _. Inr ()) ''host'' ''80'' TcpClient_new = Inr (ReturnType_int 0, c, ops) \<and>
     client_reachable (client_start c ops) r \<and> cl_sent r = [NetPacket_new 0 0 3 0] \<and>
     (\<exists>n. cl_started r = map wholePacket (take n [NetPacket_new 0 0 3 0]))"
proof -
  let ?p = "NetPacket_new 0 0 3 0"
  obtain c ops where i: "TcpClient_init 0 0 (\<lambda>_ _. Inr ()) ''host'' ''80'' TcpClient_new = Inr (ReturnType_int 0, c, ops)"
      "\<exists>b. pClient c = Some b"
    by (simp add: TcpClient_init_def BoostAsioTcpClient_new_def)
  obtain c' where s: "TcpClient_send ?p c = Inr (ReturnType_int 0, c')"
    using i(2) by (auto simp: TcpClient_send_def TcpClient_post_def)
  let ?r = "(client_start c ops)\<lparr>cl := c', cl_sent := [?p]\<rparr>"
  have "client_reachable (client_start c ops) ?r"
    using client_reachable.further [OF client_reachable.here caller_sends [of ?p "client_start c ops"]] s
    by (simp add: client_start_def)
  with tcp_client_session [OF i(1) this] i(1) show ?thesis
    by fastforce
qed

lemma connected_kept:
  "client_reachable r r' \<Longrightarrow> tc_isConnected (cl r) \<Longrightarrow> tc_isConnected (cl r')"
proof (induction rule: client_reachable.induct)
  case (further r' r'')
  from further.hyps(2) further.IH [OF further.prems] show ?case
    by (cases rule: client_step.cases)
      (auto simp: TcpClient_send_def TcpClient_destroy_def TcpClient_post_def BoostAsioTcpClient_onConnect_def
        split: if_splits option.splits)
qed simp

lemma ended_loop_kept:
  assumes "client_reachable r r'" and "\<not> loop_runs r" and "pClient (cl r) = Some b"
  shows "\<not> loop_runs r' \<and> cl_started r' = cl_started r \<and> cl_handed r' = cl_handed r \<and>
    tc_isConnected (cl r') = tc_isConnected (cl r) \<and> pClient (cl r') = Some b"
  using assms
proof (induction rule: client_reachable.induct)
  case (further r' r'')
  from further.hyps(2) further.IH [OF further.prems] show ?case
    by (cases rule: client_step.cases)
      (auto simp: TcpClient_send_def TcpClient_destroy_def TcpClient_post_def)
qed simp

text \<open>
  C34: a client whose event loop has ended drops what it is given. When the loop has run out of work, which happens as soon as
  the connection is refused or closed, every later send still succeeds and no byte is ever given to the
  socket again. What the client reports about its connection does not change any more; and if it reported a connection
  at any time, before the loop ended or after, it reports one for ever.
\<close>
theorem sends_after_loop_lost:
  assumes "client_reachable r0 r" and "client_reachable r r'" and "\<not> loop_runs r" and "pClient (cl r) = Some b"
  shows "\<not> loop_runs r' \<and> cl_started r' = cl_started r \<and> cl_handed r' = cl_handed r \<and>
    TcpClient_isConnected (cl r') = TcpClient_isConnected (cl r) \<and>
    (TcpClient_isConnected (cl r0) \<longrightarrow> TcpClient_isConnected (cl r')) \<and>
    (\<exists>c. TcpClient_send p (cl r') = Inr (ReturnType_int 0, c))"
  using ended_loop_kept [OF assms(2-4)] connected_kept [OF assms(1)]
  by (simp add: TcpClient_isConnected_def TcpClient_send_def TcpClient_post_def)

theorem sends_after_loop_lost_witness:
  "\<exists>c ops r c'. TcpClient_init 0 0 (\<lambda>_ _. Inr ()) ''host'' ''80'' TcpClient_new = Inr (ReturnType_int 0, c, ops) \<and>
     client_reachable (client_start c ops) r \<and> \<not> loop_runs r \<and> TcpClient_isConnected (cl r) \<and>
     TcpClient_send (NetPacket_new 0 0 3 0) (cl r) = Inr (ReturnType_int 0, c')"
proof -
  obtain c ops where i: "TcpClient_init 0 0 (\<lambda>_ _. Inr ()) ''host'' ''80'' TcpClient_new = Inr (ReturnType_int 0, c, ops)"
      "ops = [Connect]" "\<exists>b. pClient c = Some b" "posted_calls c = []"
    by (simp add: TcpClient_init_def BoostAsioTcpClient_new_def TcpClient_new_def)
  obtain b where b: "pClient c = Some b"
    using i(3) by blast
  let ?s = "client_start c ops"
  obtain r1 where r1: "client_step ?s r1" "loop_runs r1" "pending r1 = {#ReadHeader#}" "pClient (cl r1) = Some b"
      "tc_isConnected (cl r1)" "posted_calls (cl r1) = []"
    using connect_done [of ?s "{#}" b False b True "[ReadHeader]"] b i(2,4)
    by (fastforce simp: client_start_def BoostAsioTcpClient_onConnect_def)
  obtain r2 where r2: "client_step r1 r2" "loop_runs r2" "pending r2 = {#}" "tc_isConnected (cl r2)"
      "posted_calls (cl r2) = []" "\<exists>b. pClient (cl r2) = Some b"
    using header_done [of r1 "{#}" b True "[]" "BoostAsioTcpClient_close b" "[]"] r1
    by (fastforce simp: BoostAsioTcpClient_onHeader_def)
  let ?r = "r2\<lparr>loop_runs := False\<rparr>"
  have reach: "client_reachable ?s ?r" "client_reachable r1 ?r"
    using r1(1) r2(1) loop_ends [OF r2(2,3,5)] by (blast intro: client_reachable.intros)+
  obtain b2 where "pClient (cl ?r) = Some b2"
    using r2(6) by auto
  from sends_after_loop_lost [OF reach(2) client_reachable.here _ this, of "NetPacket_new 0 0 3 0"] reach(1) i(1) r1(5)
  show ?thesis
    by (fastforce simp: TcpClient_isConnected_def)
qed

text \<open>
  A client whose init has thrown, because the host did not resolve, cannot be destroyed: the destructor
  dereferences a null pointer, which no handler catches.
\<close>
lemma failed_init_crashes_destructor:
  assumes "resolve host port = Inl what"
  shows "TcpClient_init ver up resolve host port TcpClient_new = Inl what" and "TcpClient_destroy TcpClient_new = Inl NullPointer"
  using assms by (simp_all add: TcpClient_init_def TcpClient_destroy_def TcpClient_post_def TcpClient_new_def)

end
