(* ===== verification/Client_Lifetime.thy ===== *)
theory Client_Lifetime
  imports Net_Client
begin

text \<open>
  Who owns the UDP client (client_essential/net_engine/RawUdpClient.cpp, .hpp and Worker.cpp). The worker holds the client
  by a shared pointer, the client its implementation, and the implementation again the client, since its constructor is
  given shared_from_this. Objects are named by numbers; an object is destroyed, with its members, when no
  shared pointer refers to it any more, and the destructor of the implementation ends its receiver thread.
\<close>

subsection \<open>Shared pointers\<close>

datatype cell = ClientObj nat | ImplObj nat

text \<open>The member of a worker, the member impl of a client, the member tcpClient of an implementation.\<close>

datatype holder = WorkerMember nat | Member cell

record owners =
  refs :: "(holder \<times> cell) list"
  alive :: "cell list"

definition use_count :: "cell \<Rightarrow> owners \<Rightarrow> nat" where
  "use_count c st = length (filter (\<lambda>r. snd r = c) (refs st))"

definition destroy_object :: "cell \<Rightarrow> owners \<Rightarrow> owners" where
  "destroy_object c st = \<lparr>refs = filter (\<lambda>r. fst r \<noteq> Member c) (refs st), alive = removeAll c (alive st)\<rparr>"

lemma find_Some_mem: "find P xs = Some x \<Longrightarrow> x \<in> set xs \<and> P x"
  by (induction xs) (auto split: if_splits)

text \<open>Objects without an owner are destroyed, which may leave others without one.\<close>

function collect :: "owners \<Rightarrow> owners" where
  "collect st =
     (case find (\<lambda>c. use_count c st = 0) (alive st) of
        None \<Rightarrow> st
      | Some c \<Rightarrow> collect (destroy_object c st))"
  by pat_completeness auto

termination
  by (relation "measure (\<lambda>st. length (alive st))")
    (auto simp: destroy_object_def dest!: find_Some_mem intro!: length_removeAll_less)

declare collect.simps [simp del]

definition reset :: "holder \<Rightarrow> owners \<Rightarrow> owners" where
  "reset h st = collect (st\<lparr>refs := filter (\<lambda>r. fst r \<noteq> h) (refs st)\<rparr>)"

text \<open>Assigning a fresh object to a shared pointer.\<close>

definition assign_new :: "holder \<Rightarrow> cell \<Rightarrow> owners \<Rightarrow> owners" where
  "assign_new h c st = reset h st\<lparr>refs := (h, c) # refs (reset h st), alive := c # alive (reset h st)\<rparr>"

subsection \<open>The worker and its client\<close>

text \<open>Worker::init makes the client; RawUdpClient::init makes the implementation, which takes a pointer to the client.\<close>

definition init_makes_client :: "nat \<Rightarrow> nat \<Rightarrow> owners \<Rightarrow> owners" where
  "init_makes_client w a st = assign_new (WorkerMember w) (ClientObj a) st"

definition client_makes_impl :: "nat \<Rightarrow> nat \<Rightarrow> owners \<Rightarrow> owners" where
  "client_makes_impl a i st =
     (let st = assign_new (Member (ClientObj a)) (ImplObj i) st
      in st\<lparr>refs := (Member (ImplObj i), ClientObj a) # refs st\<rparr>)"

text \<open>The destructor of the worker releases its member.\<close>

definition worker_destroyed :: "nat \<Rightarrow> owners \<Rightarrow> owners" where
  "worker_destroyed w st = reset (WorkerMember w) st"

text \<open>
  The receiver thread runs until the destructor of its object clears the flag, or until receive_from throws: the exception
  ends the loop (failed says of which objects it has done so).
\<close>

definition receiver_runs :: "(nat \<Rightarrow> bool) \<Rightarrow> nat \<Rightarrow> owners \<Rightarrow> bool" where
  "receiver_runs failed i st \<longleftrightarrow> ImplObj i \<in> set (alive st) \<and> \<not> failed i"

text \<open>One call from connect to the destruction of the worker, with the k-th objects.\<close>

definition one_call :: "nat \<Rightarrow> owners \<Rightarrow> owners" where
  "one_call k st = worker_destroyed k (client_makes_impl k k (init_makes_client k k st))"

subsection \<open>The cycle\<close>

definition cycle :: "nat \<Rightarrow> nat \<Rightarrow> owners \<Rightarrow> bool" where
  "cycle a i st \<longleftrightarrow>
     (Member (ImplObj i), ClientObj a) \<in> set (refs st) \<and> (Member (ClientObj a), ImplObj i) \<in> set (refs st) \<and>
     ClientObj a \<in> set (alive st) \<and> ImplObj i \<in> set (alive st)"

lemma use_count_pos: "(h, c) \<in> set (refs st) \<Longrightarrow> use_count c st \<noteq> 0"
  by (force simp: use_count_def filter_empty_conv)

lemma cycle_destroy:
  "cycle a i st \<Longrightarrow> use_count c st = 0 \<Longrightarrow> cycle a i (destroy_object c st)"
  by (auto simp: cycle_def destroy_object_def dest: use_count_pos)

lemma cycle_collect: "cycle a i st \<Longrightarrow> cycle a i (collect st)"
proof (induction st rule: collect.induct)
  case (1 st)
  show ?case
  proof (cases "find (\<lambda>c. use_count c st = 0) (alive st)")
    case None
    then show ?thesis
      using 1(2) by (simp add: collect.simps [of st])
  next
    case (Some c)
    then show ?thesis
      using 1(1) [OF Some] cycle_destroy [OF 1(2)] find_Some_mem [OF Some] by (simp add: collect.simps [of st])
  qed
qed

lemma cycle_reset:
  assumes "cycle a i st" and "h \<noteq> Member (ImplObj i)" and "h \<noteq> Member (ClientObj a)"
  shows "cycle a i (reset h st)"
  unfolding reset_def using assms by (intro cycle_collect) (auto simp: cycle_def)

lemma cycle_assign_new:
  assumes "cycle a i st" and "h \<noteq> Member (ImplObj i)" and "h \<noteq> Member (ClientObj a)"
  shows "cycle a i (assign_new h c st)"
  using cycle_reset [OF assms] by (auto simp: assign_new_def cycle_def)

lemma cycle_made: "cycle a i (client_makes_impl a i (init_makes_client w a st))"
proof -
  let ?st = "init_makes_client w a st"
  have "(WorkerMember w, ClientObj a) \<in> set (refs ?st)" "ClientObj a \<in> set (alive ?st)"
    by (simp_all add: init_makes_client_def assign_new_def)
  moreover have "(WorkerMember w, ClientObj a) \<in> set (refs (collect st')) \<and> ClientObj a \<in> set (alive (collect st'))"
    if "(WorkerMember w, ClientObj a) \<in> set (refs st')" "ClientObj a \<in> set (alive st')" for st'
    using that
  proof (induction st' rule: collect.induct)
    case (1 st')
    show ?case
    proof (cases "find (\<lambda>c. use_count c st' = 0) (alive st')")
      case None
      then show ?thesis
        using 1(2,3) by (simp add: collect.simps [of st'])
    next
      case (Some c)
      then have "c \<noteq> ClientObj a"
        using find_Some_mem [OF Some] use_count_pos [OF 1(2)] by blast
      then show ?thesis
        using 1(1) [OF Some] 1(2,3) Some by (simp add: collect.simps [of st'] destroy_object_def)
    qed
  qed
  ultimately have "ClientObj a \<in> set (alive (reset (Member (ClientObj a)) ?st))"
    unfolding reset_def by simp
  then show ?thesis
    by (simp add: client_makes_impl_def assign_new_def cycle_def Let_def)
qed

lemma alive_collect: "set (alive (collect st)) \<subseteq> set (alive st)"
proof (induction st rule: collect.induct)
  case (1 st)
  show ?case
  proof (cases "find (\<lambda>c. use_count c st = 0) (alive st)")
    case (Some c)
    then show ?thesis
      using 1 [OF Some] by (auto simp: collect.simps [of st] destroy_object_def)
  qed (simp add: collect.simps [of st])
qed

lemma alive_reset: "set (alive (reset h st)) \<subseteq> set (alive st)"
  using alive_collect [of "st\<lparr>refs := filter (\<lambda>r. fst r \<noteq> h) (refs st)\<rparr>"] by (simp add: reset_def)

lemma alive_assign_new: "set (alive (assign_new h c st)) \<subseteq> insert c (set (alive st))"
  using alive_reset [of h st] by (auto simp: assign_new_def)

lemma alive_one_call: "set (alive (one_call k st)) \<subseteq> {ClientObj k, ImplObj k} \<union> set (alive st)"
proof -
  let ?c = "init_makes_client k k st"
  have "set (alive ?c) \<subseteq> insert (ClientObj k) (set (alive st))"
    unfolding init_makes_client_def by (rule alive_assign_new)
  moreover have "set (alive (client_makes_impl k k ?c)) \<subseteq> insert (ImplObj k) (set (alive ?c))"
    using alive_assign_new [of "Member (ClientObj k)" "ImplObj k" ?c] by (simp add: client_makes_impl_def Let_def)
  ultimately show ?thesis
    using alive_reset [of "WorkerMember k" "client_makes_impl k k ?c"] unfolding one_call_def worker_destroyed_def by auto
qed

lemma cycle_one_call: "cycle k k (one_call k st)"
  unfolding one_call_def worker_destroyed_def by (rule cycle_reset [OF cycle_made]) simp_all

lemma cycle_kept:
  assumes "cycle a i st" and "a \<noteq> k" and "i \<noteq> k"
  shows "cycle a i (one_call k st)"
proof -
  have "cycle a i (assign_new (Member (ClientObj k)) (ImplObj k) (assign_new (WorkerMember k) (ClientObj k) st))"
    using assms by (intro cycle_assign_new) simp_all
  then have "cycle a i (client_makes_impl k k (init_makes_client k k st))"
    by (auto simp: client_makes_impl_def init_makes_client_def cycle_def Let_def)
  then show ?thesis
    unfolding one_call_def worker_destroyed_def by (rule cycle_reset) simp_all
qed

lemma calls_alive: "ImplObj j \<in> set (alive (fold one_call [0..<n] \<lparr>refs = [], alive = []\<rparr>)) \<longleftrightarrow> j < n"
proof (induction n)
  case (Suc n)
  let ?st = "fold one_call [0..<n] \<lparr>refs = [], alive = []\<rparr>"
  have kept: "\<forall>a < n. cycle a a ?st"
  proof (induction n)
    case (Suc m)
    then show ?case
      using cycle_one_call cycle_kept by (auto simp: less_Suc_eq)
  qed simp
  show ?case
  proof (cases "j < Suc n")
    case True
    then have "cycle j j (one_call n ?st)"
      using kept cycle_one_call [of n ?st] cycle_kept [of j j ?st n] by (cases "j = n") auto
    then show ?thesis
      using True by (simp add: cycle_def)
  next
    case False
    then show ?thesis
      using Suc.IH alive_one_call [of n ?st] by auto
  qed
qed simp

text \<open>
  C33: a call never frees its client. The client and its implementation own each other, so the destruction of the worker
  destroys neither: after n calls, each with a worker that was destroyed at its end, the n implementations are all alive, and
  exactly those receiver threads still run whose receive_from has not thrown; each of them goes on calling the callback
  of its dead worker for every datagram that arrives.
\<close>
theorem receivers_outlive_workers:
  "(ImplObj j \<in> set (alive (fold one_call [0..<n] \<lparr>refs = [], alive = []\<rparr>)) \<longleftrightarrow> j < n) \<and>
   (receiver_runs failed j (fold one_call [0..<n] \<lparr>refs = [], alive = []\<rparr>) \<longleftrightarrow> j < n \<and> \<not> failed j)"
  by (simp add: receiver_runs_def calls_alive)

end
