(* ===== verification/Logger.thy ===== *)
theory Logger
  imports Prelude
begin

text \<open>
  The logging set-up (include/Logger.hpp): the filter of the logging library, the redirection of the standard output
  to a file, and the prefix of a line. A message that passes the filter is written to the standard output by
  the library; where that goes is out.
\<close>

datatype severity = trace | debug | info | warning | error | fatal

text \<open>The order of the levels.\<close>

fun severity_rank :: "severity \<Rightarrow> nat" where
  "severity_rank trace = 0"
| "severity_rank debug = 1"
| "severity_rank info = 2"
| "severity_rank warning = 3"
| "severity_rank error = 4"
| "severity_rank fatal = 5"

lemma severity_rank_inj: "severity_rank a = severity_rank b \<longleftrightarrow> a = b"
  by (cases a; cases b) simp_all

instantiation severity :: linorder
begin

definition less_eq_severity :: "severity \<Rightarrow> severity \<Rightarrow> bool" where
  "less_eq_severity a b \<longleftrightarrow> severity_rank a \<le> severity_rank b"

definition less_severity :: "severity \<Rightarrow> severity \<Rightarrow> bool" where
  "less_severity a b \<longleftrightarrow> severity_rank a < severity_rank b"

instance
  by standard (auto simp: less_eq_severity_def less_severity_def severity_rank_inj [symmetric])

end

text \<open>The standard output is open on the console, open on a file, or closed.\<close>

datatype sink = Console | ToFile string | Closed

record logging =
  min_level :: severity
  log_out :: sink
  log_files :: "string \<Rightarrow> string list option"
  log_console :: "string list"

text \<open>Before any set-up the library lets every message through to the console.\<close>

definition logging_start :: "(string \<Rightarrow> string list option) \<Rightarrow> logging" where
  "logging_start fs = \<lparr>min_level = trace, log_out = Console, log_files = fs, log_console = []\<rparr>"

definition TrickyBoostLog_level :: "severity \<Rightarrow> logging \<Rightarrow> logging" where
  "TrickyBoostLog_level minLevel s = s\<lparr>min_level := minLevel\<rparr>"

text \<open>freopen truncates the file; when it fails, the standard output is closed. The level is debug by default.\<close>

definition TrickyBoostLog_new :: "bool \<Rightarrow> string \<Rightarrow> severity \<Rightarrow> logging \<Rightarrow> logging" where
  "TrickyBoostLog_new opens filePath minLevel s =
     (let s = TrickyBoostLog_level minLevel s
      in if opens then s\<lparr>log_out := ToFile filePath, log_files := (log_files s)(filePath \<mapsto> [])\<rparr> else s\<lparr>log_out := Closed\<rparr>)"

definition default_level :: severity where
  "default_level = debug"

definition TrickyBoostLog_destroy :: "logging \<Rightarrow> logging" where
  "TrickyBoostLog_destroy s = s\<lparr>log_out := Closed\<rparr>"

text \<open>A log statement: the source position is put before the message.\<close>

definition log_prefix :: "string \<Rightarrow> string \<Rightarrow> nat \<Rightarrow> string" where
  "log_prefix func src line =
     [CHR 0x09] @ ''['' @ func @ '']'' @ [CHR 0x09] @ ''['' @ src @ '':'' @ nat_to_string line @ '']'' @ [CHR 0x09]"

definition MY_LOG :: "severity \<Rightarrow> string \<Rightarrow> string \<Rightarrow> nat \<Rightarrow> string \<Rightarrow> logging \<Rightarrow> logging" where
  "MY_LOG level func src line msg s =
     (if min_level s \<le> level then
        let t = log_prefix func src line @ msg
        in (case log_out s of
              Console \<Rightarrow> s\<lparr>log_console := log_console s @ [t]\<rparr>
            | ToFile f \<Rightarrow> s\<lparr>log_files := (log_files s)(f \<mapsto> (case log_files s f of None \<Rightarrow> [] | Some ls \<Rightarrow> ls) @ [t])\<rparr>
            | Closed \<Rightarrow> s)
      else s)"

text \<open>A log statement with all its parts.\<close>

datatype log_call = Log severity string string nat string

fun log_text :: "log_call \<Rightarrow> string" where
  "log_text (Log level func src line msg) = log_prefix func src line @ msg"

fun log_level :: "log_call \<Rightarrow> severity" where
  "log_level (Log level func src line msg) = level"

fun run_log :: "log_call \<Rightarrow> logging \<Rightarrow> logging" where
  "run_log (Log level func src line msg) s = MY_LOG level func src line msg s"

text \<open>
  The log file holds exactly the messages of the minimal level or above, in order, from the set-up to its end; what is
  logged after the destructor is lost.
\<close>

lemma run_logs_file:
  assumes "log_out s = ToFile f" and "log_files s f = Some ls"
  shows "log_out (fold run_log calls s) = ToFile f \<and> min_level (fold run_log calls s) = min_level s \<and>
    log_console (fold run_log calls s) = log_console s \<and>
    log_files (fold run_log calls s) f = Some (ls @ map log_text (filter (\<lambda>c. min_level s \<le> log_level c) calls))"
  using assms
proof (induction calls arbitrary: s ls)
  case (Cons c calls)
  obtain level func src line msg where c: "c = Log level func src line msg"
    by (cases c)
  let ?s = "run_log c s"
  have "log_out ?s = ToFile f" "min_level ?s = min_level s" "log_console ?s = log_console s"
      "log_files ?s f = Some (ls @ (if min_level s \<le> level then [log_text c] else []))"
    using Cons.prems by (simp_all add: c MY_LOG_def Let_def)
  with Cons.IH [of ?s "ls @ (if min_level s \<le> level then [log_text c] else [])"] show ?case
    by (simp add: c)
qed simp

lemma run_logs_closed: "log_out s = Closed \<Longrightarrow> fold run_log calls s = s"
proof (induction calls arbitrary: s)
  case (Cons c calls)
  then have "run_log c s = s"
    by (cases c) (simp add: MY_LOG_def Let_def)
  then show ?case
    using Cons by simp
qed simp

lemma log_file_complete:
  "log_files (fold run_log late (TrickyBoostLog_destroy (fold run_log calls (TrickyBoostLog_new True path level s)))) path =
     Some (map log_text (filter (\<lambda>c. level \<le> log_level c) calls))"
proof -
  let ?s = "TrickyBoostLog_new True path level s"
  have "log_out ?s = ToFile path" "log_files ?s path = Some []" "min_level ?s = level"
    by (simp_all add: TrickyBoostLog_new_def TrickyBoostLog_level_def Let_def)
  with run_logs_file [of ?s path "[]" calls] show ?thesis
    by (simp add: run_logs_closed TrickyBoostLog_destroy_def)
qed

end
