(* ===== verification/Desktop_Main.thy ===== *)
theory Desktop_Main
  imports Ui_Session Logger
begin

text \<open>
  The main function of the desktop client (client_qt5/main.cpp): the folder of the application, the log file, the
  window, and the event loop of Qt, which is an argument. At its end the destructors run in reverse order: the window waits for
  its worker to stop and writes the settings, then the log is closed.
\<close>

text \<open>The local time, as the fields of the C structure.\<close>

record tm =
  tm_year :: int
  tm_mon :: int
  tm_mday :: int
  tm_hour :: int
  tm_min :: int
  tm_sec :: int

text \<open>The log file in the folder of the settings, named by the local time.\<close>

definition log_path :: "string \<Rightarrow> tm \<Rightarrow> string" where
  "log_path folder now =
     log_file_name folder (tm_year now) (tm_mon now) (tm_mday now) (tm_hour now) (tm_min now) (tm_sec now)"

record desktop_env =
  de_windows :: bool
  de_folder :: string
  de_folderExists :: bool
  de_now :: tm
  de_logOpens :: bool
  de_alignedRect :: "nat \<times> nat \<Rightarrow> rect \<Rightarrow> rect"
  de_available :: rect
  de_gitTag :: "string option"
  de_json :: json_ops
  de_configOpens :: bool
  de_workerStops :: bool

text \<open>
  The settings file that the next run finds: None when there is none or it cannot be read. The calls of Qt in order: making the
  folder, setting the font, showing the window. The result is None when the program does not end, because the worker of the
  window does not stop.
\<close>

datatype qt_call = Mkdir string | SetFont string | ShowWindow

definition qt_main ::
    "desktop_env \<Rightarrow> (MainWindow \<Rightarrow> logging \<Rightarrow> int \<times> MainWindow \<times> logging) \<Rightarrow> string option \<Rightarrow> logging \<Rightarrow>
     fault + (int \<times> qt_call list \<times> string option \<times> logging) option" where
  "qt_main env exec settings lg =
     (let made = (if \<not> de_folderExists env then [Mkdir (de_folder env)] else []);
          lg = TrickyBoostLog_new (de_logOpens env) (log_path (de_folder env) (de_now env)) default_level lg
      in case MainWindow_new (de_json env) (de_alignedRect env) (de_available env) (de_gitTag env) settings designed_window of
           Inl e \<Rightarrow> Inl e
         | Inr w \<Rightarrow>
             let font = (if de_windows env then [SetFont ''Arial''] else []);
                 (code, w, lg) = exec w lg
             in case MainWindow_destroy (de_workerStops env) (de_configOpens env) (de_json env) settings w of
                  None \<Rightarrow> Inr None
                | Some saved \<Rightarrow>
                    Inr (Some (code, made @ font @ [ShowWindow], (case saved of None \<Rightarrow> settings | Some t \<Rightarrow> Some t),
                      TrickyBoostLog_destroy lg)))"

text \<open>The texts of the line edits after the construction are those of the settings.\<close>

lemma onVolumeChanged_texts:
  "onVolumeChanged b v m = Inr m' \<Longrightarrow> hostText m' = hostText m \<and> portText m' = portText m"
  by (auto simp: onVolumeChanged_def postEvent_def map_sum_def split: if_splits AudioInOut.splits sum.splits)

lemma init_state_texts: "init_state m = Inr m' \<Longrightarrow> hostText m' = hostText m \<and> portText m' = portText m"
  by (auto simp: init_state_def onNetworkChanged_def postEvent_def toggleAdvancedMode_def showMessage_def
      dest!: onVolumeChanged_texts split: sum.splits)

lemma MainWindow_new_texts:
  assumes "MainWindow_new json aligned available git_tag (Some t) m = Inr m'" and "read_json json t = Inr cfg"
  shows "hostText m' = get_or (cfg_host cfg) ''127.0.0.1'' \<and> portText m' = get_or (cfg_port cfg) ''80''"
proof -
  let ?placed = "label_images (place_window aligned available (load_settings json (Some t) m))"
  let ?m1 = "connect_return (tool_tips (bar_labels (bars_in ?placed) (bars_out ?placed) ?placed))"
  obtain m2 where i: "init_state ?m1 = Inr m2" "m' = m2\<lparr>windowTitle := window_title git_tag\<rparr>"
    using assms(1) by (cases "init_state ?m1") (auto simp: MainWindow_new_def Let_def)
  have "hostText ?m1 = get_or (cfg_host cfg) ''127.0.0.1''" "portText ?m1 = get_or (cfg_port cfg) ''80''"
    using assms(2) by (simp_all add: connect_return_def tool_tips_def bar_labels_def label_images_def place_window_def
        load_settings_def split: prod.split)
  with init_state_texts [OF i(1)] i(2) show ?thesis
    by simp
qed

text \<open>
  What the settings rely on of Boost: a tree that was written with a host and a port is read back with them.
\<close>

definition json_keeps :: "json_ops \<Rightarrow> string \<Rightarrow> string \<Rightarrow> bool" where
  "json_keeps json h p \<longleftrightarrow>
     (\<forall>cfg. cfg_host cfg = Some h \<and> cfg_port cfg = Some p \<longrightarrow>
       (\<exists>cfg'. read_json json (write_json json cfg) = Inr cfg' \<and> cfg_host cfg' = Some h \<and> cfg_port cfg' = Some p))"

text \<open>
  C38: the settings survive a restart. If the settings file can be opened when the first window is destroyed, and the program
  ends, then the next run of the program, with whatever environment, starts with the host and the port that the
  line edits of the first window held at its end; and the log file of a run is closed at its end. The program ends unless
  the window has a worker that does not stop.
\<close>
theorem settings_survive_restart:
  assumes "qt_main env exec settings lg = Inr res" and "de_configOpens env"
    and "MainWindow_new (de_json env) (de_alignedRect env) (de_available env) (de_gitTag env) settings designed_window = Inr w0"
    and "exec w0 (TrickyBoostLog_new (de_logOpens env) (log_path (de_folder env) (de_now env)) default_level lg) = (code, w, lg1)"
    and "json_keeps (de_json env) (hostText w) (portText w)"
  shows "(res = None \<longleftrightarrow> hasWorker w \<and> \<not> de_workerStops env) \<and>
    (\<forall>code' calls settings' lg' w2. res = Some (code', calls, settings', lg') \<longrightarrow>
      log_out lg' = Closed \<and>
      (MainWindow_new (de_json env) (de_alignedRect env2) (de_available env2) (de_gitTag env2) settings' designed_window = Inr w2 \<longrightarrow>
        hostText w2 = hostText w \<and> portText w2 = portText w))"
proof (cases "hasWorker w \<and> \<not> de_workerStops env")
  case True
  then show ?thesis
    using assms(1,3,4) by (auto simp: qt_main_def MainWindow_destroy_def Let_def)
next
  case False
  let ?tree = "case read_json (de_json env) (case settings of Some t \<Rightarrow> t | None \<Rightarrow> []) of Inr cfg \<Rightarrow> cfg | Inl what \<Rightarrow> root w"
  let ?cfg = "?tree\<lparr>cfg_host := Some (hostText w), cfg_port := Some (portText w)\<rparr>"
  have "\<exists>calls. res = Some (code, calls, Some (write_json (de_json env) ?cfg), TrickyBoostLog_destroy lg1)"
    using assms(1-4) False by (cases res) (auto simp: qt_main_def MainWindow_destroy_def Let_def)
  moreover have "cfg_host ?cfg = Some (hostText w)" "cfg_port ?cfg = Some (portText w)"
    by simp_all
  ultimately obtain calls cfg where c: "cfg_host cfg = Some (hostText w)" "cfg_port cfg = Some (portText w)"
      "res = Some (code, calls, Some (write_json (de_json env) cfg), TrickyBoostLog_destroy lg1)"
    by blast
  obtain cfg' where j: "read_json (de_json env) (write_json (de_json env) cfg) = Inr cfg'" "cfg_host cfg' = Some (hostText w)"
      "cfg_port cfg' = Some (portText w)"
    using assms(5) c(1,2) unfolding json_keeps_def by blast
  show ?thesis
    using MainWindow_new_texts [OF _ j(1)] j(2,3) False by (auto simp: c(3) get_or_def TrickyBoostLog_destroy_def)
qed

text \<open>A format of two lines, which keeps every host without a line break.\<close>

definition two_lines :: json_ops where
  "two_lines =
     \<lparr>read_json = (\<lambda>t. Inr (root designed_window
        \<lparr>cfg_host := Some (takeWhile (\<lambda>c. c \<noteq> CHR 0x0A) t), cfg_port := Some (tl (dropWhile (\<lambda>c. c \<noteq> CHR 0x0A) t))\<rparr>)),
      write_json = (\<lambda>cfg. get_or (cfg_host cfg) [] @ [CHR 0x0A] @ get_or (cfg_port cfg) [])\<rparr>"

lemma two_lines_keeps: "CHR 0x0A \<notin> set h \<Longrightarrow> json_keeps two_lines h p"
  by (auto simp: json_keeps_def two_lines_def get_or_def takeWhile_append dropWhile_append intro!: takeWhile_eq_all_conv [THEN iffD2])

theorem settings_survive_restart_witness:
  "\<exists>env code calls settings' lg' w2.
     qt_main env (\<lambda>w lg. (0, w\<lparr>hostText := ''evc.org'', portText := ''81''\<rparr>, lg)) None (logging_start (\<lambda>_. None)) =
       Inr (Some (code, calls, settings', lg')) \<and>
     MainWindow_new two_lines corner (0, 0, 1920, 1080) None settings' designed_window = Inr w2 \<and> hostText w2 = ''evc.org''"
proof -
  let ?env = "\<lparr>de_windows = False, de_folder = ''d'', de_folderExists = True,
      de_now = \<lparr>tm_year = 120, tm_mon = 0, tm_mday = 1, tm_hour = 0, tm_min = 0, tm_sec = 0\<rparr>, de_logOpens = True,
      de_alignedRect = corner, de_available = (0, 0, 1920, 1080), de_gitTag = None, de_json = two_lines, de_configOpens = True,
      de_workerStops = True\<rparr>"
  let ?exec = "\<lambda>w lg. (0 :: int, w\<lparr>hostText := ''evc.org'', portText := ''81''\<rparr>, lg)"
  let ?lg = "logging_start (\<lambda>_. None)"
  let ?lg1 = "TrickyBoostLog_new (de_logOpens ?env) (log_path (de_folder ?env) (de_now ?env)) default_level ?lg"
  obtain w0 where w0: "MainWindow_new (de_json ?env) (de_alignedRect ?env) (de_available ?env) (de_gitTag ?env) None designed_window =
      Inr w0"
    using MainWindow_new_total by blast
  let ?w = "w0\<lparr>hostText := ''evc.org'', portText := ''81''\<rparr>"
  obtain code calls settings' lg' where q: "qt_main ?env ?exec None ?lg = Inr (Some (code, calls, settings', lg'))"
    using w0 by (simp add: qt_main_def MainWindow_destroy_def Let_def)
  obtain w2 where w2: "MainWindow_new two_lines corner (0, 0, 1920, 1080) None settings' designed_window = Inr w2"
    using MainWindow_new_total by blast
  have e: "?exec w0 ?lg1 = (0, ?w, ?lg1)"
    by simp
  have k: "json_keeps (de_json ?env) (hostText ?w) (portText ?w)"
    using two_lines_keeps [of "''evc.org''"] by simp
  have "hostText w2 = ''evc.org''"
    using settings_survive_restart [OF q _ w0 e k, of ?env] w2 by simp
  with q w2 show ?thesis
    by blast
qed

end
