(* ===== verification/Stub_Client.thy ===== *)
theory Stub_Client
  imports Raw_Udp_Server
begin

text \<open>
  The stub of the network client (client_essential/NetClientStub_EchoMediaData.hpp), which answers for a server: the callback
  gets the answer while send runs. The file is deprecated and an #error directive keeps it from compiling;
  what it says of a server is compared with the servers here.
\<close>

record NetClientStub =
  hasCallback :: bool

definition NetClientStub_new :: NetClientStub where
  "NetClientStub_new = \<lparr>hasCallback = False\<rparr>"

definition NetClientStub_init :: "string \<Rightarrow> string \<Rightarrow> NetClientStub \<Rightarrow> ReturnType \<times> NetClientStub" where
  "NetClientStub_init serverHost serverPort s = (ReturnType_int 0, s\<lparr>hasCallback := True\<rparr>)"

text \<open>
  The packets that the callback is given; calling the callback before init throws bad_function_call, which is
  the string.
\<close>

definition NetClientStub_send ::
    "u32 \<Rightarrow> u32 \<Rightarrow> NetPacket \<Rightarrow> NetClientStub \<Rightarrow> string + ReturnType \<times> NetPacket list" where
  "NetClientStub_send ver up netPacket s =
     (let answers = (case pt_of_code (payloadType netPacket) of
            Some HeartBeatRequest \<Rightarrow> [NetPacket_new ver up (pt_code HeartBeatResponse) 0]
          | Some TextMessage \<Rightarrow> [netPacket]
          | Some AudioMessage_CN \<Rightarrow> [netPacket]
          | Some AudioMessage \<Rightarrow> [netPacket]
          | Some LoginRequest \<Rightarrow> [NetPacket_new ver up (pt_code LoginResponse) 0]
          | Some LogoutRequest \<Rightarrow> [NetPacket_new ver up (pt_code LogoutResponse) 0]
          | _ \<Rightarrow> [])
      in if answers \<noteq> [] \<and> \<not> hasCallback s then Inl ''bad_function_call'' else Inr (ReturnType_int 0, answers))"

definition NetClientStub_isConnected :: "NetClientStub \<Rightarrow> bool" where
  "NetClientStub_isConnected s = True"

text \<open>
  The stub answers as the UDP server does in echo mode, message by message, but for the logout: the stub
  confirms it, and the server never does.
\<close>

lemma stub_answers_like_echo_server:
  assumes "hasCallback s"
    and "processClientMessagePayload ver up True msg sender (room, c) = ((room', c'), calls)"
  shows "NetClientStub_send ver up msg s =
    Inr (ReturnType_int 0,
      if pt_of_code (payloadType msg) = Some LogoutRequest then [NetPacket_new ver up (pt_code LogoutResponse) 0]
      else map snd calls) \<and> (\<forall>call \<in> set calls. fst call = sender)"
  using assms
proof (cases msg rule: udp_room.branches)
  case media
  then show ?thesis
    using assms by (auto simp: NetClientStub_send_def udp_room.media_echo isMediaType_iff simp del: pt_code.simps)
next
  case other
  then have "(case pt_of_code (payloadType msg) of
            Some HeartBeatRequest \<Rightarrow> [NetPacket_new ver up (pt_code HeartBeatResponse) 0]
          | Some TextMessage \<Rightarrow> [msg]
          | Some AudioMessage_CN \<Rightarrow> [msg]
          | Some AudioMessage \<Rightarrow> [msg]
          | Some LoginRequest \<Rightarrow> [NetPacket_new ver up (pt_code LoginResponse) 0]
          | Some LogoutRequest \<Rightarrow> [NetPacket_new ver up (pt_code LogoutResponse) 0]
          | _ \<Rightarrow> []) = []"
    by (auto split: option.split PayloadType.split)
  then show ?thesis
    using assms other by (auto simp: NetClientStub_send_def udp_room.other simp del: pt_code.simps)
qed (use assms in \<open>auto simp: NetClientStub_send_def udp_room.heartbeat udp_room.login udp_room.logout simp del: pt_code.simps\<close>)

end
