(* ===== verification/Sanity_Check.thy ===== *)
theory Sanity_Check
  imports Server_Main Worker_Lifecycle
begin

text \<open>
  The programs of the sanity checks. The UDP echo client (tests/sanity_check/net/udp/SanityCheckUdpEchoClient.cpp)
  sends texts to a server and compares the answers; it is run against both UDP servers here. The audio
  check (tests/sanity_check/audio/Entry.cpp) runs a worker on files instead of devices and then looks at what
  it has played.
\<close>

subsection \<open>The UDP echo client\<close>

definition check_length :: nat where
  "check_length = 2 ^ 9"

text \<open>The text is what strlen finds in front of the terminating zero.\<close>

definition request_text :: "nat \<Rightarrow> byte list" where
  "request_text counter = replicate (check_length - 1) (of_nat (97 + counter mod 25))"

text \<open>A receive that nothing arrives for waits for ever; a message that is thrown is not caught.\<close>

datatype check_result = Passed | Waits | Throws_text string

text \<open>
  The server is its state and the function that answers a datagram. The receive cuts the
  reply to the size of the array.
\<close>

fun check_rounds :: "('s \<Rightarrow> byte list \<Rightarrow> 's \<times> byte list option) \<Rightarrow> nat \<Rightarrow> nat \<Rightarrow> 's \<Rightarrow> check_result" where
  "check_rounds server 0 counter s = Passed"
| "check_rounds server (Suc n) counter s =
     (let request = request_text counter in
      case server s request of
        (s, None) \<Rightarrow> Waits
      | (s, Some answer) \<Rightarrow>
          let reply = take check_length answer in
          if length reply \<noteq> length request then Throws_text ''reply_length != request_length''
          else if \<exists>i < length reply. request ! i \<noteq> reply ! i then Throws_text ''request[i] != reply[i]''
          else check_rounds server n (Suc counter) s)"

text \<open>The exit code, or how the program ends otherwise: without its two arguments it prints the usage.\<close>

definition echo_client_main ::
    "('s \<Rightarrow> byte list \<Rightarrow> 's \<times> byte list option) \<Rightarrow> string list \<Rightarrow> 's \<Rightarrow> check_result + int" where
  "echo_client_main server argv s =
     (if length argv \<noteq> 3 then Inr 1
      else (case check_rounds server 100000 0 s of Passed \<Rightarrow> Inr 0 | r \<Rightarrow> Inl r))"

text \<open>The echo server, and the UDP server in any of its modes, as answers to one endpoint.\<close>

definition echo_answer :: "'ep \<Rightarrow> 'ep UdpServer \<Rightarrow> byte list \<Rightarrow> 'ep UdpServer \<times> byte list option" where
  "echo_answer from s datagram =
     (case UdpServer_received False from datagram s of
        (s, _, SendTo to bs) \<Rightarrow> (s, if to = from then Some bs else None)
      | (s, _, ReceiveFrom) \<Rightarrow> (s, None))"

definition relay_answer ::
    "u32 \<Rightarrow> 'ep \<Rightarrow> nat \<Rightarrow> u32 \<Rightarrow> 'ep RawUdpServer \<Rightarrow> byte list \<Rightarrow> 'ep RawUdpServer \<times> byte list option" where
  "relay_answer ver from k up s datagram =
     (let (s, out) = RawUdpServer_doReceive ver
            \<lparr>ev_ec = False, ev_from = from, ev_bytes = datagram, ev_addr = k, ev_up = up\<rparr> s
      in (s, case filter (\<lambda>x. fst x = from) out of [] \<Rightarrow> None | x # _ \<Rightarrow> Some (snd x)))"

lemma request_text_simps [simp]:
  "length (request_text c) = 511" "request_text c \<noteq> []" "take 512 (request_text c) = request_text c"
  "take 1024 (request_text c) = request_text c"
  by (simp_all add: request_text_def check_length_def)

lemma echo_answer_text:
  assumes "length (us_data s) = max_length"
  shows "\<exists>s'. echo_answer from s (request_text c) = (s', Some (request_text c)) \<and> length (us_data s') = max_length"
  using UdpServer_echoes [OF assms, of "request_text c" "from"] by (auto simp: echo_answer_def max_length_def)

text \<open>The check passes against the echo server, whatever the number of rounds.\<close>

lemma echo_server_passes:
  assumes "length (us_data s) = max_length"
  shows "check_rounds (echo_answer from) n c s = Passed"
  using assms
proof (induction n arbitrary: c s)
  case (Suc n)
  obtain s' where "echo_answer from s (request_text c) = (s', Some (request_text c))" "length (us_data s') = max_length"
    using echo_answer_text [OF Suc.prems] by blast
  then show ?case
    using Suc.IH [of s'] by (simp add: check_length_def)
qed simp

lemma echo_client_passes:
  assumes "length argv = 3" and "length (us_data s) = max_length"
  shows "echo_client_main (echo_answer from) argv s = Inr 0"
  using assms by (simp add: echo_client_main_def echo_server_passes del: check_rounds.simps)

text \<open>
  Against the UDP server of the program it waits for ever in its first round, also in echo mode: a text
  of equal letters announces more bytes than it has, so it is no packet.
\<close>

lemma letter_pair_large: "m < 25 \<Longrightarrow> 24832 \<le> unat (rd16 (replicate 511 (of_nat (97 + m) :: byte)) 18)"
proof -
  have "\<forall>m \<in> set [0..<25]. 24832 \<le> unat (or (ucast (of_nat (97 + m) :: byte)) (push_bit 8 (ucast (of_nat (97 + m) :: byte))) :: u16)"
    by (simp add: upt_rec)
  then show "m < 25 \<Longrightarrow> ?thesis"
    by (simp add: rd16_def)
qed

lemma request_text_no_packet: "datagram_packet (request_text c) = None"
  using letter_pair_large [of "c mod 25"]
  by (simp add: datagram_packet_None announced_def request_text_def check_length_def max_length_def)

lemma relay_never_answers:
  assumes "udp_inv s" and "k \<notin> caddr ` set (peers s)"
  shows "\<exists>s'. relay_answer ver from k up s (request_text c) = (s', None)"
proof -
  obtain s' out where r: "RawUdpServer_doReceive ver
      \<lparr>ev_ec = False, ev_from = from, ev_bytes = request_text c, ev_addr = k, ev_up = up\<rparr> s = (s', out)"
    by fastforce
  have "set out = {}"
    using doReceive_refines(4) [OF assms(1) _ r] assms(2) by (simp add: request_text_no_packet relay_spec_def)
  then show ?thesis
    by (simp add: relay_answer_def r)
qed

lemma check_waits_for_server:
  assumes "udp_inv s" and "k \<notin> caddr ` set (peers s)" and "length argv = 3"
  shows "echo_client_main (relay_answer ver from k up) argv s = Inl Waits"
proof -
  obtain s' where "relay_answer ver from k up s (request_text 0) = (s', None)"
    using relay_never_answers [OF assms(1,2)] by blast
  then have "check_rounds (relay_answer ver from k up) (Suc n) 0 s = Waits" for n
    by simp
  from this [of 99999] show ?thesis
    using assms(3) by (simp add: echo_client_main_def del: check_rounds.simps)
qed

subsection \<open>The audio check\<close>

definition case_config :: config where
  "case_config =
     \<lparr>cfg_needAec = None, cfg_audioOutDumpPath = Some ''audioOut_mono16le16kHz.pcm'',
      cfg_audioInStub = Some ''audioInStub.pcm'', cfg_needRealAudioEndpoint = Some False,
      cfg_protocol = Some ''raw_udp'', cfg_host = Some ''127.0.0.1'', cfg_port = Some ''1222''\<rparr>"

text \<open>
  The worker is stopped by another thread after five seconds. What init throws ends the program; None is a syncStart that does
  not return.
\<close>

definition Case_run ::
    "('d, 'e) opus_ops \<Rightarrow> bool \<Rightarrow> init_env \<Rightarrow> start_env \<Rightarrow> ('e, 'w) Worker \<Rightarrow>
     ReturnType option outcome \<times> worker_event list" where
  "Case_run opus android ienv senv w =
     (case Worker_init opus android ienv case_config False False False w of
        (Throws what, w) \<Rightarrow> (Throws what, [])
      | (Faults e, w) \<Rightarrow> (Faults e, [])
      | (Returns ret, w) \<Rightarrow>
          if \<not> ok ret then (Returns (Some ret), [])
          else
            (case Worker_syncStart senv w of
               (None, evs, w) \<Rightarrow> (Returns None, evs)
             | (Some ret, evs, w) \<Rightarrow> (Returns (Some (if \<not> ok ret then ret else ReturnType_int 0)), evs)))"

text \<open>The features of the whole blocks of a file, without the samples behind the shorter of both files.\<close>

function zcr_features :: "nat \<Rightarrow> PcmSegment \<Rightarrow> real list" where
  "zcr_features n xs =
     (if blockSize < n then ZeroCrossingRate (take blockSize xs) # zcr_features (n - blockSize) (drop blockSize xs) else [])"
  by pat_completeness auto

termination
  by (relation "measure fst") (simp_all add: blockSize_160)

declare zcr_features.simps [simp del]

definition corrTowPcmFile :: "PcmSegment \<Rightarrow> PcmSegment \<Rightarrow> ReturnType" where
  "corrTowPcmFile xs ys =
     (let minSize = min (length xs) (length ys);
          low = (\<lambda>zs. \<bar>sum_list (zcr_features minSize zs)\<bar> < \<bar>dbl_epsilon\<bar>)
      in if low xs then ReturnType_int (- 1) else if low ys then ReturnType_int (- 1) else ReturnType_int 0)"

text \<open>The check of one case: the exit code of the program, None when it does not end.\<close>

definition check_case ::
    "ReturnType option outcome \<times> worker_event list \<Rightarrow> PcmSegment \<Rightarrow> PcmSegment \<Rightarrow> string + int option" where
  "check_case run played stub =
     (case fst run of
        Throws what \<Rightarrow> Inl what
      | Faults e \<Rightarrow> Inl ''undefined behaviour''
      | Returns None \<Rightarrow> Inr None
      | Returns (Some ret) \<Rightarrow>
          if \<not> ok ret then Inr (Some (- 1))
          else if \<not> ok (corrTowPcmFile played stub) then Inr (Some (- 1)) else Inr (Some 0))"

text \<open>
  The check accepts only a run that came online and logged out again, after which each file has a zero
  crossing in its blocks; files that share no more than one block are never accepted.
\<close>

lemma zcr_features_empty: "zcr_features n xs = [] \<longleftrightarrow> n \<le> blockSize"
  by (simp add: zcr_features.simps [of n xs])

lemma corrTowPcmFile_short: "min (length xs) (length ys) \<le> blockSize \<Longrightarrow> \<not> ok (corrTowPcmFile xs ys)"
  using dbl_epsilon_pos by (simp add: corrTowPcmFile_def zcr_features_empty [THEN iffD2] Let_def)

lemma check_case_accepts:
  fixes w :: "('e, 'w) Worker"
  assumes "check_case (Case_run opus android ienv senv w) played stub = Inr (Some 0)"
  shows "blockSize < min (length played) (length stub) \<and>
    EndpointStart \<in> set (snd (Case_run opus android ienv senv w)) \<and>
    (\<exists>p. last (snd (Case_run opus android ienv senv w)) = SendPacket p \<and> payloadType p = pt_code LogoutRequest)"
proof -
  obtain ret evs where r: "Case_run opus android ienv senv w = (Returns (Some ret), evs)" "ok ret"
      "ok (corrTowPcmFile played stub)"
    using assms by (cases "Case_run opus android ienv senv w") (auto simp: check_case_def split: outcome.splits option.splits if_splits)
  obtain w' w'' :: "('e, 'w) Worker" and ret' where s: "Worker_syncStart senv w' = (Some ret', evs, w'')" "ok ret'"
    using r(1,2) by (auto simp: Case_run_def split: prod.splits outcome.splits option.splits if_splits)
  have "EndpointStart \<in> set evs \<and> (\<exists>p. last evs = SendPacket p \<and> payloadType p = pt_code LogoutRequest)"
    using syncStart_online [OF s(1)] syncStart_refused [OF s(1)] s(2) by fastforce
  then show ?thesis
    using corrTowPcmFile_short [of played stub] r(1,3) by fastforce
qed

end
