(* ===== verification/Spec2Isabelle.thy ===== *)
theory Spec2Isabelle
  imports Network Send_Buffers Unit_Tests Server_Main Tcp_Server Android_Jni Android_Worker Endpoint Audio_In Alsa Ui_Session Client_Cli
    Worker_Threads Voice_Path Tcp_Types Tcp_Client Client_Lifetime Desktop_Main Stub_Client Sanity_Check
begin

text \<open>
  Easy Voice Call: a verification development for the voice chat program under src/.

  The program. A client records blocks of 160 samples (10 ms at 16 kHz), cleans and encodes them and sends them
  in packets to a server, which relays every media packet to the other clients (broadcast
  mode) or back to its sender (echo mode). A client decodes what it receives into a queue, from which the
  audio callback plays, with a fade and comfort noise when the queue runs dry. There are a UDP
  and a TCP variant of server and client, a desktop window, a command line client and an Android client.

  Theories and sources (paths under src/).
    Prelude            bytes, words, arrays, decimal numbers and ordered sets that the others share
    Return_Type        include/ReturnType.hpp
    Net_Packet         include/NetPacket.hpp: the packet, and the locale datagram_parser of the three
                       parsers of a datagram
    Relay              the locale relay_room: what the rooms of both servers do with a message
    Raw_Udp_Server     server/RawUdpServer.hpp, .cpp: connections, room, receive loop; the abstract relay
    Send_Buffers       server/RawUdpServer.cpp again, with the packets as objects in memory and sends that may be
                       performed later than the call that starts them
    Server_Main        server/Server.cpp: the two entry points; server/UdpServer.hpp: the echo server
    Framing            the locales framed_reader and write_queue of the TCP session and the TCP client
    Tcp_Server         server/TcpServer.hpp, server/Room.hpp: sessions, acceptor, room
    Tcp_Types          the typing of the states of the TCP server
    Net_Client         client_essential/net_engine/RawUdpClient.hpp, .cpp: the UDP client
    Client_Lifetime    the shared pointers between worker, UDP client and its implementation
    Tcp_Client         client_essential/TcpClient.hpp: handlers, posted functions, the client as a step relation
    Stub_Client        client_essential/NetClientStub_EchoMediaData.hpp, compared with the UDP server
    Logger             include/Logger.hpp
    Android_Jni        client_android/app/src/main/cpp/Entry.cpp: the calls from Java
    Volume_Meter       include/AudioCommon.hpp, ZeroCrossingRate.hpp, audio_engine/AudioVolumeMeter_*.hpp
    Concealment        audio_engine/Fade.hpp, PacketLossConcealment_ZeroInsertion.hpp
    Profiler           include/ProcessTime.hpp, client_essential/Profiler.hpp
    Jitter_Buffer      audio_engine/JitterBuffer.hpp; locales spsc_queue (the library queue) and block_queue
    Codec              client_essential/OpusDec.hpp, OpusEnc.hpp; opus_contract states the library's contract
    Downstream         audio_engine/DownstreamProcessor.*; the locale segment_queue and the abstract playback
    Audio_In           audio_engine/AudioInStub.hpp, GeneratedWave.hpp, include/FileUtils.hpp
    Endpoint           client_essential/CallbackStyle*Endpoint*.hpp, .cpp
    Alsa               client_essential/Alsa.hpp
    Worker             client_essential/Worker.hpp, Worker.cpp: the definitions
    Worker_Properties  the sending pipeline: numbering, voice and comfort noise, which faults it can end in
    Worker_Lifecycle   init, the start-up of syncStart and its limits, heartbeats
    Worker_Threads     syncStart and syncStop of client_essential/Worker.cpp as interleaved threads
    Network            clients, UDP server and strangers on a network that loses, repeats and reorders datagrams
    Voice_Path         from the microphone of one worker over the UDP server to the playback of another
    Android_Worker     client_android/app/src/main/cpp/Worker.cpp: init and syncStart, which differ, and the other
                       functions, which are those of Worker on the Android record
    Client_Cli         client_cli/Entry.cpp
    Main_Window        client_qt5/mainwindow.hpp, mainwindow.cpp
    Ui_Session         the window, its event queue and the network thread of its worker as one system
    Desktop_Main       client_qt5/main.cpp: log file, window, event loop, settings
    Sanity_Check       tests/sanity_check: the UDP echo client against both UDP servers, the audio check
    Unit_Tests         tests/unit_tests: AlsaLoopback.cpp and Opus.cpp
    Spec2Isabelle      the properties of packets that go from one client to another

  How the code is read. A class is a record, its methods are functions from state to state; a call of a
  library or the system (sockets, Opus, WebRTC, PortAudio, ALSA, Qt, clocks, allocators) is an
  argument of the function or an entry of a list of results, so that every result the library may give
  is covered. Machine integers are words of their width. A throw, a failed assertion and an access out of bounds are
  values of the type fault (Concealment), where a read behind the size of a vector but inside its storage is a value of its
  own, PastSize; a message thrown as a string, which no handler for
  std::exception catches, is a case of outcome (Worker). Sets of shared pointers iterate by address:
  they are ascending lists. Shared segments live in a store from addresses to blocks, since the
  fader works in place. The two time stamps that are static variables of functions of the worker outlive it: a new worker takes
  over their values. Loops over flags that another thread clears, and loops that
  repeat library calls, recurse over the list of readings; when the list is used up the loop is still running,
  and the result says so (None, or the first component of heartbeat_loop). The two polling loops of the start-up end after
  ten readings: their readings are functions of the number of the reading. No fuel is used anywhere;
  frames (Framing) and nat_to_string recurse with a measure. Concurrency is interleaving: udp_step and the tcp steps take one completion at a time,
  network_step any client, any stranger, the server and the network, ds_run interleaves packets and audio
  callbacks, send_run blocks and mute switches, ui_step the events of the network thread, the meters of the worker, the
  event loop and the user, client_step the event loop and the owner of the TCP client, and net_step with other_step the
  network thread with the receiver, the timer and a stop. Unsynchronised flags are read as if atomic.
  In net_step the reading of a flag, what is done because of it and a sleep are steps of their own.
  Worker_syncStart takes the readings of the flags as arguments; Worker_Threads shows that every interleaving
  of the threads gives it such readings. A wait for a thread that does not end is the result None
  (MainWindow_destroy, qt_main) or a step that never comes (other_step, ui_step).

  What is shown. Packets: building and parsing are inverse, exactly which datagrams are accepted, and the
  three parsers agree. UDP server: it refines the abstract relay, one connection per endpoint, fan-out, logout. TCP
  server: at most two members and one write in progress each, reassembly of the stream whatever the network cuts.
  Client: the jitter buffer refines a bounded FIFO list; the audio callback refines a playback of plain
  blocks and plays bursts in order; receiving and playing goes on, with full blocks and unshared segments, unless a packet
  decodes to less than a block; the sender numbers its packets without a gap, sends every block in the encoding that the
  voice detector decides, and ends only in faults of a library; the start-up ends
  within 400 ms of waiting unless it succeeds, and tells its caller exactly one outcome unless the client throws;
  heartbeats keep their rate. Threads: the network thread does what syncStart does, and a stop ends it
  within 400 ms of sleep, or within 3 seconds when it comes inside a round of the sending loop. Window: no volume that the
  meters calculate leaves the bars, connecting ends if the host resolves, the settings survive a restart. End to end: a voice packet reaches every other client once, what
  one worker records another plays, the login completes, the TCP client reads what the session was given and
  writes what it was sent. On a hostile network: what a client hears another endpoint has said, and who is logged in is a
  member of the room. Other theorems state defects of the code as
  it is: a logout that is not answered, one datagram that makes every listener read past a block, deferred sends that read freed memory, a host that does not
  resolve, a stop that is lost or crashes the network thread, clients
  that are never freed, sends after the end of the TCP event loop. Lemmas state more: the fade-in, the dead check
  of serial numbers, a TCP session that is heard after its logout, clients that listen to any source.

  What is assumed of libraries stands in named predicates: spsc_queue (the lock-free queue), opus_contract (the codec keeps to
  its arrays), opus_frames (a packet made of a block decodes to as many samples), webrtc_fills and farend_ok (the WebRTC
  functions fill the arrays they are given, and the far-end buffer takes a full block), json_keeps (a tree is read back).

  Locales and their interpretations: datagram_parser by server_parser, client_parser and jni_parser;
  relay_room by udp_room and tcp_room; framed_reader by session_reader and client_reader;
  write_queue by session_writer and client_writer; volume_meter by peak_meter and rms_meter; spsc_queue, block_queue
  and segment_queue by list_queue and list_segments.

  Not modelled. The files of the Android client that are copies of those of client_essential and
  include (the models of the originals apply word for word); its Java part; the interfaces without code (IWorker,
  NetClient, AudioDevice, AudioEncoder, AudioDecoder, Participant, Server), whose implementations are modelled; the
  class Statistician in Profiler.hpp, which is disabled; the KCP server, of which only a commented-out call is left; the
  unit tests Tcp.cpp and CallbackStylePortaudioEndpointLoopback.cpp, which call a constructor and an init that
  the classes no longer have. Data races on the state of the comfort noise decoder and of the profiler are outside the
  interleaving models.
\<close>

section \<open>From client to client over the UDP server\<close>

lemma client_send_eq:
  "send_to (hd (udp_endpoints impl)) (wholePacket p) = None \<Longrightarrow>
   snd (RawUdpClient_send send_to p impl) = [(hd (udp_endpoints impl), wholePacket p)]"
  by (simp add: RawUdpClient_send_def RawUdpClientImpl_send_def RawUdpClientImpl_sendUdp_def
      header_def wholePackLength_def Let_def)

lemma receive_one:
  assumes "length reply = client_max_length" and "packet_wf p" and "length (wholePacket p) \<le> max_length"
  shows "receiver_loop ver [\<lparr>going_on = True, received = Some (wholePacket p), round_up = up\<rparr>] reply = [p]"
  using receiver_loop_packets [OF assms(1), of ver "[(wholePacket p, up)]"] assms(2,3)
  by (simp add: datagram_packet_wf map_filter_simps)

text \<open>
  C1: voice reaches every other client. A client sends an audio or comfort-noise packet of at
  most 1024 bytes through its UDP socket; the datagram that leaves the socket arrives at a server in
  broadcast mode. Then the receiver thread of every other client that is registered with the server hands over
  exactly this packet, once, whatever its array held before, and the callback of its worker appends
  it to the playback. No one else gets anything: neither the sender, whether it was registered before or is registered
  by this packet, nor an endpoint that the server does not know.
\<close>
theorem voice_reaches_peers:
  assumes "udp_reachable ver False s" and "packet_wf p" and "length (wholePacket p) \<le> max_length"
    and "pt_of_code (payloadType p) \<in> Some ` {AudioMessage, AudioMessage_CN}"
    and "send_to (hd (udp_endpoints impl)) (wholePacket p) = None"
    and "snd (RawUdpClient_send send_to p impl) = [(srv, bytes)]"
    and "udp_step ver s \<lparr>ev_ec = False, ev_from = a, ev_bytes = bytes, ev_addr = k, ev_up = up\<rparr> out s'"
    and "length reply = client_max_length"
  shows "receiver_loop ver'
      (map (\<lambda>x. \<lparr>going_on = True, received = Some (snd x), round_up = up'\<rparr>) (filter (\<lambda>x. fst x = b) out)) reply =
      (if b \<in> endpoints s - {a} then [p] else []) \<and>
    Worker_onDataReceived opus far qlib ver' up' p (login, ds) =
      map_sum id (\<lambda>ds. ([], login, ds)) (DownstreamProcessor_append opus far qlib p ds)"
proof -
  have bytes: "bytes = wholePacket p"
    using client_send_eq [of send_to impl p] assms(5,6) by simp
  have media: "isMediaType p"
    using assms(4) by (auto simp: isMediaType_iff)
  have "set out = (\<lambda>r. (r, wholePacket p)) ` (endpoints s - {a})" "distinct (map fst out)"
    using udp_step_refines [OF assms(1,7)] assms(2,3) media
    by (simp_all add: bytes relay_spec_def datagram_packet_wf packet_wf_nonempty)
  from sends_to_one [OF this, of b] receive_one [OF assms(8,2,3), of ver' up'] assms(4) show ?thesis
    by (auto simp: Worker_onDataReceived_def)
qed

text \<open>Endpoint 1 talks, endpoint 2 is registered, endpoint 3 is not.\<close>

theorem voice_reaches_peers_witness:
  "\<exists>(s :: nat RawUdpServer) k out s'. udp_step 0 s
     \<lparr>ev_ec = False, ev_from = 1, ev_bytes = wholePacket talk, ev_addr = k, ev_up = 0\<rparr> out s' \<and>
     (\<forall>b \<in> {1, 2, 3}. receiver_loop 0
       (map (\<lambda>x. \<lparr>going_on = True, received = Some (snd x), round_up = 0\<rparr>) (filter (\<lambda>x. fst x = b) out))
       (replicate 1024 0) = (if b = 2 then [talk] else []))"
proof -
  let ?impl = "\<lparr>udp_endpoints = [9 :: nat], isGoingOn = True\<rparr>"
  obtain s :: "nat RawUdpServer" where s: "udp_reachable 0 False s" "endpoints s = {1, 2}"
    using udp_two_clients by blast
  obtain k out s' where st: "udp_step 0 s \<lparr>ev_ec = False, ev_from = 1,
      ev_bytes = wholePacket talk, ev_addr = k, ev_up = 0\<rparr> out s'"
    by (meson udp_can_receive)
  have media: "pt_of_code (payloadType talk) \<in> Some ` {AudioMessage, AudioMessage_CN}"
    by (simp add: packet_simps del: pt_code.simps)
  have l: "length (replicate 1024 (0 :: byte)) = client_max_length"
    by (simp add: client_max_length_def)
  have sent: "snd (RawUdpClient_send (\<lambda>_ _. None) talk ?impl) = [(9, wholePacket talk)]"
    by (simp add: client_send_eq)
  have "receiver_loop 0
      (map (\<lambda>x. \<lparr>going_on = True, received = Some (snd x), round_up = 0\<rparr>) (filter (\<lambda>x. fst x = b) out))
      (replicate 1024 0) = (if b \<in> endpoints s - {1} then [talk] else [])" for b
    using voice_reaches_peers [OF s(1) talk_wf(1,2) media _ sent st l, where b = b and ver' = 0 and up' = 0] by blast
  then have "\<forall>b \<in> {1, 2, 3}. receiver_loop 0
      (map (\<lambda>x. \<lparr>going_on = True, received = Some (snd x), round_up = 0\<rparr>) (filter (\<lambda>x. fst x = b) out))
      (replicate 1024 0) = (if b = 2 then [talk] else [])"
    unfolding s(2) by simp
  with st show ?thesis
    by blast
qed

text \<open>
  C17: the login completes. The login request that syncStart sends is answered by a UDP
  server with datagrams for the requesting endpoint only; the receiver thread of the client hands
  over at least one login response and nothing else, and the callback of the worker then sets the login flag.
\<close>
theorem login_completes:
  assumes "udp_reachable ver echo s"
    and "udp_step ver s \<lparr>ev_ec = False, ev_from = a,
      ev_bytes = wholePacket (NetPacket_new cver cup (pt_code LoginRequest) 0), ev_addr = k, ev_up = up\<rparr> out s'"
    and "length reply = client_max_length"
  shows "fst ` set out = {a} \<and> a \<in> endpoints s' \<and>
    (\<exists>p. receiver_loop ver' (map (\<lambda>x. \<lparr>going_on = True, received = Some (snd x), round_up = up'\<rparr>) out) reply = [p] \<and>
      Worker_onDataReceived opus far qlib ver' up' p (False, ds) = Inr ([], True, ds))"
proof -
  let ?q = "NetPacket_new cver cup (pt_code LoginRequest) 0"
  let ?p = "NetPacket_new ver up (pt_code LoginResponse) 0"
  have l: "length (wholePacket ?q) \<le> max_length" "length (wholePacket ?p) \<le> max_length"
    by (simp_all add: NetPacket_new_layout max_length_def)
  have out: "set out = (\<lambda>r. (r, wholePacket ?p)) ` {a}" "distinct (map fst out)"
      "endpoints s' = insert a (endpoints s)"
    using udp_step_refines [OF assms(1,2)] l(1) datagram_packet_wf [OF packet_wf_new l(1)]
    by (auto simp: relay_spec_def packet_wf_nonempty packet_simps isMediaType_iff simp del: pt_code.simps)
  have "filter (\<lambda>x. fst x = a) out = out"
    using out(1) by (auto simp: filter_id_conv)
  then have o: "out = [(a, wholePacket ?p)]"
    using sends_to_one [OF out(1,2), of a] by simp
  have "Worker_onDataReceived opus far qlib ver' up' ?p (False, ds) = Inr ([], True, ds)"
    by (simp add: Worker_onDataReceived_def packet_simps del: pt_code.simps)
  then show ?thesis
    using receive_one [OF assms(3) packet_wf_new l(2)] out(3) by (simp add: o)
qed

theorem login_completes_witness:
  "\<exists>(s :: nat RawUdpServer) k out s' p. udp_step 0 s \<lparr>ev_ec = False, ev_from = 3,
      ev_bytes = wholePacket (NetPacket_new 0 0 (pt_code LoginRequest) 0), ev_addr = k, ev_up = 0\<rparr> out s' \<and>
    receiver_loop 0 (map (\<lambda>x. \<lparr>going_on = True, received = Some (snd x), round_up = 0\<rparr>) out) (replicate 1024 0) = [p] \<and>
    Worker_onDataReceived (toy_opus 160) toy_farend list_queue 0 0 p (False, toy_downstream) = Inr ([], True, toy_downstream)"
proof -
  obtain s :: "nat RawUdpServer" where s: "udp_reachable 0 False s" "endpoints s = {1, 2}"
    using udp_two_clients by blast
  obtain k out s' where st: "udp_step 0 s \<lparr>ev_ec = False, ev_from = 3,
      ev_bytes = wholePacket (NetPacket_new 0 0 (pt_code LoginRequest) 0), ev_addr = k, ev_up = 0\<rparr> out s'"
    by (meson udp_can_receive)
  have "length (replicate 1024 (0 :: byte)) = client_max_length"
    by (simp add: client_max_length_def)
  from login_completes [OF s(1) st this] st show ?thesis
    by blast
qed

section \<open>From the TCP server to its client\<close>

text \<open>
  C8: the TCP server and its client agree on the stream. Whatever sequence of deliveries and write
  completions a session of the server goes through, the client that reads the bytes of the writes
  the session started hands over exactly the packets delivered first, in their order, and keeps no
  byte back: all of them once the queue is empty.
\<close>
theorem tcp_end_to_end:
  assumes "session_writer.run calls [] = Some (q, ws)" and "\<forall>p \<in> set (writer_delivered calls). packet_wf p"
    and "20 \<le> length (wholePacket m)"
  shows "client_reader.frames m (concat ws) =
      (take (writer_completions calls + (if q = [] then 0 else 1)) (writer_delivered calls), []) \<and>
    (q = [] \<longrightarrow> fst (client_reader.frames m (concat ws)) = writer_delivered calls)"
proof -
  let ?n = "writer_completions calls + (if q = [] then 0 else 1)"
  have w: "ws = map wholePacket (take ?n (writer_delivered calls))"
      "q = drop (writer_completions calls) (writer_delivered calls)"
    using session_writer.run_writes [OF assms(1)] by simp_all
  have "\<forall>p \<in> set (take ?n (writer_delivered calls)). packet_wf p"
    using assms(2) by (blast dest: in_set_takeD)
  from client_reader.frames_packets [OF assms(3) this, of "[]"] w show ?thesis
    by auto
qed

theorem tcp_end_to_end_witness:
  "\<exists>q ws. session_writer.run [Deliver (NetPacket_new 1 2 3 4), Deliver (NetPacket_new 1 2 3 5), Written] [] = Some (q, ws) \<and>
     client_reader.frames (NetPacket_new 0 0 0 0) (concat ws) = ([NetPacket_new 1 2 3 4, NetPacket_new 1 2 3 5], [])"
proof -
  let ?calls = "[Deliver (NetPacket_new 1 2 3 4), Deliver (NetPacket_new 1 2 3 5), Written]"
  obtain q ws where r: "session_writer.run ?calls [] = Some (q, ws)" "q \<noteq> []"
    by (simp add: session_writer.deliver session_writer.written)
  have "20 \<le> length (wholePacket (NetPacket_new 0 0 0 0))"
    by (simp add: NetPacket_new_eq)
  from tcp_end_to_end [OF r(1) _ this] r show ?thesis
    by (fastforce simp: writer_completions_def)
qed

end
